(* ===== verification/Sylar_Prelude.thy ===== *)
theory Sylar_Prelude
  imports Main "HOL-Library.Word" "HOL-Library.Char_ord" "HOL-Library.List_Lexorder"
begin

text \<open>
  Shared vocabulary of the development: the errors the C++ code can end in, results as sums,
  the C character functions and \<open>std::string\<close> operations the sources use, decimal output of
  integers, and the \<open>named_theorems\<close> collections the component theories fill.
\<close>

named_theorems level_simps \<open>evaluation of log levels\<close>
named_theorems store_simps \<open>reads after writes on the object stores\<close>
named_theorems frame_simps \<open>fields that an operation does not touch\<close>
named_theorems wf_intros \<open>operations that keep a well-formedness invariant\<close>

subsection \<open>Errors and results\<close>

text \<open>
  \<open>StdException\<close> is any exception derived from \<open>std::exception\<close> (with the text of \<open>what\<close>),
  which the handlers of the code catch; the other constructors end the process: a null
  dereference, a failed \<open>assert\<close>, \<open>std::terminate\<close>, or behaviour the standard leaves undefined.
\<close>

datatype exn =
    StdException string
  | OtherException
  | NullDeref
  | AssertFail string
  | Terminate
  | UndefinedBehaviour string

type_synonym 'a res = "exn + 'a"

definition bind_res :: "'a res \<Rightarrow> ('a \<Rightarrow> 'b res) \<Rightarrow> 'b res" where
  "bind_res r f = (case r of Inl e \<Rightarrow> Inl e | Inr x \<Rightarrow> f x)"

lemma bind_res_simps [simp]:
  "bind_res (Inl e) f = Inl e"
  "bind_res (Inr x) f = f x"
  by (simp_all add: bind_res_def)

lemma bind_res_Inr_conv: "bind_res r f = Inr y \<longleftrightarrow> (\<exists>x. r = Inr x \<and> f x = Inr y)"
  by (cases r) auto

lemma bind_res_Inl_conv:
  "bind_res r f = Inl e \<longleftrightarrow> r = Inl e \<or> (\<exists>x. r = Inr x \<and> f x = Inl e)"
  by (cases r) auto

text \<open>A loop whose body may fail, stopping at the first failure.\<close>

fun fold_res :: "('a \<Rightarrow> 's \<Rightarrow> 's res) \<Rightarrow> 'a list \<Rightarrow> 's \<Rightarrow> 's res" where
  "fold_res f [] s = Inr s"
| "fold_res f (x # xs) s = bind_res (f x s) (fold_res f xs)"

lemma fold_res_append [simp]:
  "fold_res f (xs @ ys) s = bind_res (fold_res f xs s) (fold_res f ys)"
proof (induction xs arbitrary: s)
  case (Cons x xs)
  then show ?case by (cases "f x s") simp_all
qed simp

text \<open>A loop that maps a function that may fail over a list.\<close>

fun map_res :: "('a \<Rightarrow> 'b res) \<Rightarrow> 'a list \<Rightarrow> 'b list res" where
  "map_res f [] = Inr []"
| "map_res f (x # xs) = bind_res (f x) (\<lambda>y. bind_res (map_res f xs) (\<lambda>ys. Inr (y # ys)))"

lemma map_res_Inr: "(\<And>x. x \<in> set xs \<Longrightarrow> f x = Inr (g x)) \<Longrightarrow> map_res f xs = Inr (map g xs)"
  by (induction xs) simp_all

lemma map_res_length: "map_res f xs = Inr ys \<Longrightarrow> length ys = length xs"
  by (induction xs arbitrary: ys) (auto simp: bind_res_Inr_conv)

text \<open>A computation that may throw and that prints to \<open>std::cout\<close>: its result and its output.\<close>

type_synonym 'a wres = "'a res \<times> string"

definition lift_w :: "'a res \<Rightarrow> 'a wres" where
  "lift_w r = (r, [])"

definition put_w :: "string \<Rightarrow> 'a \<Rightarrow> 'a wres" where
  "put_w text x = (Inr x, text)"

definition bind_w :: "'a wres \<Rightarrow> ('a \<Rightarrow> 'b wres) \<Rightarrow> 'b wres" where
  "bind_w m f = (case m of (Inl e, out) \<Rightarrow> (Inl e, out)
     | (Inr x, out) \<Rightarrow> (case f x of (r, out') \<Rightarrow> (r, out @ out')))"

fun map_w :: "('a \<Rightarrow> 'b wres) \<Rightarrow> 'a list \<Rightarrow> 'b list wres" where
  "map_w f [] = lift_w (Inr [])"
| "map_w f (x # xs) = bind_w (f x) (\<lambda>y. bind_w (map_w f xs) (\<lambda>ys. lift_w (Inr (y # ys))))"

lemma fst_lift_w [simp]: "fst (lift_w r) = r"
  by (simp add: lift_w_def)

lemma fst_put_w [simp]: "fst (put_w text x) = Inr x"
  by (simp add: put_w_def)

lemma fst_bind_w [simp]: "fst (bind_w m f) = bind_res (fst m) (\<lambda>x. fst (f x))"
  by (cases m; cases "fst m") (simp_all add: bind_w_def split: prod.splits)

lemma fst_map_w [simp]: "fst (map_w f xs) = map_res (\<lambda>x. fst (f x)) xs"
  by (induction xs) simp_all

subsection \<open>Characters and strings\<close>

text \<open>\<open>toupper\<close>, \<open>tolower\<close> and \<open>isalpha\<close> of \<open><cctype>\<close> in the C locale.\<close>

definition is_upper :: "char \<Rightarrow> bool" where
  "is_upper c \<longleftrightarrow> CHR ''A'' \<le> c \<and> c \<le> CHR ''Z''"

definition is_lower :: "char \<Rightarrow> bool" where
  "is_lower c \<longleftrightarrow> CHR ''a'' \<le> c \<and> c \<le> CHR ''z''"

definition isalpha :: "char \<Rightarrow> bool" where
  "isalpha c \<longleftrightarrow> is_upper c \<or> is_lower c"

definition toupper :: "char \<Rightarrow> char" where
  "toupper c = (if is_lower c then char_of (of_char c - 32 :: nat) else c)"

definition tolower :: "char \<Rightarrow> char" where
  "tolower c = (if is_upper c then char_of (of_char c + 32 :: nat) else c)"

text \<open>\<open>str.find_first_not_of(allowed) == std::string::npos\<close>.\<close>

definition all_in :: "string \<Rightarrow> string \<Rightarrow> bool" where
  "all_in allowed s \<longleftrightarrow> list_all (\<lambda>c. c \<in> set allowed) s"

lemma all_in_append [simp]: "all_in a (s @ t) \<longleftrightarrow> all_in a s \<and> all_in a t"
  by (simp add: all_in_def)

lemma all_in_Nil [simp]: "all_in a []"
  by (simp add: all_in_def)

lemma all_in_Cons [simp]: "all_in a (c # s) \<longleftrightarrow> c \<in> set a \<and> all_in a s"
  by (simp add: all_in_def)

subsection \<open>Decimal output of integers\<close>

definition digit_char :: "nat \<Rightarrow> char" where
  "digit_char d = char_of (48 + d)"

fun dec_nat :: "nat \<Rightarrow> string" where
  "dec_nat n = (if n < 10 then [digit_char n] else dec_nat (n div 10) @ [digit_char (n mod 10)])"

declare dec_nat.simps [simp del]

definition dec_int :: "int \<Rightarrow> string" where
  "dec_int i = (if i < 0 then CHR ''-'' # dec_nat (nat (- i)) else dec_nat (nat i))"

text \<open>\<open>os << x\<close> for an unsigned and for a signed value of a machine width.\<close>

definition dec_unsigned :: "'a::len word \<Rightarrow> string" where
  "dec_unsigned w = dec_nat (unat w)"

definition dec_signed :: "'a::len word \<Rightarrow> string" where
  "dec_signed w = dec_int (sint w)"

text \<open>A 64-bit counter below its maximum grows.\<close>

lemma word_inc_greater: "s \<noteq> - 1 \<Longrightarrow> (s::64 word) < s + 1"
proof -
  assume "s \<noteq> - 1"
  then have "unat s \<noteq> unat (- 1 :: 64 word)" by (metis unsigned_word_eqI)
  then have "unat s \<noteq> 2 ^ 64 - 1" by (simp add: unsigned_minus_1_eq_mask mask_eq_exp_minus_1)
  then have "unat s + 1 < 2 ^ 64" using unsigned_less [of s, where ?'a = nat] by simp
  then have "unat (s + 1) = unat s + 1" by (simp add: unat_word_ariths)
  then show "s < s + 1" by (simp add: word_less_nat_alt)
qed

subsection \<open>State machines\<close>

text \<open>An invariant of a step relation, and what it gives for the reachable states.\<close>

locale invariant_system =
  fixes init :: "'s \<Rightarrow> bool"
    and step :: "'s \<Rightarrow> 's \<Rightarrow> bool"
    and inv :: "'s \<Rightarrow> bool"
  assumes init_inv: "init s \<Longrightarrow> inv s"
    and step_inv: "inv s \<Longrightarrow> step s t \<Longrightarrow> inv t"
begin

lemma steps_inv: "step\<^sup>*\<^sup>* s t \<Longrightarrow> inv s \<Longrightarrow> inv t"
  by (induction rule: rtranclp_induct) (auto intro: step_inv)

lemma reachable_inv: "init s \<Longrightarrow> step\<^sup>*\<^sup>* s t \<Longrightarrow> inv t"
  by (blast intro: steps_inv init_inv)

end

end
