(* ===== verification/Log_Level.thy ===== *)
theory Log_Level
  imports Sylar_Prelude
begin

text \<open>
  \<open>LogLevel\<close> of \<^verbatim>\<open>sylar/log.h\<close>: the enumeration, its numeric order, and the conversions from and
  to text. \<open>DISABLED\<close> is the value \<open>static_cast<LogLevel::Level>(100)\<close> that the configuration
  listener stores to silence a logger; no other value outside the enumerators occurs.
\<close>

datatype log_level = UNKNOW | DEBUG | INFO | WARN | ERROR | FATAL | DISABLED

fun level_num :: "log_level \<Rightarrow> nat" where
  "level_num UNKNOW = 0"
| "level_num DEBUG = 1"
| "level_num INFO = 2"
| "level_num WARN = 3"
| "level_num ERROR = 4"
| "level_num FATAL = 5"
| "level_num DISABLED = 100"

lemma level_num_inject: "level_num a = level_num b \<longleftrightarrow> a = b"
  by (cases a; cases b) simp_all

text \<open>The comparisons of the code are on the underlying integers.\<close>

instantiation log_level :: linorder
begin

definition less_eq_log_level :: "log_level \<Rightarrow> log_level \<Rightarrow> bool" where
  "less_eq_log_level a b \<longleftrightarrow> level_num a \<le> level_num b"

definition less_log_level :: "log_level \<Rightarrow> log_level \<Rightarrow> bool" where
  "less_log_level a b \<longleftrightarrow> level_num a < level_num b"

instance
  by standard
    (auto simp: less_eq_log_level_def less_log_level_def level_num_inject [symmetric])

end

lemmas [level_simps] = less_eq_log_level_def less_log_level_def

definition LogLevel_ToString :: "log_level \<Rightarrow> string" where
  "LogLevel_ToString level =
     (case level of
        DEBUG \<Rightarrow> ''DEBUG''
      | INFO \<Rightarrow> ''INFO''
      | WARN \<Rightarrow> ''WARN''
      | ERROR \<Rightarrow> ''ERROR''
      | FATAL \<Rightarrow> ''FATAL''
      | _ \<Rightarrow> ''UNKNOW'')"

definition LogLevel_FromString :: "string \<Rightarrow> log_level" where
  "LogLevel_FromString str =
     (let ucstr = map toupper str in
      if ucstr = ''DEBUG'' then DEBUG
      else if ucstr = ''INFO'' then INFO
      else if ucstr = ''WARN'' then WARN
      else if ucstr = ''ERROR'' then ERROR
      else if ucstr = ''FATAL'' then FATAL
      else UNKNOW)"

text \<open>The levels an event can carry: the arguments of the \<open>SYLAR_LOG_*\<close> macros.\<close>

definition event_level :: "log_level \<Rightarrow> bool" where
  "event_level l \<longleftrightarrow> l \<in> {DEBUG, INFO, WARN, ERROR, FATAL}"

lemma FromString_known:
  "LogLevel_FromString ''DEBUG'' = DEBUG"
  "LogLevel_FromString ''INFO'' = INFO"
  "LogLevel_FromString ''WARN'' = WARN"
  "LogLevel_FromString ''ERROR'' = ERROR"
  "LogLevel_FromString ''FATAL'' = FATAL"
  "LogLevel_FromString ''UNKNOW'' = UNKNOW"
  by code_simp+

lemma FromString_ToString:
  "LogLevel_FromString (LogLevel_ToString l) = (if l = DISABLED then UNKNOW else l)"
  by (cases l) (simp_all add: LogLevel_ToString_def FromString_known)

lemma FromString_not_disabled: "LogLevel_FromString s \<noteq> DISABLED"
  by (simp add: LogLevel_FromString_def Let_def)

lemma toupper_idem [simp]: "toupper (toupper c) = toupper c"
proof (cases "is_lower c")
  case True
  define n where "n = (of_char c :: nat)"
  from True have n: "97 \<le> n" "n \<le> 122"
    by (simp_all add: is_lower_def less_eq_char_def n_def)
  then have "of_char (char_of (n - 32) :: char) = n - 32"
    by (simp add: take_bit_eq_mod)
  with n have "\<not> is_lower (char_of (n - 32))"
    by (simp add: is_lower_def less_eq_char_def)
  with True show ?thesis by (simp add: toupper_def n_def)
qed (simp add: toupper_def)

lemma FromString_case_insensitive:
  assumes "map toupper s = map toupper t"
  shows "LogLevel_FromString s = LogLevel_FromString t"
  using assms by (simp add: LogLevel_FromString_def)

lemma event_level_less_disabled: "event_level l \<Longrightarrow> l < DISABLED"
  by (auto simp: event_level_def level_simps)

lemma unknow_least: "UNKNOW \<le> l"
  by (simp add: level_simps)

end
