(* ===== verification/Log_Formatter.thy ===== *)
theory Log_Formatter
  imports Log_Level
begin

text \<open>
  The log event, the format items and the pattern compiler of \<^verbatim>\<open>sylar/log.cc\<close>:
  \<open>LogFormatter::init\<close> is a three-state machine over the characters of the pattern; the
  formatter it builds runs its items over an output stream. What the items take from outside
  the sources (time formatting, path decomposition, the name stored in the logger object) is
  the record \<open>fmt_env\<close>.
\<close>

subsection \<open>Log events\<close>

record log_event =
  ev_file :: string
  ev_line :: "32 word"
  ev_elapse :: "32 word"
  ev_threadId :: "32 word"
  ev_fiberId :: "32 word"
  ev_time :: "64 word"
  ev_logger :: nat
  ev_level :: log_level
  ev_threadName :: string
  ev_content :: string

definition LogEvent_new :: "nat \<Rightarrow> log_level \<Rightarrow> string \<Rightarrow> 32 word \<Rightarrow> 32 word \<Rightarrow> 32 word \<Rightarrow>
    32 word \<Rightarrow> 64 word \<Rightarrow> string \<Rightarrow> log_event" where
  "LogEvent_new logger level file line elapse thread_id fiber_id time thread_name =
     \<lparr>ev_file = file, ev_line = line, ev_elapse = elapse, ev_threadId = thread_id,
      ev_fiberId = fiber_id, ev_time = time, ev_logger = logger, ev_level = level,
      ev_threadName = thread_name, ev_content = []\<rparr>"

text \<open>\<open>getSS() << text\<close>\<close>

definition LogEvent_put :: "string \<Rightarrow> log_event \<Rightarrow> log_event" where
  "LogEvent_put text ev = ev\<lparr>ev_content := ev_content ev @ text\<rparr>"

text \<open>\<open>LogEvent::format\<close>; the argument is what \<open>vasprintf\<close> produced, \<open>None\<close> for -1.\<close>

definition LogEvent_format :: "string option \<Rightarrow> log_event \<Rightarrow> log_event" where
  "LogEvent_format printed ev =
     (case printed of None \<Rightarrow> ev | Some text \<Rightarrow> ev\<lparr>ev_content := ev_content ev @ text\<rparr>)"

subsection \<open>Output streams\<close>

text \<open>A \<open>std::stringstream\<close>: once \<open>badbit\<close> is set, insertions do nothing.\<close>

record ostream =
  os_buf :: string
  os_bad :: bool

definition os_empty :: ostream where
  "os_empty = \<lparr>os_buf = [], os_bad = False\<rparr>"

definition os_put :: "string \<Rightarrow> ostream \<Rightarrow> ostream" where
  "os_put text os = (if os_bad os then os else os\<lparr>os_buf := os_buf os @ text\<rparr>)"

text \<open>Inserting a null \<open>const char*\<close> sets \<open>badbit\<close> (libstdc++).\<close>

definition os_put_cstr :: "string option \<Rightarrow> ostream \<Rightarrow> ostream" where
  "os_put_cstr p os = (case p of None \<Rightarrow> os\<lparr>os_bad := True\<rparr> | Some text \<Rightarrow> os_put text os)"

subsection \<open>Format items\<close>

datatype format_item =
    MessageFormatItem
  | LevelFormatItem
  | ElapseFormatItem
  | NameFormatItem
  | ThreadIDFormatItem
  | FiberIDFormatItem
  | ThreadNameFormatItem
  | DateTimeFormatItem string
  | FilenameFormatItem string
  | LineFormatItem
  | NewLineFormatItem
  | StringFormatItem string
  | TabFormatItem
  | ColorLevelFormatItem

text \<open>
  \<open>fe_strftime fmt t\<close>: \<open>localtime_r\<close> and \<open>strftime\<close> into the 64-byte buffer, \<open>None\<close> when the text does
  not fit and the buffer is left indeterminate. \<open>fe_filename\<close>, \<open>fe_parents\<close> and \<open>fe_relative\<close>:
  \<open>boost::filesystem\<close>'s \<open>filename()\<close>, the elements of the path after \<open>remove_filename()\<close>, and
  \<open>relative()\<close> (\<open>None\<close> when it throws). \<open>fe_name\<close>: \<open>Logger::getName\<close> of the logger at an address.
\<close>

record fmt_env =
  fe_strftime :: "string \<Rightarrow> 64 word \<Rightarrow> string option"
  fe_filename :: "string \<Rightarrow> string"
  fe_parents :: "string \<Rightarrow> string list"
  fe_relative :: "string \<Rightarrow> string option"
  fe_name :: "nat \<Rightarrow> string"

definition DateTimeFormatItem_new :: "string \<Rightarrow> format_item" where
  "DateTimeFormatItem_new format =
     DateTimeFormatItem (if format = [] then ''%Y-%m-%d %H:%M:%S'' else format)"

text \<open>The first character of each directory, with a slash after all but the root.\<close>

definition short_dir :: "string \<Rightarrow> string" where
  "short_dir s =
     (case s of [] \<Rightarrow> [CHR 0x00] | c # _ \<Rightarrow> [c]) @ (if s \<noteq> ''/'' then ''/'' else [])"

definition esc :: "string \<Rightarrow> string" where
  "esc s = CHR 0x1B # CHR ''['' # s"

definition stdout_colors :: "log_level \<Rightarrow> string option" where
  "stdout_colors level =
     (case level of
        DEBUG \<Rightarrow> Some (esc ''32m'' @ esc ''1m'')
      | INFO \<Rightarrow> Some (esc ''0m'' @ esc ''1m '')
      | WARN \<Rightarrow> Some (esc ''33m'' @ esc ''1m '')
      | ERROR \<Rightarrow> Some (esc ''31m'' @ esc ''1m'')
      | FATAL \<Rightarrow> Some (esc ''35m'' @ esc ''1m'')
      | _ \<Rightarrow> None)"

definition stdout_clearfmt :: string where
  "stdout_clearfmt = esc ''0m''"

fun FormatItem_format :: "fmt_env \<Rightarrow> format_item \<Rightarrow> log_event \<Rightarrow> ostream \<Rightarrow> ostream res" where
  "FormatItem_format env MessageFormatItem ev os = Inr (os_put (ev_content ev) os)"
| "FormatItem_format env LevelFormatItem ev os = Inr (os_put (LogLevel_ToString (ev_level ev)) os)"
| "FormatItem_format env ElapseFormatItem ev os = Inr (os_put (dec_unsigned (ev_elapse ev)) os)"
| "FormatItem_format env NameFormatItem ev os = Inr (os_put (fe_name env (ev_logger ev)) os)"
| "FormatItem_format env ThreadIDFormatItem ev os = Inr (os_put (dec_unsigned (ev_threadId ev)) os)"
| "FormatItem_format env FiberIDFormatItem ev os = Inr (os_put (dec_unsigned (ev_fiberId ev)) os)"
| "FormatItem_format env ThreadNameFormatItem ev os = Inr (os_put (ev_threadName ev) os)"
| "FormatItem_format env (DateTimeFormatItem fmt) ev os =
     (case fe_strftime env fmt (ev_time ev) of
        None \<Rightarrow> Inl (UndefinedBehaviour ''strftime buffer'')
      | Some buf \<Rightarrow> Inr (os_put buf os))"
| "FormatItem_format env (FilenameFormatItem str) ev os =
     (if str = ''s'' then
        Inr (os_put (concat (map short_dir (fe_parents env (ev_file ev))) @
                     fe_filename env (ev_file ev)) os)
      else if str = ''r'' then
        (case fe_relative env (ev_file ev) of
           None \<Rightarrow> Inl (StdException ''filesystem_error'')
         | Some p \<Rightarrow> Inr (os_put p os))
      else Inr (os_put (ev_file ev) os))"
| "FormatItem_format env LineFormatItem ev os = Inr (os_put (dec_signed (ev_line ev)) os)"
| "FormatItem_format env NewLineFormatItem ev os = Inr (os_put [CHR 0x0A] os)"
| "FormatItem_format env (StringFormatItem str) ev os = Inr (os_put str os)"
| "FormatItem_format env TabFormatItem ev os = Inr (os_put [CHR 0x09] os)"
| "FormatItem_format env ColorLevelFormatItem ev os =
     Inr (os_put stdout_clearfmt
           (os_put (LogLevel_ToString (ev_level ev))
             (os_put_cstr (stdout_colors (ev_level ev)) os)))"

subsection \<open>The pattern compiler\<close>

datatype parse_status = PS_NORMAL_STRING | PS_PARSING_STR | PS_PARSING_FMT

type_synonym fmt_tuple = "string \<times> string \<times> nat"

record parse_state =
  ps_vec :: "fmt_tuple list"
  ps_nstr :: string
  ps_pstr :: string
  ps_pfmt :: string
  ps_status :: parse_status
  ps_error :: bool

definition parse_start :: parse_state where
  "parse_start = \<lparr>ps_vec = [], ps_nstr = [], ps_pstr = [], ps_pfmt = [],
     ps_status = PS_NORMAL_STRING, ps_error = False\<rparr>"

definition emit_spec :: "parse_state \<Rightarrow> parse_state" where
  "emit_spec s = s\<lparr>ps_vec := ps_vec s @ [(ps_pstr s, ps_pfmt s, 1)], ps_pstr := [], ps_pfmt := []\<rparr>"

definition emit_error :: "parse_state \<Rightarrow> parse_state" where
  "emit_error s = s\<lparr>ps_status := PS_NORMAL_STRING,
     ps_vec := ps_vec s @ [(''<<error_pattern>>'', [], 0)],
     ps_pstr := [], ps_pfmt := [], ps_error := True\<rparr>"

text \<open>
  One pass of the \<open>for\<close> loop at character \<open>c\<close>. \<open>pct\<close> says whether the next character exists and
  is a percent sign; the flag of the result says whether the body advanced \<open>i\<close> past it.
\<close>

definition init_step :: "char \<Rightarrow> bool \<Rightarrow> parse_state \<Rightarrow> parse_state \<times> bool" where
  "init_step c pct s =
     (case ps_status s of
        PS_NORMAL_STRING \<Rightarrow>
          if c = CHR ''%'' then
            if pct then (s\<lparr>ps_nstr := ps_nstr s @ ''%''\<rparr>, True)
            else (let s = s\<lparr>ps_status := PS_PARSING_STR\<rparr> in
                  if ps_nstr s \<noteq> []
                  then (s\<lparr>ps_vec := ps_vec s @ [(ps_nstr s, [], 0)], ps_nstr := []\<rparr>, False)
                  else (s, False))
          else (s\<lparr>ps_nstr := ps_nstr s @ [c]\<rparr>, False)
      | PS_PARSING_STR \<Rightarrow>
          if c = CHR ''{'' then (s\<lparr>ps_status := PS_PARSING_FMT\<rparr>, False)
          else if c = CHR ''}'' then (emit_error s, False)
          else if c = CHR ''%'' then
            (let s = emit_spec s in
             if pct then (s\<lparr>ps_status := PS_NORMAL_STRING, ps_nstr := ps_nstr s @ ''%''\<rparr>, True)
             else (s\<lparr>ps_status := PS_PARSING_STR\<rparr>, False))
          else if \<not> isalpha c then
            ((emit_spec s)\<lparr>ps_status := PS_NORMAL_STRING, ps_nstr := ps_nstr s @ [c]\<rparr>, False)
          else (s\<lparr>ps_pstr := ps_pstr s @ [c]\<rparr>, False)
      | PS_PARSING_FMT \<Rightarrow>
          if c = CHR ''}'' then ((emit_spec s)\<lparr>ps_status := PS_NORMAL_STRING\<rparr>, False)
          else if c = CHR ''{'' then (emit_error s, False)
          else (s\<lparr>ps_pfmt := ps_pfmt s @ [c]\<rparr>, False))"

definition next_pct :: "string \<Rightarrow> bool" where
  "next_pct cs = (case cs of [] \<Rightarrow> False | d # _ \<Rightarrow> d = CHR ''%'')"

function init_loop :: "string \<Rightarrow> parse_state \<Rightarrow> parse_state" where
  "init_loop [] s = s"
| "init_loop (c # cs) s =
     (let (s', skip) = init_step c (next_pct cs) s
      in init_loop (if skip then tl cs else cs) s')"
  by pat_completeness auto
termination
  by (relation "measure (\<lambda>(cs, s). length cs)") (auto simp: less_Suc_eq_le)

text \<open>The check after the loop.\<close>

definition parse_end :: "parse_state \<Rightarrow> parse_state" where
  "parse_end s =
     (if ps_status s = PS_NORMAL_STRING \<and> ps_nstr s \<noteq> [] then
        s\<lparr>ps_vec := ps_vec s @ [(ps_nstr s, [], 0)]\<rparr>
      else if ps_status s = PS_PARSING_STR then
        s\<lparr>ps_vec := ps_vec s @ [(ps_pstr s, ps_pfmt s, 1)]\<rparr>
      else s\<lparr>ps_error := True, ps_vec := ps_vec s @ [(''<<error_pattern>>'', [], 0)]\<rparr>)"

definition parse_pattern :: "string \<Rightarrow> parse_state" where
  "parse_pattern pattern = parse_end (init_loop pattern parse_start)"

definition s_format_items :: "string \<Rightarrow> (string \<Rightarrow> format_item) option" where
  "s_format_items = map_of
     [(''m'', \<lambda>_. MessageFormatItem),
      (''p'', \<lambda>_. LevelFormatItem),
      (''r'', \<lambda>_. ElapseFormatItem),
      (''c'', \<lambda>_. NameFormatItem),
      (''t'', \<lambda>_. ThreadIDFormatItem),
      (''n'', \<lambda>_. NewLineFormatItem),
      (''d'', DateTimeFormatItem_new),
      (''f'', FilenameFormatItem),
      (''l'', \<lambda>_. LineFormatItem),
      (''T'', \<lambda>_. TabFormatItem),
      (''F'', \<lambda>_. FiberIDFormatItem),
      (''P'', \<lambda>_. ColorLevelFormatItem),
      (''N'', \<lambda>_. ThreadNameFormatItem)]"

text \<open>The item for one tuple, and whether it was an unknown format.\<close>

definition make_item :: "fmt_tuple \<Rightarrow> format_item \<times> bool" where
  "make_item t =
     (case t of (str, fmt, ty) \<Rightarrow>
        if ty = 0 then (StringFormatItem str, False)
        else (case s_format_items str of
                None \<Rightarrow> (StringFormatItem (''<<error_format %'' @ str @ ''>>''), True)
              | Some C \<Rightarrow> (C fmt, False)))"

record log_formatter =
  m_pattern :: string
  m_items :: "format_item list"
  m_error :: bool

definition LogFormatter_init :: "log_formatter \<Rightarrow> log_formatter" where
  "LogFormatter_init f =
     (let s = parse_pattern (m_pattern f); made = map make_item (ps_vec s)
      in f\<lparr>m_items := m_items f @ map fst made,
           m_error := m_error f \<or> ps_error s \<or> list_ex snd made\<rparr>)"

definition LogFormatter_new :: "string \<Rightarrow> log_formatter" where
  "LogFormatter_new pattern =
     LogFormatter_init \<lparr>m_pattern = pattern, m_items = [], m_error = False\<rparr>"

definition LogFormatter_format :: "fmt_env \<Rightarrow> log_formatter \<Rightarrow> log_event \<Rightarrow> string res" where
  "LogFormatter_format env f ev =
     bind_res (fold_res (\<lambda>item os. FormatItem_format env item ev os) (m_items f) os_empty)
       (\<lambda>os. Inr (os_buf os))"

end
