(* ===== verification/Log_Pattern.thy ===== *)
theory Log_Pattern
  imports Log_Formatter
begin

text \<open>
  What the pattern compiler of \<open>Log_Formatter\<close> computes. A pattern is the printed form of a list
  of segments (literal text, a conversion with braces, a bare conversion); compiling the printed
  form of a well-formed list gives back its segments, so the state machine implements the
  grammar the comment above \<open>LogFormatter::init\<close> sketches. The second half is about running a
  compiled formatter: its output is the concatenation of the texts of its items.
\<close>

subsection \<open>The grammar of patterns\<close>

datatype seg = Lit string | Spec string string | Bare string

definition escape :: "string \<Rightarrow> string" where
  "escape s = concat (map (\<lambda>c. if c = CHR ''%'' then ''%%'' else [c]) s)"

fun print_seg :: "seg \<Rightarrow> string" where
  "print_seg (Lit s) = escape s"
| "print_seg (Spec p f) = ''%'' @ p @ ''{'' @ f @ ''}''"
| "print_seg (Bare p) = ''%'' @ p"

definition print_segs :: "seg list \<Rightarrow> string" where
  "print_segs segs = concat (map print_seg segs)"

fun seg_tuple :: "seg \<Rightarrow> fmt_tuple" where
  "seg_tuple (Lit s) = (s, [], 0)"
| "seg_tuple (Spec p f) = (p, f, 1)"
| "seg_tuple (Bare p) = (p, [], 1)"

definition is_brace :: "char \<Rightarrow> bool" where
  "is_brace c \<longleftrightarrow> c = CHR ''{'' \<or> c = CHR ''}''"

text \<open>
  Literals are non-empty and not adjacent; conversion names are letters; a format argument has
  no braces; a bare conversion is not followed by a literal that would extend it or look like
  its argument; a list ends with a literal or a bare conversion.
\<close>

fun wf_segs :: "seg list \<Rightarrow> bool" where
  "wf_segs [] \<longleftrightarrow> True"
| "wf_segs (Lit s # rest) \<longleftrightarrow>
     s \<noteq> [] \<and> (case rest of Lit _ # _ \<Rightarrow> False | _ \<Rightarrow> True) \<and> wf_segs rest"
| "wf_segs (Spec p f # rest) \<longleftrightarrow>
     list_all isalpha p \<and> list_all (\<lambda>c. \<not> is_brace c) f \<and> rest \<noteq> [] \<and> wf_segs rest"
| "wf_segs (Bare p # rest) \<longleftrightarrow>
     p \<noteq> [] \<and> list_all isalpha p \<and>
     (case rest of Lit (c # _) # _ \<Rightarrow> \<not> isalpha c \<and> \<not> is_brace c | _ \<Rightarrow> True) \<and> wf_segs rest"

subsection \<open>Runs of the state machine\<close>

lemma isalpha_not_special:
  assumes "isalpha c" shows "c \<noteq> CHR ''%''" "\<not> is_brace c"
  using assms by (auto simp: isalpha_def is_upper_def is_lower_def less_eq_char_def is_brace_def)

lemma next_pct_simps [simp]:
  "\<not> next_pct []"
  "next_pct (c # cs) \<longleftrightarrow> c = CHR ''%''"
  by (simp_all add: next_pct_def)

lemma escape_simps [simp]:
  "escape [] = []"
  "escape (c # s) = (if c = CHR ''%'' then ''%%'' else [c]) @ escape s"
  by (simp_all add: escape_def)

lemma print_segs_simps [simp]:
  "print_segs [] = []"
  "print_segs (x # xs) = print_seg x @ print_segs xs"
  by (simp_all add: print_segs_def)

text \<open>The three shapes of state the machine passes through.\<close>

abbreviation in_text :: "fmt_tuple list \<Rightarrow> string \<Rightarrow> bool \<Rightarrow> parse_state" where
  "in_text v n e \<equiv> \<lparr>ps_vec = v, ps_nstr = n, ps_pstr = [], ps_pfmt = [],
     ps_status = PS_NORMAL_STRING, ps_error = e\<rparr>"

abbreviation in_name :: "fmt_tuple list \<Rightarrow> string \<Rightarrow> bool \<Rightarrow> parse_state" where
  "in_name v p e \<equiv> \<lparr>ps_vec = v, ps_nstr = [], ps_pstr = p, ps_pfmt = [],
     ps_status = PS_PARSING_STR, ps_error = e\<rparr>"

abbreviation in_arg :: "fmt_tuple list \<Rightarrow> string \<Rightarrow> string \<Rightarrow> bool \<Rightarrow> parse_state" where
  "in_arg v p f e \<equiv> \<lparr>ps_vec = v, ps_nstr = [], ps_pstr = p, ps_pfmt = f,
     ps_status = PS_PARSING_FMT, ps_error = e\<rparr>"

definition flush_text :: "fmt_tuple list \<Rightarrow> string \<Rightarrow> fmt_tuple list" where
  "flush_text v n = v @ (if n = [] then [] else [(n, [], 0)])"

lemma loop_literal: "init_loop (escape t @ cs) (in_text v n e) = init_loop cs (in_text v (n @ t) e)"
  by (induction t arbitrary: n) (simp_all add: init_step_def)

lemma loop_open:
  "\<not> next_pct cs \<Longrightarrow>
     init_loop (CHR ''%'' # cs) (in_text v n e) = init_loop cs (in_name (flush_text v n) [] e)"
  by (simp add: init_step_def flush_text_def)

lemma loop_name:
  "list_all isalpha p \<Longrightarrow> init_loop (p @ cs) (in_name v q e) = init_loop cs (in_name v (q @ p) e)"
proof (induction p arbitrary: q)
  case (Cons c p)
  then have "c \<noteq> CHR ''%''" "\<not> is_brace c" by (simp_all add: isalpha_not_special)
  with Cons show ?case by (simp add: init_step_def is_brace_def)
qed simp

lemma loop_open_arg: "init_loop (CHR ''{'' # cs) (in_name v p e) = init_loop cs (in_arg v p [] e)"
  by (simp add: init_step_def)

lemma loop_argument:
  "list_all (\<lambda>c. \<not> is_brace c) f \<Longrightarrow>
     init_loop (f @ CHR ''}'' # cs) (in_arg v p g e) = init_loop cs (in_text (v @ [(p, g @ f, 1)]) [] e)"
  by (induction f arbitrary: g) (simp_all add: init_step_def emit_spec_def is_brace_def)

text \<open>
  A pending bare conversion followed by text that neither extends nor brackets it behaves as if
  it had been emitted already and the machine were back in its normal state.
\<close>

lemma loop_close_bare:
  assumes "\<not> isalpha c" and "\<not> is_brace c"
  shows "init_loop (c # cs) (in_name v p e) = init_loop (c # cs) (in_text (v @ [(p, [], 1)]) [] e)"
  using assms by (simp add: init_step_def emit_spec_def is_brace_def)

lemma name_not_pct: "list_all isalpha p \<Longrightarrow> \<not> next_pct cs \<Longrightarrow> \<not> next_pct (p @ cs)"
  by (cases p) (auto simp: isalpha_not_special)

lemma loop_spec:
  assumes "list_all isalpha p" and "list_all (\<lambda>c. \<not> is_brace c) f"
  shows "init_loop (CHR ''%'' # p @ CHR ''{'' # f @ CHR ''}'' # cs) (in_text v n e) =
    init_loop cs (in_text (flush_text v n @ [(p, f, 1)]) [] e)"
proof -
  have "\<not> next_pct (p @ CHR ''{'' # f @ CHR ''}'' # cs)"
    by (rule name_not_pct [OF assms(1)]) simp
  with assms show ?thesis
    by (simp add: loop_open loop_name loop_open_arg loop_argument del: init_loop.simps)
qed

lemma loop_bare:
  assumes "p \<noteq> []" and "list_all isalpha p"
  shows "init_loop (CHR ''%'' # p @ cs) (in_text v n e) =
    init_loop cs (in_name (flush_text v n) p e)"
proof -
  from assms obtain c p' where "p = c # p'" "isalpha c" by (cases p) auto
  then have "\<not> next_pct (p @ cs)" by (simp add: isalpha_not_special)
  with assms show ?thesis
    by (simp add: loop_open loop_name del: init_loop.simps)
qed

lemma print_segs_next:
  assumes "wf_segs segs" and "segs \<noteq> []"
    and "case segs of Lit (c # _) # _ \<Rightarrow> \<not> isalpha c \<and> \<not> is_brace c | _ \<Rightarrow> True"
  obtains c cs where "print_segs segs = c # cs" "\<not> isalpha c" "\<not> is_brace c"
proof -
  have pct: "\<not> isalpha CHR ''%''" "\<not> is_brace CHR ''%''"
    by (simp_all add: isalpha_def is_upper_def is_lower_def less_eq_char_def is_brace_def)
  from assms obtain x xs where segs: "segs = x # xs" by (cases segs) auto
  show thesis
  proof (cases x)
    case (Lit s)
    with assms segs obtain c s' where "s = c # s'" by (cases s) auto
    with assms segs Lit that pct show thesis by (cases "c = CHR ''%''") auto
  qed (use segs that pct in auto)
qed

text \<open>The text left in \<open>nstr\<close> and the segments still to read, as the tuples they give.\<close>

lemma loop_segs:
  assumes "wf_segs segs" and "n = [] \<Longrightarrow> segs \<noteq> []"
    and "n \<noteq> [] \<Longrightarrow> (case segs of Lit _ # _ \<Rightarrow> False | _ \<Rightarrow> True)"
  shows "ps_vec (parse_end (init_loop (print_segs segs) (in_text v n e))) =
           flush_text v n @ map seg_tuple segs \<and>
         ps_error (parse_end (init_loop (print_segs segs) (in_text v n e))) = e"
  using assms
proof (induction segs arbitrary: v n rule: wf_segs.induct)
  case 1
  then show ?case by (auto simp: parse_end_def flush_text_def)
next
  case (2 s rest)
  then have "n = []" by auto
  with 2 show ?case
    using "2.IH" [of s v] by (simp add: loop_literal flush_text_def del: init_loop.simps)
next
  case (3 p f rest)
  then show ?case
    using "3.IH" [of "[]" "flush_text v n @ [(p, f, 1)]"]
    by (simp add: loop_spec flush_text_def del: init_loop.simps)
next
  case (4 p rest)
  note bare = loop_bare [of p "print_segs rest" v n e]
  show ?case
  proof (cases "rest = []")
    case True
    with 4 bare show ?thesis by (simp add: parse_end_def)
  next
    case False
    have "wf_segs rest"
      "case rest of Lit (c # _) # _ \<Rightarrow> \<not> isalpha c \<and> \<not> is_brace c | _ \<Rightarrow> True"
      using "4.prems"(1) by simp_all
    from print_segs_next [OF this(1) False this(2)]
    obtain c cs where "print_segs rest = c # cs" "\<not> isalpha c" "\<not> is_brace c" .
    then have "init_loop (print_segs rest) (in_name (flush_text v n) p e) =
               init_loop (print_segs rest) (in_text (flush_text v n @ [(p, [], 1)]) [] e)"
      by (simp add: loop_close_bare del: init_loop.simps)
    with 4 False bare show ?thesis
      using "4.IH" [of "[]" "flush_text v n @ [(p, [], 1)]"]
      by (simp add: flush_text_def del: init_loop.simps)
  qed
qed

text \<open>Segments up to a conversion with an argument leave the machine in its normal state.\<close>

lemma loop_segs_spec:
  assumes "wf_segs (pre @ [Spec p f, Lit x])"
    and "n \<noteq> [] \<Longrightarrow> (case pre of Lit _ # _ \<Rightarrow> False | _ \<Rightarrow> True)"
  shows "init_loop (print_segs (pre @ [Spec p f]) @ cs) (in_text v n e) =
         init_loop cs (in_text (flush_text v n @ map seg_tuple (pre @ [Spec p f])) [] e)"
  using assms
proof (induction pre arbitrary: v n rule: wf_segs.induct)
  case 1
  then show ?case by (simp add: loop_spec del: init_loop.simps)
next
  case (2 s rest)
  then have "n = []" by auto
  moreover from 2 have "case rest of Lit _ # _ \<Rightarrow> False | _ \<Rightarrow> True" "wf_segs (rest @ [Spec p f, Lit x])"
    by (cases rest; auto split: seg.splits)+
  ultimately show ?case
    using 2(2) "2.IH" [of s v] by (simp add: loop_literal flush_text_def del: init_loop.simps)
next
  case (3 q g rest)
  then show ?case
    using "3.IH" [of "[]" "flush_text v n @ [(q, g, 1)]"]
    by (simp add: loop_spec flush_text_def del: init_loop.simps)
next
  case (4 q rest)
  let ?rest = "rest @ [Spec p f]" and ?wf = "rest @ [Spec p f, Lit x]"
  have wf: "wf_segs ?wf" "case ?wf of Lit (c # _) # _ \<Rightarrow> \<not> isalpha c \<and> \<not> is_brace c | _ \<Rightarrow> True"
    using 4(2) by simp_all
  from print_segs_next [OF wf(1) _ wf(2)]
  obtain c cs' where "print_segs ?wf = c # cs'" "\<not> isalpha c" "\<not> is_brace c" by blast
  moreover have "print_segs ?wf = print_segs ?rest @ escape x" by (simp add: print_segs_def)
  moreover have "print_segs ?rest \<noteq> []" by (simp add: print_segs_def)
  ultimately obtain cs'' where "print_segs ?rest = c # cs''" by (cases "print_segs ?rest") auto
  then have "init_loop (print_segs ?rest @ cs) (in_name (flush_text v n) q e) =
             init_loop (print_segs ?rest @ cs) (in_text (flush_text v n @ [(q, [], 1)]) [] e)"
    using \<open>\<not> isalpha c\<close> \<open>\<not> is_brace c\<close> by (simp add: loop_close_bare del: init_loop.simps)
  then show ?case
    using 4(2) "4.IH" [of "[]" "flush_text v n @ [(q, [], 1)]"] wf(1)
      loop_bare [of q "print_segs ?rest @ cs" v n e]
    by (simp add: flush_text_def del: init_loop.simps)
qed

subsection \<open>Compiled formatters\<close>

fun known_seg :: "seg \<Rightarrow> bool" where
  "known_seg (Lit s) \<longleftrightarrow> True"
| "known_seg (Spec p f) \<longleftrightarrow> s_format_items p \<noteq> None"
| "known_seg (Bare p) \<longleftrightarrow> s_format_items p \<noteq> None"

lemma parse_print_segs:
  assumes "wf_segs segs" and "segs \<noteq> []"
  shows "ps_vec (parse_pattern (print_segs segs)) = map seg_tuple segs"
    and "\<not> ps_error (parse_pattern (print_segs segs))"
  using loop_segs [of segs "[]" "[]" False] assms
  by (simp_all add: parse_pattern_def parse_start_def flush_text_def)

lemma make_item_unknown: "snd (make_item (seg_tuple x)) \<longleftrightarrow> \<not> known_seg x"
  by (cases x) (auto simp: make_item_def split: option.splits)

lemma LogFormatter_new_simps:
  "m_pattern (LogFormatter_new p) = p"
  "m_items (LogFormatter_new p) = map (fst \<circ> make_item) (ps_vec (parse_pattern p))"
  "m_error (LogFormatter_new p) \<longleftrightarrow> ps_error (parse_pattern p) \<or>
     list_ex (snd \<circ> make_item) (ps_vec (parse_pattern p))"
  by (simp_all add: LogFormatter_new_def LogFormatter_init_def Let_def list_ex_iff)

text \<open>C1. Compiling the printed form of a well-formed segment list gives back exactly its segments as
  tuples, without a pattern error.\<close>

theorem pattern_roundtrip:
  assumes "wf_segs segs" and "segs \<noteq> []"
  shows "ps_vec (parse_pattern (print_segs segs)) = map seg_tuple segs \<and>
         \<not> ps_error (parse_pattern (print_segs segs))"
  using parse_print_segs [OF assms] by simp

theorem pattern_roundtrip_witness:
  "ps_vec (parse_pattern (print_segs [Spec ''d'' ''%Y'', Lit '' 100% '', Bare ''m''])) =
     [(''d'', ''%Y'', 1), ('' 100% '', [], 0), (''m'', [], 1)]"
proof -
  have "wf_segs [Spec ''d'' ''%Y'', Lit '' 100% '', Bare ''m'']" by code_simp
  from pattern_roundtrip [OF this] show ?thesis by simp
qed

text \<open>C32. The formatter built from the printed form of a well-formed segment list reports an error exactly
  when some conversion of it is not in the table of format items.\<close>

theorem formatter_error_iff:
  assumes "wf_segs segs" and "segs \<noteq> []"
  shows "m_error (LogFormatter_new (print_segs segs)) \<longleftrightarrow> \<not> list_all known_seg segs"
  using parse_print_segs [OF assms]
  by (auto simp: LogFormatter_new_simps list_ex_iff list_all_iff make_item_unknown)

theorem formatter_error_iff_witness:
  "m_error (LogFormatter_new (print_segs [Bare ''q'', Lit ''.''])) \<and>
   \<not> m_error (LogFormatter_new (print_segs [Bare ''m'', Lit ''.'']))"
proof -
  have "wf_segs [Bare ''q'', Lit ''.'']" "wf_segs [Bare ''m'', Lit ''.'']" by code_simp+
  moreover have "\<not> list_all known_seg [Bare ''q'', Lit ''.'']" "list_all known_seg [Bare ''m'', Lit ''.'']"
    by code_simp+
  ultimately show ?thesis
    using formatter_error_iff [of "[Bare ''q'', Lit ''.'']"]
      formatter_error_iff [of "[Bare ''m'', Lit ''.'']"] by simp
qed

text \<open>C33. A pattern that ends with a conversion and its closed argument is reported as an error and gets an
  extra error text, although the same segments followed by any literal are accepted: the
  check after the loop treats the normal state with no pending text as a failure.\<close>

theorem trailing_argument_rejected:
  assumes "wf_segs (pre @ [Spec p f, Lit x])"
  shows "m_error (LogFormatter_new (print_segs (pre @ [Spec p f]))) \<and>
         last (m_items (LogFormatter_new (print_segs (pre @ [Spec p f])))) =
           StringFormatItem ''<<error_pattern>>''"
proof -
  have "parse_pattern (print_segs (pre @ [Spec p f])) =
        parse_end (in_text (map seg_tuple (pre @ [Spec p f])) [] False)"
    using loop_segs_spec [OF assms, of "[]" "[]" "[]" False]
    by (simp add: parse_pattern_def parse_start_def flush_text_def)
  then show ?thesis by (simp add: LogFormatter_new_simps parse_end_def make_item_def)
qed

theorem trailing_argument_rejected_witness:
  "m_error (LogFormatter_new ''%d{%Y}'') \<and> \<not> m_error (LogFormatter_new ''%d{%Y} '')"
proof -
  have "wf_segs ([] @ [Spec ''d'' ''%Y'', Lit '' ''])" by code_simp
  from trailing_argument_rejected [OF this] have "m_error (LogFormatter_new ''%d{%Y}'')" by simp
  moreover have "\<not> m_error (LogFormatter_new ''%d{%Y} '')" by code_simp
  ultimately show ?thesis by simp
qed

subsection \<open>Running a formatter\<close>

text \<open>The text an item contributes, and when the item is safe to run on an event.\<close>

fun item_text :: "fmt_env \<Rightarrow> log_event \<Rightarrow> format_item \<Rightarrow> string" where
  "item_text env ev MessageFormatItem = ev_content ev"
| "item_text env ev LevelFormatItem = LogLevel_ToString (ev_level ev)"
| "item_text env ev ElapseFormatItem = dec_unsigned (ev_elapse ev)"
| "item_text env ev NameFormatItem = fe_name env (ev_logger ev)"
| "item_text env ev ThreadIDFormatItem = dec_unsigned (ev_threadId ev)"
| "item_text env ev FiberIDFormatItem = dec_unsigned (ev_fiberId ev)"
| "item_text env ev ThreadNameFormatItem = ev_threadName ev"
| "item_text env ev (DateTimeFormatItem f) = the (fe_strftime env f (ev_time ev))"
| "item_text env ev (FilenameFormatItem s) =
     (if s = ''s'' then concat (map short_dir (fe_parents env (ev_file ev))) @ fe_filename env (ev_file ev)
      else if s = ''r'' then the (fe_relative env (ev_file ev))
      else ev_file ev)"
| "item_text env ev LineFormatItem = dec_signed (ev_line ev)"
| "item_text env ev NewLineFormatItem = [CHR 0x0A]"
| "item_text env ev (StringFormatItem s) = s"
| "item_text env ev TabFormatItem = [CHR 0x09]"
| "item_text env ev ColorLevelFormatItem =
     the (stdout_colors (ev_level ev)) @ LogLevel_ToString (ev_level ev) @ stdout_clearfmt"

fun renders :: "fmt_env \<Rightarrow> log_event \<Rightarrow> format_item \<Rightarrow> bool" where
  "renders env ev (DateTimeFormatItem f) \<longleftrightarrow> fe_strftime env f (ev_time ev) \<noteq> None"
| "renders env ev (FilenameFormatItem s) \<longleftrightarrow> (s = ''r'' \<longrightarrow> fe_relative env (ev_file ev) \<noteq> None)"
| "renders env ev ColorLevelFormatItem \<longleftrightarrow> event_level (ev_level ev)"
| "renders env ev _ \<longleftrightarrow> True"

lemma stdout_colors_event: "event_level l \<Longrightarrow> \<exists>c. stdout_colors l = Some c"
  by (auto simp: event_level_def stdout_colors_def)

lemma item_renders:
  assumes "renders env ev item" and "\<not> os_bad os"
  shows "FormatItem_format env item ev os = Inr (os\<lparr>os_buf := os_buf os @ item_text env ev item\<rparr>)"
  using assms stdout_colors_event [of "ev_level ev"]
  by (cases item) (auto simp: os_put_def os_put_cstr_def)

lemma items_render:
  assumes "list_all (renders env ev) items" and "\<not> os_bad os"
  shows "fold_res (\<lambda>item os. FormatItem_format env item ev os) items os =
    Inr (os\<lparr>os_buf := os_buf os @ concat (map (item_text env ev) items)\<rparr>)"
  using assms
  by (induction items arbitrary: os) (simp_all add: item_renders)

lemma format_renders:
  assumes "list_all (renders env ev) (m_items f)"
  shows "LogFormatter_format env f ev = Inr (concat (map (item_text env ev) (m_items f)))"
  by (simp add: LogFormatter_format_def items_render [OF assms] os_empty_def)

text \<open>Formatting an event whose items can all be rendered is the concatenation of the texts of the items,
  in order.\<close>

lemma format_is_concat:
  assumes "list_all (renders env ev) (m_items f)"
  shows "LogFormatter_format env f ev = Inr (concat (map (item_text env ev) (m_items f)))"
  by (rule format_renders [OF assms])

definition plain_env :: fmt_env where
  "plain_env = \<lparr>fe_strftime = \<lambda>f t. Some ''now'', fe_filename = \<lambda>p. p, fe_parents = \<lambda>p. [],
     fe_relative = \<lambda>p. Some p, fe_name = \<lambda>a. ''root''\<rparr>"

lemma format_is_concat_example:
  "LogFormatter_format plain_env (LogFormatter_new ''%d %P [%c] %m%n'')
     (LogEvent_put ''hello'' (LogEvent_new 0 INFO ''a.cc'' 7 0 1 0 0 ''main'')) =
   Inr (''now '' @ esc ''0m'' @ esc ''1m INFO'' @ esc ''0m [root] hello'' @ [CHR 0x0A])"
proof -
  let ?ev = "LogEvent_put ''hello'' (LogEvent_new 0 INFO ''a.cc'' 7 0 1 0 0 ''main'')"
  let ?f = "LogFormatter_new ''%d %P [%c] %m%n''"
  have "list_all (renders plain_env ?ev) (m_items ?f)" by code_simp
  from format_is_concat [OF this] show ?thesis by (simp only:) code_simp
qed

text \<open>A literal pattern, with its percent signs doubled, compiles without error and prints itself for
  every event.\<close>

lemma literal_pattern:
  assumes "s \<noteq> []"
  shows "\<not> m_error (LogFormatter_new (escape s)) \<and>
         LogFormatter_format env (LogFormatter_new (escape s)) ev = Inr s"
proof -
  have wf: "wf_segs [Lit s]" using assms by simp
  note parsed = parse_print_segs [OF wf, simplified]
  have "m_items (LogFormatter_new (escape s)) = [StringFormatItem s]"
    using parsed by (simp add: LogFormatter_new_simps make_item_def)
  then show ?thesis
    using parsed by (simp add: LogFormatter_new_simps make_item_def format_renders)
qed

lemma literal_pattern_example:
  "LogFormatter_format plain_env (LogFormatter_new ''100%%'')
     (LogEvent_new 0 INFO ''a.cc'' 7 0 1 0 0 ''main'') = Inr ''100%''"
  using literal_pattern [of "''100%''" plain_env "LogEvent_new 0 INFO ''a.cc'' 7 0 1 0 0 ''main''"]
  by simp

end
