(* ===== verification/Ordered_Map.thy ===== *)
theory Ordered_Map
  imports Sylar_Prelude
begin

text \<open>
  The ordered containers of the standard library that the sources keep state in:
  \<open>std::map\<close> as an association list with strictly increasing keys (its iteration order), and
  \<open>std::set\<close> under a comparison that looks at one key of the element (as the set of
  \<open>LogDefine\<close>, ordered by name) as a list with strictly increasing keys.
  Each has its interface as a locale, with the facts its clients use proved there once.
\<close>

subsection \<open>std::map\<close>

type_synonym ('k, 'v) smap = "('k \<times> 'v) list"

definition smap_inv :: "('k::linorder, 'v) smap \<Rightarrow> bool" where
  "smap_inv m \<longleftrightarrow> sorted_wrt (<) (map fst m)"

definition smap_find :: "('k::linorder, 'v) smap \<Rightarrow> 'k \<Rightarrow> 'v option" where
  "smap_find m k = map_of m k"

text \<open>\<open>m[k] = v\<close>\<close>

fun smap_set :: "'k::linorder \<Rightarrow> 'v \<Rightarrow> ('k, 'v) smap \<Rightarrow> ('k, 'v) smap" where
  "smap_set k v [] = [(k, v)]"
| "smap_set k v ((k', v') # m) =
     (if k < k' then (k, v) # (k', v') # m
      else if k = k' then (k, v) # m
      else (k', v') # smap_set k v m)"

definition smap_erase :: "'k::linorder \<Rightarrow> ('k, 'v) smap \<Rightarrow> ('k, 'v) smap" where
  "smap_erase k m = filter (\<lambda>p. fst p \<noteq> k) m"

locale std_map =
  fixes empty :: "'m"
    and find :: "'m \<Rightarrow> 'k \<Rightarrow> 'v option"
    and assign :: "'k \<Rightarrow> 'v \<Rightarrow> 'm \<Rightarrow> 'm"
    and erase :: "'k \<Rightarrow> 'm \<Rightarrow> 'm"
    and invar :: "'m \<Rightarrow> bool"
  assumes find_empty: "find empty k = None"
    and find_assign: "invar m \<Longrightarrow> find (assign k v m) k' = (if k' = k then Some v else find m k')"
    and find_erase: "invar m \<Longrightarrow> find (erase k m) k' = (if k' = k then None else find m k')"
    and invar_empty: "invar empty"
    and invar_assign: "invar m \<Longrightarrow> invar (assign k v m)"
    and invar_erase: "invar m \<Longrightarrow> invar (erase k m)"
begin

lemma find_assign_same: "invar m \<Longrightarrow> find (assign k v m) k = Some v"
  by (simp add: find_assign)

lemma find_assign_other: "invar m \<Longrightarrow> k' \<noteq> k \<Longrightarrow> find (assign k v m) k' = find m k'"
  by (simp add: find_assign)

lemma erase_after_assign:
  assumes "invar m" and "find m k = None"
  shows "find (erase k (assign k v m)) = find m"
  using assms by (auto simp: find_erase find_assign invar_assign)

lemma dom_assign: "invar m \<Longrightarrow> dom (find (assign k v m)) = insert k (dom (find m))"
  by (auto simp: find_assign dom_def)

end

lemma smap_set_keys: "set (map fst (smap_set k v m)) = insert k (set (map fst m))"
  by (induction k v m rule: smap_set.induct) auto

lemma smap_inv_Nil [simp]: "smap_inv []"
  by (simp add: smap_inv_def)

lemma smap_inv_Cons: "smap_inv ((k, v) # m) \<longleftrightarrow> (\<forall>k' \<in> fst ` set m. k < k') \<and> smap_inv m"
  by (auto simp: smap_inv_def)

lemma smap_inv_set: "smap_inv m \<Longrightarrow> smap_inv (smap_set k v m)"
proof (induction k v m rule: smap_set.induct)
  case (2 k v k' v' m)
  have "fst ` set (smap_set k v m) = insert k (fst ` set m)"
    using smap_set_keys [of k v m] by simp
  with 2 show ?case by (auto simp: smap_inv_Cons)
qed (simp add: smap_inv_Cons)

lemma smap_find_set: "smap_find (smap_set k v m) k' = (if k' = k then Some v else smap_find m k')"
  by (induction k v m rule: smap_set.induct) (auto simp: smap_find_def)

lemma smap_find_erase: "smap_find (smap_erase k m) k' = (if k' = k then None else smap_find m k')"
  by (induction m) (auto simp: smap_find_def smap_erase_def)

lemma smap_inv_erase: "smap_inv m \<Longrightarrow> smap_inv (smap_erase k m)"
  by (auto simp: smap_inv_def smap_erase_def sorted_wrt_map intro: sorted_wrt_filter)

interpretation smap: std_map "[]" smap_find smap_set smap_erase smap_inv
  by unfold_locales
    (simp_all add: smap_find_def [of "[]"] smap_find_set smap_find_erase smap_inv_set smap_inv_erase)

lemma smap_find_None: "smap_find m k = None \<longleftrightarrow> k \<notin> fst ` set m"
  by (simp add: smap_find_def map_of_eq_None_iff)

lemma smap_find_Some_in: "smap_find m k = Some v \<Longrightarrow> (k, v) \<in> set m"
  by (simp add: smap_find_def map_of_SomeD)

lemma smap_inv_distinct: "smap_inv m \<Longrightarrow> distinct (map fst m)"
  by (simp add: smap_inv_def strict_sorted_iff)

lemma smap_find_iff: "smap_inv m \<Longrightarrow> smap_find m k = Some v \<longleftrightarrow> (k, v) \<in> set m"
  by (simp add: smap_find_def smap_inv_distinct)

text \<open>A key above every key of the map is added at the end.\<close>

lemma smap_set_greatest: "\<forall>k' \<in> fst ` set m. k' < k \<Longrightarrow> smap_set k v m = m @ [(k, v)]"
  by (induction k v m rule: smap_set.induct) auto

subsection \<open>std::set ordered by a key\<close>

definition sset_inv :: "('a \<Rightarrow> 'k::linorder) \<Rightarrow> 'a list \<Rightarrow> bool" where
  "sset_inv key xs \<longleftrightarrow> sorted_wrt (<) (map key xs)"

text \<open>\<open>insert\<close> keeps the element already there when one compares equivalent.\<close>

fun sset_insert :: "('a \<Rightarrow> 'k::linorder) \<Rightarrow> 'a \<Rightarrow> 'a list \<Rightarrow> 'a list" where
  "sset_insert key x [] = [x]"
| "sset_insert key x (y # ys) =
     (if key x < key y then x # y # ys
      else if key x = key y then y # ys
      else y # sset_insert key x ys)"

text \<open>\<open>find\<close> returns the element that compares equivalent to the one given.\<close>

definition sset_find :: "('a \<Rightarrow> 'k::linorder) \<Rightarrow> 'a list \<Rightarrow> 'k \<Rightarrow> 'a option" where
  "sset_find key xs k = List.find (\<lambda>x. key x = k) xs"

locale keyed_set =
  fixes key :: "'a \<Rightarrow> 'k"
    and insert_elem :: "'a \<Rightarrow> 's \<Rightarrow> 's"
    and find :: "'s \<Rightarrow> 'k \<Rightarrow> 'a option"
    and invar :: "'s \<Rightarrow> bool"
  assumes find_insert: "invar s \<Longrightarrow>
      find (insert_elem x s) k =
        (if k = key x then (case find s k of None \<Rightarrow> Some x | Some y \<Rightarrow> Some y) else find s k)"
    and find_key: "find s k = Some x \<Longrightarrow> key x = k"
    and invar_insert: "invar s \<Longrightarrow> invar (insert_elem x s)"
begin

lemma insert_first_wins:
  assumes "invar s" and "key y = key x"
  shows "find (insert_elem y (insert_elem x s)) k = find (insert_elem x s) k"
  using assms by (auto simp: find_insert invar_insert split: option.splits)

lemma insert_absent: "invar s \<Longrightarrow> find s (key x) = None \<Longrightarrow> find (insert_elem x s) (key x) = Some x"
  by (simp add: find_insert)

lemma invar_fold: "invar s \<Longrightarrow> invar (fold insert_elem xs s)"
  by (induction xs arbitrary: s) (simp_all add: invar_insert)

end

lemma sset_insert_keys: "key ` set (sset_insert key x xs) = insert (key x) (key ` set xs)"
  by (induction key x xs rule: sset_insert.induct) auto

lemma sset_inv_Nil [simp]: "sset_inv key []"
  by (simp add: sset_inv_def)

lemma sset_inv_Cons: "sset_inv key (x # xs) \<longleftrightarrow> (\<forall>k \<in> key ` set xs. key x < k) \<and> sset_inv key xs"
  by (auto simp: sset_inv_def)

lemma sset_inv_insert: "sset_inv key xs \<Longrightarrow> sset_inv key (sset_insert key x xs)"
proof (induction key x xs rule: sset_insert.induct)
  case (2 key x y ys)
  with sset_insert_keys [of key x ys] show ?case by (auto simp: sset_inv_Cons)
qed (simp add: sset_inv_Cons)

lemma sset_find_Cons:
  "sset_find key (y # ys) k = (if key y = k then Some y else sset_find key ys k)"
  by (simp add: sset_find_def)

lemma sset_find_Nil [simp]: "sset_find key [] k = None"
  by (simp add: sset_find_def)

lemma sset_find_None: "sset_find key xs k = None \<longleftrightarrow> k \<notin> key ` set xs"
  by (auto simp: sset_find_def find_None_iff)

lemma sset_find_Some: "sset_find key xs k = Some x \<Longrightarrow> x \<in> set xs \<and> key x = k"
  by (auto simp: sset_find_def find_Some_iff)

lemma sset_find_insert:
  "sset_inv key xs \<Longrightarrow> sset_find key (sset_insert key x xs) k =
     (if k = key x then (case sset_find key xs k of None \<Rightarrow> Some x | Some y \<Rightarrow> Some y)
      else sset_find key xs k)"
proof (induction key x xs rule: sset_insert.induct)
  case (2 key x y ys)
  consider "key x < key y" | "key x = key y" | "key y < key x" by fastforce
  then show ?case
  proof cases
    case 1
    with 2(2) have "key x \<notin> key ` set (y # ys)" by (fastforce simp: sset_inv_Cons)
    then have "sset_find key (y # ys) (key x) = None" by (simp only: sset_find_None not_False_eq_True)
    with 1 show ?thesis by (simp add: sset_find_Cons [of key x])
  next
    case 2
    then show ?thesis by (simp add: sset_find_Cons)
  next
    case 3
    with 2 show ?thesis by (auto simp: sset_find_Cons sset_inv_Cons)
  qed
qed (simp add: sset_find_Cons)

interpretation sset: keyed_set key "sset_insert key" "sset_find key" "sset_inv key"
  for key :: "'a \<Rightarrow> 'k::linorder"
  by unfold_locales (simp_all add: sset_find_insert sset_inv_insert sset_find_Some)

lemma sset_inv_distinct: "sset_inv key xs \<Longrightarrow> distinct (map key xs)"
  by (simp add: sset_inv_def strict_sorted_iff)

lemma sset_find_mem: "sset_inv key xs \<Longrightarrow> x \<in> set xs \<Longrightarrow> sset_find key xs (key x) = Some x"
  by (induction xs) (auto simp: sset_inv_Cons sset_find_Cons)

text \<open>Inserting the elements of a set in iteration order rebuilds it.\<close>

lemma sset_insert_greatest: "\<forall>y \<in> set xs. key y < key x \<Longrightarrow> sset_insert key x xs = xs @ [x]"
  by (induction key x xs rule: sset_insert.induct) auto

lemma sset_fold_insert:
  assumes "sset_inv key (ys @ xs)"
  shows "fold (sset_insert key) xs ys = ys @ xs"
  using assms
proof (induction xs arbitrary: ys)
  case (Cons x xs)
  then have "sset_insert key x ys = ys @ [x]"
    by (intro sset_insert_greatest) (auto simp: sset_inv_def sorted_wrt_append)
  with Cons.IH [of "ys @ [x]"] Cons.prems show ?case by simp
qed simp

end
