(* ===== verification/Log_Appender.thy ===== *)
theory Log_Appender
  imports Log_Pattern Ordered_Map
begin

text \<open>
  The state of the logging system and its appenders (\<open>LogAppender\<close>, \<open>StdoutLogAppender\<close>,
  \<open>FileLogAppender\<close> of \<^verbatim>\<open>sylar/log.h\<close> and \<^verbatim>\<open>sylar/log.cc\<close>). Appenders and loggers are shared, mutable
  objects, so they live in stores indexed by address; formatters never change once built and
  are values. Console and files are part of the state; what the operating system decides
  (the clock, whether a file opens, whether a write succeeds) is the record \<open>io_env\<close>.
  The build defines \<open>SYLAR_LOG_FILE_APPEND\<close>, so every file is opened with \<open>std::ios::app\<close>.
\<close>

subsection \<open>State\<close>

record ofstream =
  fs_open :: bool
  fs_good :: bool

datatype appender_kind =
    StdoutLogAppender
  | FileLogAppender (m_filename: string) (m_filestream: ofstream) (m_lastTime: "64 word")

record log_appender =
  a_kind :: appender_kind
  a_level :: log_level
  a_formatter :: "log_formatter option"
  a_has_formatter :: bool

record logger =
  l_name :: string
  l_level :: log_level
  l_appenders :: "nat list"
  l_formatter :: "log_formatter option"
  l_root :: "nat option"

record log_state =
  st_appenders :: "nat \<Rightarrow> log_appender option"
  st_loggers :: "nat \<Rightarrow> logger option"
  st_next :: nat
  st_stdout :: string
  st_files :: "string \<Rightarrow> string option"
  mgr_loggers :: "(string, nat) smap"
  mgr_root :: nat

record io_env =
  io_now :: "64 word"
  io_can_open :: "string \<Rightarrow> bool"
  io_can_write :: "string \<Rightarrow> bool"
  io_fmt :: fmt_env

definition upd_appender :: "nat \<Rightarrow> (log_appender \<Rightarrow> log_appender) \<Rightarrow> log_state \<Rightarrow> log_state" where
  "upd_appender a f st = st\<lparr>st_appenders := (st_appenders st)(a := map_option f (st_appenders st a))\<rparr>"

definition upd_logger :: "nat \<Rightarrow> (logger \<Rightarrow> logger) \<Rightarrow> log_state \<Rightarrow> log_state" where
  "upd_logger lg f st = st\<lparr>st_loggers := (st_loggers st)(lg := map_option f (st_loggers st lg))\<rparr>"

definition put_stdout :: "string \<Rightarrow> log_state \<Rightarrow> log_state" where
  "put_stdout text st = st\<lparr>st_stdout := st_stdout st @ text\<rparr>"

text \<open>The formatting environment: \<open>getName\<close> reads the logger objects of the state.\<close>

definition env_of :: "io_env \<Rightarrow> log_state \<Rightarrow> fmt_env" where
  "env_of io st = (io_fmt io)\<lparr>fe_name := (\<lambda>lg. case st_loggers st lg of None \<Rightarrow> [] | Some l \<Rightarrow> l_name l)\<rparr>"

subsection \<open>std::ofstream\<close>

text \<open>\<open>close\<close> on a stream with no file sets \<open>failbit\<close>; \<open>open\<close> fails on a stream that still has a file,
  and clears the state when it succeeds.\<close>

definition fs_close :: "ofstream \<Rightarrow> ofstream" where
  "fs_close s = (if fs_open s then s\<lparr>fs_open := False\<rparr> else s\<lparr>fs_good := False\<rparr>)"

definition fs_open_app :: "bool \<Rightarrow> ofstream \<Rightarrow> ofstream" where
  "fs_open_app can s =
     (if \<not> fs_open s \<and> can then \<lparr>fs_open = True, fs_good = True\<rparr> else s\<lparr>fs_good := False\<rparr>)"

text \<open>The file a successful \<open>open\<close> in append mode leaves: created when missing.\<close>

definition touch_file :: "string \<Rightarrow> log_state \<Rightarrow> log_state" where
  "touch_file f st =
     (case st_files st f of None \<Rightarrow> st\<lparr>st_files := (st_files st)(f \<mapsto> [])\<rparr> | Some _ \<Rightarrow> st)"

definition append_file :: "string \<Rightarrow> string \<Rightarrow> log_state \<Rightarrow> log_state" where
  "append_file f text st =
     st\<lparr>st_files := (st_files st)(f \<mapsto> (case st_files st f of None \<Rightarrow> [] | Some t \<Rightarrow> t) @ text)\<rparr>"

subsection \<open>Operations of appenders\<close>

definition LogAppender_setFormatter :: "nat \<Rightarrow> log_formatter option \<Rightarrow> log_state \<Rightarrow> log_state" where
  "LogAppender_setFormatter a val =
     upd_appender a (\<lambda>ap. ap\<lparr>a_formatter := val, a_has_formatter := True\<rparr>)"

definition LogAppender_setLevel :: "nat \<Rightarrow> log_level \<Rightarrow> log_state \<Rightarrow> log_state" where
  "LogAppender_setLevel a level = upd_appender a (\<lambda>ap. ap\<lparr>a_level := level\<rparr>)"

definition alloc_appender :: "appender_kind \<Rightarrow> log_state \<Rightarrow> nat \<times> log_state" where
  "alloc_appender k st =
     (st_next st,
      st\<lparr>st_appenders := (st_appenders st)(st_next st \<mapsto>
            \<lparr>a_kind = k, a_level = DEBUG, a_formatter = None, a_has_formatter = False\<rparr>),
         st_next := Suc (st_next st)\<rparr>)"

definition StdoutLogAppender_new :: "log_state \<Rightarrow> nat \<times> log_state" where
  "StdoutLogAppender_new st = alloc_appender StdoutLogAppender st"

text \<open>\<open>FileLogAppender::reopen\<close> in append mode; the flag is its result.\<close>

definition FileLogAppender_reopen :: "io_env \<Rightarrow> nat \<Rightarrow> log_state \<Rightarrow> log_state \<times> bool" where
  "FileLogAppender_reopen io a st =
     (case st_appenders st a of
        Some ap \<Rightarrow>
          (case a_kind ap of
             FileLogAppender f s t \<Rightarrow>
               (let s1 = (if fs_good s then fs_close s else s);
                    s2 = fs_open_app (io_can_open io f) s1;
                    st1 = upd_appender a (\<lambda>ap. ap\<lparr>a_kind := FileLogAppender f s2 t\<rparr>) st
                in (if fs_good s2 then touch_file f st1 else st1, fs_good s2))
           | StdoutLogAppender \<Rightarrow> (st, False))
      | None \<Rightarrow> (st, False))"

definition FileLogAppender_new :: "io_env \<Rightarrow> string \<Rightarrow> log_state \<Rightarrow> nat \<times> log_state" where
  "FileLogAppender_new io filename st =
     (let (a, st1) = alloc_appender
            (FileLogAppender filename \<lparr>fs_open = False, fs_good = True\<rparr> (io_now io)) st;
          (st2, ok) = FileLogAppender_reopen io a st1
      in (a, if ok then st2
             else put_stdout (''open log file failed:'' @ filename @ [CHR 0x0A]) st2))"

definition StdoutLogAppender_log :: "io_env \<Rightarrow> nat \<Rightarrow> log_event \<Rightarrow> log_state \<Rightarrow> log_state res" where
  "StdoutLogAppender_log io a ev st =
     (case st_appenders st a of
        None \<Rightarrow> Inl NullDeref
      | Some ap \<Rightarrow>
          if a_level ap \<le> ev_level ev then
            (case a_formatter ap of
               None \<Rightarrow> Inl NullDeref
             | Some f \<Rightarrow> bind_res (LogFormatter_format (env_of io st) f ev) (\<lambda>text. Inr (put_stdout text st)))
          else Inr st)"

text \<open>Writing to the stream: nothing happens unless it is good; a failing write sets \<open>badbit\<close>.\<close>

definition stream_write :: "io_env \<Rightarrow> nat \<Rightarrow> string \<Rightarrow> log_state \<Rightarrow> log_state" where
  "stream_write io a text st =
     (case st_appenders st a of
        Some ap \<Rightarrow>
          (case a_kind ap of
             FileLogAppender f s t \<Rightarrow>
               if fs_good s \<and> fs_open s then
                 if io_can_write io f then append_file f text st
                 else upd_appender a (\<lambda>ap. ap\<lparr>a_kind := FileLogAppender f (s\<lparr>fs_good := False\<rparr>) t\<rparr>) st
               else st
           | StdoutLogAppender \<Rightarrow> st)
      | None \<Rightarrow> st)"

definition set_lastTime :: "nat \<Rightarrow> 64 word \<Rightarrow> log_state \<Rightarrow> log_state" where
  "set_lastTime a now = upd_appender a (\<lambda>ap. ap\<lparr>a_kind :=
     (case a_kind ap of FileLogAppender f s t \<Rightarrow> FileLogAppender f s now | k \<Rightarrow> k)\<rparr>)"

definition FileLogAppender_log :: "io_env \<Rightarrow> nat \<Rightarrow> log_event \<Rightarrow> log_state \<Rightarrow> log_state res" where
  "FileLogAppender_log io a ev st =
     (case st_appenders st a of
        None \<Rightarrow> Inl NullDeref
      | Some ap \<Rightarrow>
          if a_level ap \<le> ev_level ev then
            (let st1 = (if io_now io \<noteq> m_lastTime (a_kind ap)
                        then set_lastTime a (io_now io) (fst (FileLogAppender_reopen io a st))
                        else st)
             in (case a_formatter ap of
                   None \<Rightarrow> Inl NullDeref
                 | Some f \<Rightarrow>
                     bind_res (LogFormatter_format (env_of io st1) f ev)
                       (\<lambda>text. Inr (stream_write io a text st1))))
          else Inr st)"

text \<open>The virtual call \<open>i->log(event)\<close>.\<close>

definition LogAppender_log :: "io_env \<Rightarrow> nat \<Rightarrow> log_event \<Rightarrow> log_state \<Rightarrow> log_state res" where
  "LogAppender_log io a ev st =
     (case st_appenders st a of
        None \<Rightarrow> Inl NullDeref
      | Some ap \<Rightarrow>
          (case a_kind ap of
             StdoutLogAppender \<Rightarrow> StdoutLogAppender_log io a ev st
           | FileLogAppender _ _ _ \<Rightarrow> FileLogAppender_log io a ev st))"

subsection \<open>Reads after writes\<close>

lemma upd_appender_simps [store_simps]:
  "st_appenders (upd_appender a f st) b =
     (if b = a then map_option f (st_appenders st a) else st_appenders st b)"
  "st_loggers (upd_appender a f st) = st_loggers st"
  "st_next (upd_appender a f st) = st_next st"
  "st_stdout (upd_appender a f st) = st_stdout st"
  "st_files (upd_appender a f st) = st_files st"
  "mgr_loggers (upd_appender a f st) = mgr_loggers st"
  "mgr_root (upd_appender a f st) = mgr_root st"
  by (simp_all add: upd_appender_def)

lemma upd_logger_simps [store_simps]:
  "st_loggers (upd_logger a f st) b =
     (if b = a then map_option f (st_loggers st a) else st_loggers st b)"
  "st_appenders (upd_logger a f st) = st_appenders st"
  "st_next (upd_logger a f st) = st_next st"
  "st_stdout (upd_logger a f st) = st_stdout st"
  "st_files (upd_logger a f st) = st_files st"
  "mgr_loggers (upd_logger a f st) = mgr_loggers st"
  "mgr_root (upd_logger a f st) = mgr_root st"
  by (simp_all add: upd_logger_def)

lemma put_stdout_simps [store_simps]:
  "st_appenders (put_stdout t st) = st_appenders st"
  "st_loggers (put_stdout t st) = st_loggers st"
  "st_next (put_stdout t st) = st_next st"
  "st_stdout (put_stdout t st) = st_stdout st @ t"
  "st_files (put_stdout t st) = st_files st"
  "mgr_loggers (put_stdout t st) = mgr_loggers st"
  "mgr_root (put_stdout t st) = mgr_root st"
  by (simp_all add: put_stdout_def)

lemma file_simps [store_simps]:
  "st_appenders (append_file f t st) = st_appenders st"
  "st_loggers (append_file f t st) = st_loggers st"
  "st_next (append_file f t st) = st_next st"
  "st_stdout (append_file f t st) = st_stdout st"
  "mgr_loggers (append_file f t st) = mgr_loggers st"
  "mgr_root (append_file f t st) = mgr_root st"
  "st_appenders (touch_file f st) = st_appenders st"
  "st_loggers (touch_file f st) = st_loggers st"
  "st_next (touch_file f st) = st_next st"
  "st_stdout (touch_file f st) = st_stdout st"
  "mgr_loggers (touch_file f st) = mgr_loggers st"
  "mgr_root (touch_file f st) = mgr_root st"
  by (simp_all add: append_file_def touch_file_def split: option.splits)

end
