(* ===== verification/Log_Sink.thy ===== *)
theory Log_Sink
  imports Log_Appender
begin

text \<open>
  The contract of \<open>LogAppender::log\<close> that loggers rely on, as a locale: an event below the
  appender's level changes nothing; otherwise the formatted event is appended to the one sink
  of the appender (the console or its file) and to no other, and no logger, level or formatter
  changes. \<open>StdoutLogAppender\<close>, \<open>FileLogAppender\<close> and the virtual call are its instances.
\<close>

subsection \<open>Observations\<close>

datatype sink = Console | File string

fun sink_text :: "log_state \<Rightarrow> sink \<Rightarrow> string" where
  "sink_text st Console = st_stdout st"
| "sink_text st (File f) = (case st_files st f of None \<Rightarrow> [] | Some t \<Rightarrow> t)"

fun kind_sink :: "appender_kind \<Rightarrow> sink" where
  "kind_sink StdoutLogAppender = Console"
| "kind_sink (FileLogAppender f s t) = File f"

text \<open>What an operation that only logs leaves alone: everything but sinks, streams and times.\<close>

definition appender_sig :: "log_appender \<Rightarrow> log_level \<times> log_formatter option \<times> bool \<times> sink" where
  "appender_sig ap = (a_level ap, a_formatter ap, a_has_formatter ap, kind_sink (a_kind ap))"

definition log_frame :: "log_state \<Rightarrow> log_state \<Rightarrow> bool" where
  "log_frame st st' \<longleftrightarrow>
     st_loggers st' = st_loggers st \<and> st_next st' = st_next st \<and>
     mgr_loggers st' = mgr_loggers st \<and> mgr_root st' = mgr_root st \<and>
     (\<forall>a. map_option appender_sig (st_appenders st' a) = map_option appender_sig (st_appenders st a))"

lemma log_frame_refl [simp, intro]: "log_frame st st"
  by (simp add: log_frame_def)

lemma log_frame_trans: "log_frame st st' \<Longrightarrow> log_frame st' st'' \<Longrightarrow> log_frame st st''"
  by (simp add: log_frame_def)

definition rendered :: "io_env \<Rightarrow> log_state \<Rightarrow> log_event \<Rightarrow> log_appender \<Rightarrow> string" where
  "rendered io st ev ap =
     (if a_level ap \<le> ev_level ev
      then (case a_formatter ap of
              None \<Rightarrow> []
            | Some f \<Rightarrow> concat (map (item_text (env_of io st) ev) (m_items f)))
      else [])"

text \<open>The text an appender adds to a sink.\<close>

definition share :: "io_env \<Rightarrow> log_state \<Rightarrow> log_event \<Rightarrow> sink \<Rightarrow> nat \<Rightarrow> string" where
  "share io st ev k a =
     (case st_appenders st a of
        None \<Rightarrow> []
      | Some ap \<Rightarrow> if kind_sink (a_kind ap) = k then rendered io st ev ap else [])"

text \<open>An appender that has a formatter that can render the event, and whose file, if it has one,
  is open and can be opened again and written.\<close>

fun kind_healthy :: "io_env \<Rightarrow> appender_kind \<Rightarrow> bool" where
  "kind_healthy io StdoutLogAppender \<longleftrightarrow> True"
| "kind_healthy io (FileLogAppender f s t) \<longleftrightarrow>
     fs_open s \<and> fs_good s \<and> io_can_open io f \<and> io_can_write io f"

definition can_render :: "io_env \<Rightarrow> log_event \<Rightarrow> log_state \<Rightarrow> log_formatter \<Rightarrow> bool" where
  "can_render io ev st f \<longleftrightarrow> list_all (renders (env_of io st) ev) (m_items f)"

definition ready :: "io_env \<Rightarrow> log_event \<Rightarrow> log_state \<Rightarrow> nat \<Rightarrow> bool" where
  "ready io ev st a \<longleftrightarrow>
     (\<exists>ap f. st_appenders st a = Some ap \<and> a_formatter ap = Some f \<and>
        can_render io ev st f \<and> kind_healthy io (a_kind ap))"

lemma env_of_frame: "log_frame st st' \<Longrightarrow> env_of io st' = env_of io st"
  by (simp add: env_of_def log_frame_def)

lemma log_frame_appender:
  assumes "log_frame st st'" and "st_appenders st a = Some ap"
  obtains ap' where "st_appenders st' a = Some ap'" "a_level ap' = a_level ap"
    "a_formatter ap' = a_formatter ap" "a_has_formatter ap' = a_has_formatter ap"
    "kind_sink (a_kind ap') = kind_sink (a_kind ap)"
proof -
  from assms have "map_option appender_sig (st_appenders st' a) = Some (appender_sig ap)"
    by (simp add: log_frame_def)
  with that show thesis by (auto simp: appender_sig_def)
qed

lemma log_frame_no_appender: "log_frame st st' \<Longrightarrow> st_appenders st' a = None \<longleftrightarrow> st_appenders st a = None"
  unfolding log_frame_def by (metis option.map_disc_iff)

lemma share_frame: "log_frame st st' \<Longrightarrow> share io st' ev k a = share io st ev k a"
proof (cases "st_appenders st a")
  case None
  assume "log_frame st st'"
  with None have "st_appenders st' a = None" by (simp add: log_frame_no_appender)
  with None show ?thesis by (simp add: share_def)
next
  case (Some ap)
  assume fr: "log_frame st st'"
  from log_frame_appender [OF fr Some] obtain ap' where
    "st_appenders st' a = Some ap'" "a_level ap' = a_level ap"
    "a_formatter ap' = a_formatter ap" "kind_sink (a_kind ap') = kind_sink (a_kind ap)" .
  with Some env_of_frame [OF fr, of io] show ?thesis
    by (cases "a_formatter ap") (simp_all add: share_def rendered_def)
qed

subsection \<open>The interface\<close>

locale log_sink =
  fixes log :: "io_env \<Rightarrow> nat \<Rightarrow> log_event \<Rightarrow> log_state \<Rightarrow> log_state res"
    and serves :: "log_appender \<Rightarrow> bool"
  assumes below_level: "st_appenders st a = Some ap \<Longrightarrow> serves ap \<Longrightarrow> ev_level ev < a_level ap \<Longrightarrow>
      log io a ev st = Inr st"
    and frame: "st_appenders st a = Some ap \<Longrightarrow> serves ap \<Longrightarrow> log io a ev st = Inr st' \<Longrightarrow> log_frame st st'"
    and delivers: "st_appenders st a = Some ap \<Longrightarrow> serves ap \<Longrightarrow> ready io ev st a \<Longrightarrow>
      \<exists>st'. log io a ev st = Inr st' \<and>
        (\<forall>k. sink_text st' k = sink_text st k @ share io st ev k a) \<and>
        (\<forall>b. ready io ev st b \<longrightarrow> ready io ev st' b)"

text \<open>A sink that serves every appender can be driven over a list of appenders.\<close>

locale any_sink = log_sink log "\<lambda>ap. True" for log
begin

lemma fold_frame:
  assumes "\<forall>a \<in> set as. st_appenders st a \<noteq> None" and "fold_res (\<lambda>a. log io a ev) as st = Inr st'"
  shows "log_frame st st'"
  using assms
proof (induction as arbitrary: st)
  case (Cons a as)
  then obtain st1 where st1: "log io a ev st = Inr st1" "fold_res (\<lambda>a. log io a ev) as st1 = Inr st'"
    by (auto simp: bind_res_Inr_conv)
  from Cons.prems have fr: "log_frame st st1" using frame st1(1) by auto
  with Cons.prems have "\<forall>a \<in> set as. st_appenders st1 a \<noteq> None"
    by (auto simp: log_frame_no_appender)
  with Cons.IH st1(2) fr show ?case by (blast intro: log_frame_trans)
qed simp

lemma fold_delivers:
  assumes "\<forall>a \<in> set as. ready io ev st a"
  shows "\<exists>st'. fold_res (\<lambda>a. log io a ev) as st = Inr st' \<and> log_frame st st' \<and>
    (\<forall>k. sink_text st' k = sink_text st k @ concat (map (share io st ev k) as))"
  using assms
proof (induction as arbitrary: st)
  case (Cons a as)
  then obtain ap where ap: "st_appenders st a = Some ap" by (auto simp: ready_def)
  with Cons.prems obtain st1 where st1: "log io a ev st = Inr st1"
    "\<And>k. sink_text st1 k = sink_text st k @ share io st ev k a"
    "\<And>b. ready io ev st b \<Longrightarrow> ready io ev st1 b"
    using delivers [of st a ap io ev] by auto
  have fr: "log_frame st st1" using frame [OF ap _ st1(1)] by simp
  from Cons.prems st1(3) Cons.IH [of st1] obtain st' where st':
    "fold_res (\<lambda>a. log io a ev) as st1 = Inr st'" "log_frame st1 st'"
    "\<And>k. sink_text st' k = sink_text st1 k @ concat (map (share io st1 ev k) as)"
    by auto
  have "share io st1 ev = share io st ev" by (intro ext) (rule share_frame [OF fr])
  with st1 st' fr show ?case by (auto intro: log_frame_trans)
qed auto

lemma fold_below:
  assumes "\<forall>a \<in> set as. \<exists>ap. st_appenders st a = Some ap \<and> ev_level ev < a_level ap"
  shows "fold_res (\<lambda>a. log io a ev) as st = Inr st"
  using assms
proof (induction as)
  case (Cons a as)
  then have "log io a ev st = Inr st" using below_level [of st a _ ev io] by auto
  with Cons show ?case by simp
qed simp

end

subsection \<open>The appenders implement it\<close>

lemma ready_frame:
  assumes "log_frame st st'" and "ready io ev st b"
    and "\<And>ap ap'. st_appenders st b = Some ap \<Longrightarrow> st_appenders st' b = Some ap' \<Longrightarrow>
           kind_healthy io (a_kind ap) \<Longrightarrow> kind_healthy io (a_kind ap')"
  shows "ready io ev st' b"
proof -
  from assms(2) obtain ap f where ap: "st_appenders st b = Some ap" "a_formatter ap = Some f"
    "can_render io ev st f" "kind_healthy io (a_kind ap)" by (auto simp: ready_def)
  from log_frame_appender [OF assms(1) ap(1)] obtain ap' where
    "st_appenders st' b = Some ap'" "a_formatter ap' = a_formatter ap" .
  with ap assms(3) env_of_frame [OF assms(1), of io] show ?thesis
    by (auto simp: ready_def can_render_def)
qed

lemma put_stdout_frame: "log_frame st (put_stdout t st)"
  by (simp add: log_frame_def store_simps)

lemma upd_kind_frame:
  assumes "st_appenders st a = Some ap" and "kind_sink k = kind_sink (a_kind ap)"
  shows "log_frame st (upd_appender a (\<lambda>ap. ap\<lparr>a_kind := k\<rparr>) st)"
  using assms by (simp add: log_frame_def store_simps appender_sig_def)

lemma append_file_frame: "log_frame st (append_file f t st)"
  by (simp add: log_frame_def store_simps)

lemma touch_file_frame: "log_frame st (touch_file f st)"
  by (simp add: log_frame_def store_simps)

lemmas frame_steps = put_stdout_frame append_file_frame touch_file_frame

lemma stdout_delivers:
  assumes ap: "st_appenders st a = Some ap" and kind: "a_kind ap = StdoutLogAppender"
    and rdy: "ready io ev st a"
  shows "\<exists>st'. StdoutLogAppender_log io a ev st = Inr st' \<and>
    (\<forall>k. sink_text st' k = sink_text st k @ share io st ev k a) \<and>
    (\<forall>b. ready io ev st b \<longrightarrow> ready io ev st' b)"
proof -
  from rdy ap obtain f where f: "a_formatter ap = Some f" "can_render io ev st f"
    by (auto simp: ready_def)
  have sinks: "sink_text (put_stdout (rendered io st ev ap) st) k = sink_text st k @ share io st ev k a" for k
    using ap kind by (cases k) (simp_all add: store_simps share_def)
  have rdys: "ready io ev st b \<Longrightarrow> ready io ev (put_stdout t st) b" for b t
    by (rule ready_frame [OF put_stdout_frame]) (auto simp: store_simps)
  show ?thesis
  proof (cases "a_level ap \<le> ev_level ev")
    case True
    with f have "StdoutLogAppender_log io a ev st = Inr (put_stdout (rendered io st ev ap) st)"
      by (simp add: StdoutLogAppender_log_def ap format_renders can_render_def rendered_def)
    with sinks rdys show ?thesis by blast
  next
    case False
    with ap kind show ?thesis
      by (auto simp: StdoutLogAppender_log_def share_def rendered_def)
  qed
qed

interpretation stdout_sink: log_sink StdoutLogAppender_log "\<lambda>ap. a_kind ap = StdoutLogAppender"
proof unfold_locales
  fix st st' :: log_state and a ap ev io
  assume ap: "st_appenders st a = Some ap"
  show "ev_level ev < a_level ap \<Longrightarrow> StdoutLogAppender_log io a ev st = Inr st"
    using ap by (auto simp: StdoutLogAppender_log_def)
  show "StdoutLogAppender_log io a ev st = Inr st' \<Longrightarrow> log_frame st st'"
    using ap by (auto simp: StdoutLogAppender_log_def bind_res_Inr_conv put_stdout_frame
        split: if_splits option.splits)
qed (rule stdout_delivers)

lemma reopen_frame: "log_frame st (fst (FileLogAppender_reopen io a st))"
proof -
  have "log_frame st (touch_file f (upd_appender a (\<lambda>ap. ap\<lparr>a_kind := k\<rparr>) st))"
    if "st_appenders st a = Some ap" "kind_sink k = kind_sink (a_kind ap)" for f k ap
    using upd_kind_frame [OF that] touch_file_frame by (rule log_frame_trans)
  then show ?thesis
    by (auto simp: FileLogAppender_reopen_def Let_def upd_kind_frame split: option.splits appender_kind.splits)
qed

lemma set_lastTime_frame: "log_frame st (set_lastTime a now st)"
  by (cases "st_appenders st a")
    (auto simp: log_frame_def set_lastTime_def store_simps appender_sig_def split: appender_kind.splits)

lemma stream_write_frame: "log_frame st (stream_write io a text st)"
  by (auto simp: stream_write_def append_file_frame upd_kind_frame split: option.splits appender_kind.splits)

lemma file_log_frame:
  assumes "FileLogAppender_log io a ev st = Inr st'"
  shows "log_frame st st'"
proof -
  define st1 where "st1 = set_lastTime a (io_now io) (fst (FileLogAppender_reopen io a st))"
  have "log_frame st st1"
    unfolding st1_def using reopen_frame set_lastTime_frame by (rule log_frame_trans)
  with assms show ?thesis
    by (auto simp: FileLogAppender_log_def Let_def bind_res_Inr_conv st1_def [symmetric]
        split: if_splits option.splits intro: log_frame_trans stream_write_frame)
qed

text \<open>Reopening a healthy file stream keeps it healthy and leaves every sink as it is.\<close>

lemma reopen_healthy:
  assumes "st_appenders st a = Some ap" and "a_kind ap = FileLogAppender f s t"
    and "kind_healthy io (a_kind ap)"
  shows "FileLogAppender_reopen io a st =
    (touch_file f (upd_appender a (\<lambda>ap. ap\<lparr>a_kind := FileLogAppender f \<lparr>fs_open = True, fs_good = True\<rparr> t\<rparr>) st), True)"
  using assms by (simp add: FileLogAppender_reopen_def fs_close_def fs_open_app_def Let_def)

lemma sink_text_steps [store_simps]:
  "sink_text (upd_appender a g st) k = sink_text st k"
  "sink_text (touch_file f st) k = sink_text st k"
  "sink_text (append_file f t st) k = (if k = File f then sink_text st k @ t else sink_text st k)"
  by (cases k; auto simp: store_simps touch_file_def append_file_def split: option.splits)+

text \<open>The state in which the event is written: reopened first when the second has changed.\<close>

definition before_write :: "io_env \<Rightarrow> nat \<Rightarrow> log_appender \<Rightarrow> log_state \<Rightarrow> log_state" where
  "before_write io a ap st =
     (if io_now io \<noteq> m_lastTime (a_kind ap)
      then set_lastTime a (io_now io) (fst (FileLogAppender_reopen io a st)) else st)"

lemma before_write_frame: "log_frame st (before_write io a ap st)"
  using log_frame_trans [OF reopen_frame set_lastTime_frame] by (simp add: before_write_def)

lemma before_write_healthy:
  assumes ap: "st_appenders st a = Some ap" and kind: "a_kind ap = FileLogAppender f s t"
    and ok: "kind_healthy io (a_kind ap)"
  shows "sink_text (before_write io a ap st) k = sink_text st k"
    and "st_appenders (before_write io a ap st) b =
      (if b = a then Some (ap\<lparr>a_kind := FileLogAppender f \<lparr>fs_open = True, fs_good = True\<rparr> (io_now io)\<rparr>)
       else st_appenders st b)"
proof -
  have "s = \<lparr>fs_open = True, fs_good = True\<rparr>" using ok kind by (cases s) simp
  then show "st_appenders (before_write io a ap st) b =
      (if b = a then Some (ap\<lparr>a_kind := FileLogAppender f \<lparr>fs_open = True, fs_good = True\<rparr> (io_now io)\<rparr>)
       else st_appenders st b)"
    using ap kind reopen_healthy [OF assms]
    by (cases ap) (auto simp: before_write_def set_lastTime_def store_simps)
  show "sink_text (before_write io a ap st) k = sink_text st k"
    using reopen_healthy [OF assms] by (simp add: before_write_def set_lastTime_def store_simps)
qed

lemma FileLogAppender_log_eq:
  assumes "st_appenders st a = Some ap" and "a_level ap \<le> ev_level ev" and "a_formatter ap = Some f"
    and "can_render io ev st f"
  shows "FileLogAppender_log io a ev st =
    Inr (stream_write io a (rendered io st ev ap) (before_write io a ap st))"
proof -
  have env: "env_of io (before_write io a ap st) = env_of io st"
    by (rule env_of_frame [OF before_write_frame])
  then have "LogFormatter_format (env_of io (before_write io a ap st)) f ev = Inr (rendered io st ev ap)"
    using assms by (simp add: format_renders can_render_def rendered_def)
  then show ?thesis
    using assms by (simp add: FileLogAppender_log_def Let_def before_write_def)
qed

lemma file_delivers:
  assumes ap: "st_appenders st a = Some ap" and kind: "a_kind ap \<noteq> StdoutLogAppender"
    and rdy: "ready io ev st a"
  shows "\<exists>st'. FileLogAppender_log io a ev st = Inr st' \<and>
    (\<forall>k. sink_text st' k = sink_text st k @ share io st ev k a) \<and>
    (\<forall>b. ready io ev st b \<longrightarrow> ready io ev st' b)"
proof (cases "a_level ap \<le> ev_level ev")
  case False
  with ap show ?thesis by (auto simp: FileLogAppender_log_def share_def rendered_def)
next
  case True
  from rdy ap obtain f where f: "a_formatter ap = Some f" "can_render io ev st f"
    and ok: "kind_healthy io (a_kind ap)" by (auto simp: ready_def)
  from kind obtain name s t where k: "a_kind ap = FileLogAppender name s t" by (cases "a_kind ap") auto
  let ?st1 = "before_write io a ap st" and ?st' = "append_file name (rendered io st ev ap) (before_write io a ap st)"
  note bw = before_write_healthy [OF ap k ok]
  have "FileLogAppender_log io a ev st = Inr ?st'"
    using ok k by (simp add: FileLogAppender_log_eq [OF ap True f] stream_write_def bw(2))
  moreover have "sink_text ?st' j = sink_text st j @ share io st ev j a" for j
    using ap k by (simp add: store_simps bw(1) share_def del: sink_text.simps)
  moreover have "ready io ev ?st' b" if "ready io ev st b" for b
    using log_frame_trans [OF before_write_frame append_file_frame] that
  proof (rule ready_frame)
    fix ap1 ap2 assume "st_appenders st b = Some ap1" "st_appenders ?st' b = Some ap2"
      "kind_healthy io (a_kind ap1)"
    then show "kind_healthy io (a_kind ap2)"
      using ok k ap by (auto simp: store_simps bw(2) split: if_splits)
  qed
  ultimately show ?thesis by blast
qed

interpretation file_sink: log_sink FileLogAppender_log "\<lambda>ap. a_kind ap \<noteq> StdoutLogAppender"
proof unfold_locales
  fix st st' :: log_state and a ap ev io
  assume ap: "st_appenders st a = Some ap"
  show "ev_level ev < a_level ap \<Longrightarrow> FileLogAppender_log io a ev st = Inr st"
    using ap by (auto simp: FileLogAppender_log_def)
  show "FileLogAppender_log io a ev st = Inr st' \<Longrightarrow> log_frame st st'"
    by (rule file_log_frame)
qed (rule file_delivers)

lemma LogAppender_log_eq:
  assumes "st_appenders st a = Some ap"
  shows "LogAppender_log io a ev st =
    (if a_kind ap = StdoutLogAppender then StdoutLogAppender_log io a ev st
     else FileLogAppender_log io a ev st)"
  using assms by (simp add: LogAppender_log_def split: appender_kind.splits)

interpretation sinks: any_sink LogAppender_log
proof unfold_locales
  fix st st' :: log_state and a ap ev io
  assume ap: "st_appenders st a = Some ap"
  show "ev_level ev < a_level ap \<Longrightarrow> LogAppender_log io a ev st = Inr st"
    using ap by (simp add: LogAppender_log_eq stdout_sink.below_level file_sink.below_level)
  show "LogAppender_log io a ev st = Inr st' \<Longrightarrow> log_frame st st'"
    using stdout_sink.frame [OF ap] file_sink.frame [OF ap]
    by (cases "a_kind ap = StdoutLogAppender") (simp_all add: LogAppender_log_eq [OF ap])
  show "ready io ev st a \<Longrightarrow> \<exists>st'. LogAppender_log io a ev st = Inr st' \<and>
      (\<forall>k. sink_text st' k = sink_text st k @ share io st ev k a) \<and>
      (\<forall>b. ready io ev st b \<longrightarrow> ready io ev st' b)"
    using stdout_delivers [OF ap] file_delivers [OF ap]
    by (cases "a_kind ap = StdoutLogAppender") (simp_all add: LogAppender_log_eq [OF ap])
qed

subsection \<open>A stream that failed once\<close>

text \<open>A stream on which a write has failed still has its file, and \<open>reopen\<close> closes only good streams.\<close>

definition broken :: "log_state \<Rightarrow> nat \<Rightarrow> bool" where
  "broken st a \<longleftrightarrow> (\<exists>ap f s t. st_appenders st a = Some ap \<and> a_kind ap = FileLogAppender f s t \<and>
     fs_open s \<and> \<not> fs_good s)"

lemma broken_before_write:
  assumes "broken st a" and "st_appenders st a = Some ap"
  shows "broken (before_write io a ap st) a" and "st_files (before_write io a ap st) = st_files st"
  using assms
  by (auto simp: broken_def before_write_def FileLogAppender_reopen_def fs_open_app_def Let_def
      set_lastTime_def store_simps)

lemma broken_write: "broken st a \<Longrightarrow> stream_write io a text st = st"
  by (auto simp: broken_def stream_write_def)

lemma broken_log:
  assumes "broken st a" and "FileLogAppender_log io a ev st = Inr st'"
  shows "broken st' a \<and> st_files st' = st_files st"
proof -
  from assms(1) obtain ap where ap: "st_appenders st a = Some ap" by (auto simp: broken_def)
  note b = broken_before_write [OF assms(1) ap, of io]
  show ?thesis
    using assms b ap
    by (auto simp: FileLogAppender_log_def Let_def before_write_def [symmetric] bind_res_Inr_conv
        broken_write split: if_splits option.splits)
qed

lemma write_failure_breaks:
  assumes "st_appenders st a = Some ap" and "a_kind ap = FileLogAppender f s t"
    and "fs_open s" "fs_good s" and "\<not> io_can_write io f"
  shows "broken (stream_write io a text st) a"
  using assms by (simp add: stream_write_def broken_def store_simps)

end
