(* ===== verification/Logger.thy ===== *)
theory Logger
  imports Log_Sink
begin

text \<open>
  \<open>Logger\<close>, \<open>LogEventWrap\<close>, the logging macros and \<open>LoggerManager\<close> of \<^verbatim>\<open>sylar/log.h\<close> and
  \<^verbatim>\<open>sylar/log.cc\<close>. \<open>Logger::log\<close> falls back to the root logger through \<open>m_root\<close>; that call is
  recursion with fuel here, and fuel 2 is shown to be enough in every well-formed state,
  because the manager gives the root logger no \<open>m_root\<close> and every other logger the root's.
\<close>

subsection \<open>Operations of loggers\<close>

definition Logger_default_pattern :: string where
  "Logger_default_pattern = ''%d{%Y-%m-%d %H:%M:%S}%T%t%T%N%T%F%T[%p]%T[%c]%T%f:%l%T%m%n''"

definition Logger_new :: "string \<Rightarrow> log_state \<Rightarrow> nat \<times> log_state" where
  "Logger_new name st =
     (st_next st,
      st\<lparr>st_loggers := (st_loggers st)(st_next st \<mapsto>
            \<lparr>l_name = name, l_level = DEBUG, l_appenders = [],
             l_formatter = Some (LogFormatter_new Logger_default_pattern), l_root = None\<rparr>),
         st_next := Suc (st_next st)\<rparr>)"

definition Logger_addAppender :: "nat \<Rightarrow> nat \<Rightarrow> log_state \<Rightarrow> log_state res" where
  "Logger_addAppender lg a st =
     (case (st_loggers st lg, st_appenders st a) of
        (Some l, Some ap) \<Rightarrow>
          (let st1 = (if a_formatter ap = None
                      then LogAppender_setFormatter a (l_formatter l) st else st)
           in Inr (upd_logger lg (\<lambda>l. l\<lparr>l_appenders := l_appenders l @ [a]\<rparr>) st1))
      | _ \<Rightarrow> Inl NullDeref)"

text \<open>The loop of \<open>delAppender\<close>: the first element equal to the pointer is erased.\<close>

fun erase_first :: "nat \<Rightarrow> nat list \<Rightarrow> nat list" where
  "erase_first a [] = []"
| "erase_first a (x # xs) = (if x = a then xs else x # erase_first a xs)"

definition Logger_delAppender :: "nat \<Rightarrow> nat \<Rightarrow> log_state \<Rightarrow> log_state" where
  "Logger_delAppender lg a = upd_logger lg (\<lambda>l. l\<lparr>l_appenders := erase_first a (l_appenders l)\<rparr>)"

definition Logger_clearAppenders :: "nat \<Rightarrow> log_state \<Rightarrow> log_state" where
  "Logger_clearAppenders lg = upd_logger lg (\<lambda>l. l\<lparr>l_appenders := []\<rparr>)"

definition Logger_setLevel :: "nat \<Rightarrow> log_level \<Rightarrow> log_state \<Rightarrow> log_state" where
  "Logger_setLevel lg level = upd_logger lg (\<lambda>l. l\<lparr>l_level := level\<rparr>)"

text \<open>The loop of \<open>setFormatter\<close> over the appenders that have no formatter of their own.\<close>

fun push_formatter :: "log_formatter option \<Rightarrow> nat list \<Rightarrow> log_state \<Rightarrow> log_state" where
  "push_formatter val [] st = st"
| "push_formatter val (a # as) st =
     push_formatter val as
       (case st_appenders st a of
          Some ap \<Rightarrow> if a_has_formatter ap then st else LogAppender_setFormatter a val st
        | None \<Rightarrow> st)"

definition Logger_setFormatter :: "nat \<Rightarrow> log_formatter option \<Rightarrow> log_state \<Rightarrow> log_state res" where
  "Logger_setFormatter lg val st =
     (case (st_loggers st lg, val) of
        (Some l, Some f) \<Rightarrow>
          if m_error f then Inr st
          else Inr (push_formatter val (l_appenders l)
                 (upd_logger lg (\<lambda>l. l\<lparr>l_formatter := val\<rparr>) st))
      | _ \<Rightarrow> Inl NullDeref)"

definition Logger_setFormatter_str :: "nat \<Rightarrow> string \<Rightarrow> log_state \<Rightarrow> log_state res" where
  "Logger_setFormatter_str lg val st =
     (let new_val = LogFormatter_new val
      in if m_error new_val then
           (case st_loggers st lg of
              None \<Rightarrow> Inl NullDeref
            | Some l \<Rightarrow>
                Inr (put_stdout (''Logger::setFormatter name='' @ l_name l @ '' value='' @ val @
                                 '' invalid formatter'' @ [CHR 0x0A]) st))
         else Logger_setFormatter lg (Some new_val) st)"

fun Logger_log :: "nat \<Rightarrow> io_env \<Rightarrow> nat \<Rightarrow> log_event \<Rightarrow> log_state \<Rightarrow> log_state res option" where
  "Logger_log 0 io lg ev st = None"
| "Logger_log (Suc fuel) io lg ev st =
     (case st_loggers st lg of
        None \<Rightarrow> Some (Inl NullDeref)
      | Some l \<Rightarrow>
          if l_level l \<le> ev_level ev then
            if l_appenders l \<noteq> [] then
              Some (fold_res (\<lambda>a. LogAppender_log io a ev) (l_appenders l) st)
            else (case l_root l of
                    Some r \<Rightarrow> Logger_log fuel io r ev st
                  | None \<Rightarrow> Some (Inr st))
          else Some (Inr st))"

text \<open>The destructor \<open>~LogEventWrap\<close> is implicitly \<open>noexcept\<close>: an exception leaving it calls
  \<open>std::terminate\<close>.\<close>

definition LogEventWrap_dtor :: "nat \<Rightarrow> io_env \<Rightarrow> log_event \<Rightarrow> log_state \<Rightarrow> log_state res option" where
  "LogEventWrap_dtor fuel io ev st =
     (case Logger_log fuel io (ev_logger ev) ev st of
        None \<Rightarrow> None
      | Some (Inr st') \<Rightarrow> Some (Inr st')
      | Some (Inl (StdException _)) \<Rightarrow> Some (Inl Terminate)
      | Some (Inl OtherException) \<Rightarrow> Some (Inl Terminate)
      | Some (Inl e) \<Rightarrow> Some (Inl e))"

text \<open>Where a logging statement stands: \<open>__FILE__\<close>, \<open>__LINE__\<close>, and the thread and fiber it runs in.\<close>

record log_site =
  site_file :: string
  site_line :: "32 word"
  site_thread :: "32 word"
  site_fiber :: "32 word"
  site_threadName :: string

text \<open>\<open>SYLAR_LOG_LEVEL(logger, level) << text\<close>\<close>

definition SYLAR_LOG_LEVEL :: "nat \<Rightarrow> io_env \<Rightarrow> log_site \<Rightarrow> nat \<Rightarrow> log_level \<Rightarrow> string \<Rightarrow>
    log_state \<Rightarrow> log_state res option" where
  "SYLAR_LOG_LEVEL fuel io site lg level text st =
     (case st_loggers st lg of
        None \<Rightarrow> Some (Inl NullDeref)
      | Some l \<Rightarrow>
          if l_level l \<le> level then
            LogEventWrap_dtor fuel io
              (LogEvent_put text
                (LogEvent_new lg level (site_file site) (site_line site) 0 (site_thread site)
                   (site_fiber site) (io_now io) (site_threadName site))) st
          else Some (Inr st))"

text \<open>\<open>SYLAR_LOG_FMT_LEVEL(logger, level, fmt, ...)\<close>; the argument is what \<open>vasprintf\<close> produced.\<close>

definition SYLAR_LOG_FMT_LEVEL :: "nat \<Rightarrow> io_env \<Rightarrow> log_site \<Rightarrow> nat \<Rightarrow> log_level \<Rightarrow> string option \<Rightarrow>
    log_state \<Rightarrow> log_state res option" where
  "SYLAR_LOG_FMT_LEVEL fuel io site lg level printed st =
     (case st_loggers st lg of
        None \<Rightarrow> Some (Inl NullDeref)
      | Some l \<Rightarrow>
          if l_level l \<le> level then
            LogEventWrap_dtor fuel io
              (LogEvent_format printed
                (LogEvent_new lg level (site_file site) (site_line site) 0 (site_thread site)
                   (site_fiber site) (io_now io) (site_threadName site))) st
          else Some (Inr st))"

subsection \<open>The manager\<close>

definition root_stdout_pattern :: string where
  "root_stdout_pattern = ''%d{%Y-%m-%d %H:%M:%S}%T%t%T%F%T[%P]%T[%c](dft)%T%f{}:%l%T%m%n''"

definition root_file_pattern :: string where
  "root_file_pattern = ''%d{%Y-%m-%d %H:%M:%S}%T%t%T%F%T[%p]%T[%c](dft)%T%f{}:%l%T%m%n''"

text \<open>The state before anything is constructed; the console and the files are given.\<close>

definition no_loggers :: "string \<Rightarrow> (string \<Rightarrow> string option) \<Rightarrow> log_state" where
  "no_loggers out files =
     \<lparr>st_appenders = (\<lambda>_. None), st_loggers = (\<lambda>_. None), st_next = 0, st_stdout = out,
      st_files = files, mgr_loggers = [], mgr_root = 0\<rparr>"

definition LoggerManager_new :: "io_env \<Rightarrow> log_state \<Rightarrow> log_state res" where
  "LoggerManager_new io st =
     (let (root, st1) = Logger_new ''root'' st;
          (app, st2) = StdoutLogAppender_new st1;
          st3 = LogAppender_setFormatter app (Some (LogFormatter_new root_stdout_pattern)) st2
      in bind_res (Logger_addAppender root app st3) (\<lambda>st4.
          let (file_app, st5) = FileLogAppender_new io ''root.log'' st4;
              st6 = LogAppender_setFormatter file_app (Some (LogFormatter_new root_file_pattern)) st5
          in bind_res (Logger_addAppender root file_app st6) (\<lambda>st7.
               Inr (st7\<lparr>mgr_root := root, mgr_loggers := smap_set ''root'' root (mgr_loggers st7)\<rparr>))))"

definition LoggerManager_getLogger :: "string \<Rightarrow> log_state \<Rightarrow> nat \<times> log_state" where
  "LoggerManager_getLogger name st =
     (case smap_find (mgr_loggers st) name of
        Some lg \<Rightarrow> (lg, st)
      | None \<Rightarrow>
          (let (lg, st1) = Logger_new name st;
               st2 = upd_logger lg (\<lambda>l. l\<lparr>l_root := Some (mgr_root st1)\<rparr>) st1
           in (lg, st2\<lparr>mgr_loggers := smap_set name lg (mgr_loggers st2)\<rparr>)))"

end
