(* ===== verification/Logger_Wf.thy ===== *)
theory Logger_Wf
  imports Logger
begin

text \<open>
  The well-formedness invariant of the logging state and that every operation keeps it:
  addresses are below the allocation pointer, an appender with a formatter is marked as having one
  (\<open>m_has_formatter\<close>), every appender attached to a logger is marked so, every logger's \<open>m_root\<close> is
  null or the manager's root, and the manager's map sends each name to a logger of that name.
  \<open>LogAppender::setFormatter\<close> sets \<open>m_has_formatter\<close> for any pointer, the null one included: the
  parameter \<open>nulls\<close> says whether the program passes null to it, and only when it does not is the
  mark a promise that there is a formatter.
\<close>

subsection \<open>The invariant\<close>

definition attached :: "log_state \<Rightarrow> nat \<Rightarrow> bool" where
  "attached st a \<longleftrightarrow> (\<exists>ap. st_appenders st a = Some ap \<and> a_has_formatter ap)"

definition appender_ok :: "bool \<Rightarrow> log_appender \<Rightarrow> bool" where
  "appender_ok nulls ap \<longleftrightarrow>
     (a_formatter ap \<noteq> None \<longrightarrow> a_has_formatter ap) \<and>
     (a_has_formatter ap \<longrightarrow> a_formatter ap \<noteq> None \<or> nulls)"

definition wf_appenders :: "bool \<Rightarrow> log_state \<Rightarrow> bool" where
  "wf_appenders nulls st \<longleftrightarrow>
     (\<forall>a ap. st_appenders st a = Some ap \<longrightarrow>
        a < st_next st \<and> appender_ok nulls ap)"

definition wf_loggers :: "log_state \<Rightarrow> bool" where
  "wf_loggers st \<longleftrightarrow>
     (\<forall>lg l. st_loggers st lg = Some l \<longrightarrow>
        lg < st_next st \<and> l_formatter l \<noteq> None \<and>
        (l_root l = None \<or> l_root l = Some (mgr_root st)) \<and>
        (\<forall>a \<in> set (l_appenders l). attached st a))"

definition mgr_entry :: "log_state \<Rightarrow> string \<Rightarrow> nat \<Rightarrow> bool" where
  "mgr_entry st name lg \<longleftrightarrow>
     (\<exists>l. st_loggers st lg = Some l \<and> l_name l = name \<and>
        l_root l = (if name = ''root'' then None else Some (mgr_root st)))"

definition wf_mgr :: "log_state \<Rightarrow> bool" where
  "wf_mgr st \<longleftrightarrow>
     smap_inv (mgr_loggers st) \<and>
     smap_find (mgr_loggers st) ''root'' = Some (mgr_root st) \<and>
     (\<forall>name lg. smap_find (mgr_loggers st) name = Some lg \<longrightarrow> mgr_entry st name lg)"

definition wf_objects :: "bool \<Rightarrow> log_state \<Rightarrow> bool" where
  "wf_objects nulls st \<longleftrightarrow> wf_appenders nulls st \<and> wf_loggers st"

definition wf_state :: "bool \<Rightarrow> log_state \<Rightarrow> bool" where
  "wf_state nulls st \<longleftrightarrow> wf_objects nulls st \<and> wf_mgr st"

lemmas wf_defs = wf_state_def wf_objects_def wf_appenders_def wf_loggers_def wf_mgr_def

lemma wf_state_objects: "wf_state nulls st \<Longrightarrow> wf_objects nulls st"
  by (simp add: wf_state_def)

lemma wf_logger:
  assumes "wf_objects nulls st" and "st_loggers st lg = Some l"
  shows "lg < st_next st" "l_formatter l \<noteq> None" "l_root l = None \<or> l_root l = Some (mgr_root st)"
    "\<forall>a \<in> set (l_appenders l). attached st a"
  using assms by (auto simp: wf_objects_def wf_loggers_def)

lemma wf_appender:
  assumes "wf_objects nulls st" and "st_appenders st a = Some ap"
  shows "a < st_next st" "appender_ok nulls ap"
  using assms by (auto simp: wf_objects_def wf_appenders_def)

lemma wf_root:
  assumes "wf_state nulls st"
  obtains l where "st_loggers st (mgr_root st) = Some l" "l_root l = None" "l_name l = ''root''"
proof -
  from assms have "mgr_entry st ''root'' (mgr_root st)" by (simp add: wf_state_def wf_mgr_def)
  with that show thesis by (auto simp: mgr_entry_def)
qed

subsection \<open>Changes that keep it\<close>

text \<open>Logging, and every change that only touches streams and sinks.\<close>

lemma attached_frame: "log_frame st st' \<Longrightarrow> attached st a \<Longrightarrow> attached st' a"
  by (auto simp: attached_def elim!: log_frame_appender)

lemma log_frame_sym: "log_frame st st' \<Longrightarrow> log_frame st' st"
  by (simp add: log_frame_def)

lemma wf_objects_frame [wf_intros]:
  assumes "wf_objects nulls st" and fr: "log_frame st st'"
  shows "wf_objects nulls st'"
proof -
  have same: "st_loggers st' = st_loggers st" "st_next st' = st_next st" "mgr_root st' = mgr_root st"
    using fr by (simp_all add: log_frame_def)
  have "wf_appenders nulls st'"
    unfolding wf_appenders_def
  proof (intro allI impI)
    fix a ap' assume "st_appenders st' a = Some ap'"
    from log_frame_appender [OF log_frame_sym [OF fr] this] obtain ap where
      "st_appenders st a = Some ap" "a_formatter ap = a_formatter ap'"
      "a_has_formatter ap = a_has_formatter ap'" .
    with wf_appender [OF assms(1), of a ap] same
    show "a < st_next st' \<and> appender_ok nulls ap'" by (simp add: appender_ok_def)
  qed
  moreover have "wf_loggers st'"
    using assms same attached_frame [OF fr] by (auto simp: wf_objects_def wf_loggers_def)
  ultimately show ?thesis by (simp add: wf_objects_def)
qed

lemma wf_mgr_same:
  assumes "wf_mgr st" and "mgr_loggers st' = mgr_loggers st" and "mgr_root st' = mgr_root st"
    and "\<And>lg l. st_loggers st lg = Some l \<Longrightarrow>
           \<exists>l'. st_loggers st' lg = Some l' \<and> l_name l' = l_name l \<and> l_root l' = l_root l"
  shows "wf_mgr st'"
proof -
  have "mgr_entry st' name lg" if "mgr_entry st name lg" for name lg
    using that assms(3,4) by (fastforce simp: mgr_entry_def)
  with assms(1-3) show ?thesis by (simp add: wf_mgr_def)
qed

lemma wf_state_frame [wf_intros]:
  assumes "wf_state nulls st" and "log_frame st st'"
  shows "wf_state nulls st'"
proof -
  have "wf_mgr st'" using assms wf_mgr_same [of st st'] by (auto simp: wf_state_def log_frame_def)
  with assms show ?thesis by (auto simp: wf_state_def intro: wf_objects_frame)
qed

lemma wf_upd_appender:
  assumes "wf_objects nulls st"
    and "\<And>ap. st_appenders st a = Some ap \<Longrightarrow> appender_ok nulls (g ap)"
    and "\<And>ap. st_appenders st a = Some ap \<Longrightarrow> a_has_formatter ap \<Longrightarrow> a_has_formatter (g ap)"
  shows "wf_objects nulls (upd_appender a g st)"
proof -
  have "attached (upd_appender a g st) b" if "attached st b" for b
    using that assms(3) by (auto simp: attached_def store_simps)
  with assms show ?thesis
    by (auto simp: wf_objects_def wf_appenders_def wf_loggers_def store_simps split: if_splits)
qed

lemma wf_upd_logger:
  assumes "wf_objects nulls st"
    and "\<And>l. st_loggers st lg = Some l \<Longrightarrow> l_formatter (g l) \<noteq> None \<and>
           (l_root (g l) = None \<or> l_root (g l) = Some (mgr_root st)) \<and>
           (\<forall>a \<in> set (l_appenders (g l)). attached st a)"
  shows "wf_objects nulls (upd_logger lg g st)"
proof -
  have att: "attached (upd_logger lg g st) = attached st"
    by (auto simp: attached_def store_simps)
  show ?thesis
    using assms unfolding wf_objects_def wf_appenders_def wf_loggers_def att
    by (auto simp: store_simps split: if_splits)
qed

lemma wf_state_upd_appender:
  "wf_state nulls st \<Longrightarrow> wf_objects nulls (upd_appender a g st) \<Longrightarrow> wf_state nulls (upd_appender a g st)"
  using wf_mgr_same [of st "upd_appender a g st"] by (simp add: wf_state_def store_simps)

lemma wf_state_upd_logger:
  assumes "wf_state nulls st" and "wf_objects nulls (upd_logger lg g st)"
    and "\<And>l. st_loggers st lg = Some l \<Longrightarrow> l_name (g l) = l_name l \<and> l_root (g l) = l_root l"
  shows "wf_state nulls (upd_logger lg g st)"
proof -
  have "wf_mgr (upd_logger lg g st)"
  proof (rule wf_mgr_same [of st])
    fix lg' l assume "st_loggers st lg' = Some l"
    with assms(3) show "\<exists>l'. st_loggers (upd_logger lg g st) lg' = Some l' \<and>
        l_name l' = l_name l \<and> l_root l' = l_root l"
      by (cases "lg' = lg") (simp_all add: store_simps)
  qed (use assms(1) in \<open>simp_all add: wf_state_def store_simps\<close>)
  with assms show ?thesis by (simp add: wf_state_def)
qed

subsection \<open>Operations on appenders\<close>

lemma wf_setFormatter [wf_intros]:
  "wf_state nulls st \<Longrightarrow> val \<noteq> None \<or> nulls \<Longrightarrow> wf_state nulls (LogAppender_setFormatter a val st)"
  unfolding LogAppender_setFormatter_def
  by (intro wf_state_upd_appender wf_upd_appender) (auto simp: appender_ok_def intro: wf_state_objects)

lemma wf_setLevel [wf_intros]: "wf_state nulls st \<Longrightarrow> wf_state nulls (LogAppender_setLevel a level st)"
  unfolding LogAppender_setLevel_def
  by (intro wf_state_upd_appender wf_upd_appender)
    (use wf_appender(2) [OF wf_state_objects] in \<open>auto simp: appender_ok_def intro: wf_state_objects\<close>)

lemma alloc_appender_simps [store_simps]:
  "fst (alloc_appender k st) = st_next st"
  "st_appenders (snd (alloc_appender k st)) b =
     (if b = st_next st then Some \<lparr>a_kind = k, a_level = DEBUG, a_formatter = None, a_has_formatter = False\<rparr>
      else st_appenders st b)"
  "st_loggers (snd (alloc_appender k st)) = st_loggers st"
  "st_next (snd (alloc_appender k st)) = Suc (st_next st)"
  "st_stdout (snd (alloc_appender k st)) = st_stdout st"
  "st_files (snd (alloc_appender k st)) = st_files st"
  "mgr_loggers (snd (alloc_appender k st)) = mgr_loggers st"
  "mgr_root (snd (alloc_appender k st)) = mgr_root st"
  by (simp_all add: alloc_appender_def)

lemma wf_objects_alloc_appender:
  assumes "wf_objects nulls st"
  shows "wf_objects nulls (snd (alloc_appender k st))"
proof -
  have "attached (snd (alloc_appender k st)) a" if "attached st a" for a
    using that assms wf_appender(1) [OF assms, of a] by (auto simp: attached_def store_simps)
  with assms show ?thesis
    unfolding wf_objects_def wf_appenders_def wf_loggers_def
    by (auto simp: store_simps less_SucI appender_ok_def split: if_splits)
qed

lemma wf_alloc_appender: "wf_state nulls st \<Longrightarrow> wf_state nulls (snd (alloc_appender k st))"
  using wf_mgr_same [of st "snd (alloc_appender k st)"]
  by (simp add: wf_state_def wf_objects_alloc_appender store_simps)

lemma wf_StdoutLogAppender_new [wf_intros]: "wf_state nulls st \<Longrightarrow> wf_state nulls (snd (StdoutLogAppender_new st))"
  by (simp add: StdoutLogAppender_new_def wf_alloc_appender)

text \<open>The file appender's constructor only adds streams and console text to the allocation.\<close>

lemma FileLogAppender_new_frame:
  "\<exists>k. kind_sink k = File f \<and> fst (FileLogAppender_new io f st) = fst (alloc_appender k st) \<and>
     log_frame (snd (alloc_appender k st)) (snd (FileLogAppender_new io f st))"
proof -
  let ?k = "FileLogAppender f \<lparr>fs_open = False, fs_good = True\<rparr> (io_now io)"
  let ?st1 = "snd (alloc_appender ?k st)"
  have "log_frame ?st1 (fst (FileLogAppender_reopen io (st_next st) ?st1))" by (rule reopen_frame)
  then have "log_frame ?st1 (snd (FileLogAppender_new io f st))"
    using log_frame_trans [OF _ put_stdout_frame]
    by (auto simp: FileLogAppender_new_def Let_def case_prod_beta store_simps)
  moreover have "fst (FileLogAppender_new io f st) = fst (alloc_appender ?k st)"
    by (simp add: FileLogAppender_new_def Let_def case_prod_beta)
  ultimately show ?thesis by (intro exI [of _ ?k]) simp
qed

lemma wf_FileLogAppender_new [wf_intros]:
  "wf_state nulls st \<Longrightarrow> wf_state nulls (snd (FileLogAppender_new io f st))"
  using FileLogAppender_new_frame [of f io st] by (auto intro: wf_state_frame wf_alloc_appender)

subsection \<open>Operations on loggers\<close>

lemma Logger_new_simps [store_simps]:
  "fst (Logger_new name st) = st_next st"
  "st_loggers (snd (Logger_new name st)) b =
     (if b = st_next st
      then Some \<lparr>l_name = name, l_level = DEBUG, l_appenders = [],
             l_formatter = Some (LogFormatter_new Logger_default_pattern), l_root = None\<rparr>
      else st_loggers st b)"
  "st_appenders (snd (Logger_new name st)) = st_appenders st"
  "st_next (snd (Logger_new name st)) = Suc (st_next st)"
  "st_stdout (snd (Logger_new name st)) = st_stdout st"
  "st_files (snd (Logger_new name st)) = st_files st"
  "mgr_loggers (snd (Logger_new name st)) = mgr_loggers st"
  "mgr_root (snd (Logger_new name st)) = mgr_root st"
  by (simp_all add: Logger_new_def)

lemma wf_objects_Logger_new:
  assumes "wf_objects nulls st"
  shows "wf_objects nulls (snd (Logger_new name st))"
proof -
  have "attached (snd (Logger_new name st)) = attached st" by (auto simp: attached_def store_simps)
  with assms show ?thesis
    unfolding wf_objects_def wf_appenders_def wf_loggers_def by (auto simp: store_simps less_SucI)
qed

lemma wf_Logger_new [wf_intros]:
  assumes "wf_state nulls st"
  shows "wf_state nulls (snd (Logger_new name st))"
proof -
  have "wf_mgr (snd (Logger_new name st))"
  proof (rule wf_mgr_same [of st])
    fix lg l assume "st_loggers st lg = Some l"
    with wf_logger(1) [OF wf_state_objects [OF assms]] have "lg < st_next st" by blast
    with \<open>st_loggers st lg = Some l\<close>
    show "\<exists>l'. st_loggers (snd (Logger_new name st)) lg = Some l' \<and> l_name l' = l_name l \<and> l_root l' = l_root l"
      by (simp add: store_simps)
  qed (use assms in \<open>simp_all add: wf_state_def store_simps\<close>)
  with assms show ?thesis by (simp add: wf_state_def wf_objects_Logger_new)
qed

lemma addAppender_objects:
  assumes wf: "wf_objects nulls st" and add: "Logger_addAppender lg a st = Inr st'"
  shows "wf_objects nulls st' \<and> mgr_loggers st' = mgr_loggers st \<and> mgr_root st' = mgr_root st \<and>
    (\<forall>g l. st_loggers st g = Some l \<longrightarrow>
       st_loggers st' g = Some (if g = lg then l\<lparr>l_appenders := l_appenders l @ [a]\<rparr> else l))"
proof -
  from add obtain l ap where l: "st_loggers st lg = Some l" and ap: "st_appenders st a = Some ap"
    by (auto simp: Logger_addAppender_def split: option.splits)
  define st1 where "st1 = (if a_formatter ap = None then LogAppender_setFormatter a (l_formatter l) st else st)"
  have st': "st' = upd_logger lg (\<lambda>l. l\<lparr>l_appenders := l_appenders l @ [a]\<rparr>) st1"
    using add l ap by (simp add: Logger_addAppender_def st1_def)
  have same: "st_loggers st1 = st_loggers st" "mgr_loggers st1 = mgr_loggers st" "mgr_root st1 = mgr_root st"
    by (simp_all add: st1_def LogAppender_setFormatter_def store_simps)
  have wf1: "wf_objects nulls st1"
    using wf wf_logger(2) [OF wf l] by (auto simp: st1_def LogAppender_setFormatter_def appender_ok_def intro: wf_upd_appender)
  have "attached st1 a"
    using ap wf_appender(2) [OF wf ap]
    by (auto simp: st1_def attached_def appender_ok_def LogAppender_setFormatter_def store_simps)
  with wf1 have "wf_objects nulls st'"
    unfolding st' by (intro wf_upd_logger) (auto dest: wf_logger)
  with same show ?thesis by (simp add: st' store_simps)
qed

lemma wf_addAppender [wf_intros]:
  assumes "wf_state nulls st" and "Logger_addAppender lg a st = Inr st'"
  shows "wf_state nulls st'"
proof -
  note add = addAppender_objects [OF wf_state_objects [OF assms(1)] assms(2)]
  have "wf_mgr st'"
  proof (rule wf_mgr_same [of st])
    fix g l assume "st_loggers st g = Some l"
    with add show "\<exists>l'. st_loggers st' g = Some l' \<and> l_name l' = l_name l \<and> l_root l' = l_root l"
      by auto
  qed (use assms add in \<open>simp_all add: wf_state_def\<close>)
  with add show ?thesis by (simp add: wf_state_def)
qed

lemma erase_first_subset: "set (erase_first a xs) \<subseteq> set xs"
  by (induction xs) auto

lemma wf_delAppender [wf_intros]: "wf_state nulls st \<Longrightarrow> wf_state nulls (Logger_delAppender lg a st)"
  unfolding Logger_delAppender_def
  by (intro wf_state_upd_logger wf_upd_logger)
    (auto dest: wf_state_objects wf_logger erase_first_subset [THEN subsetD])

lemma wf_clearAppenders [wf_intros]: "wf_state nulls st \<Longrightarrow> wf_state nulls (Logger_clearAppenders lg st)"
  unfolding Logger_clearAppenders_def
  by (intro wf_state_upd_logger wf_upd_logger) (auto dest: wf_state_objects wf_logger)

lemma wf_Logger_setLevel [wf_intros]: "wf_state nulls st \<Longrightarrow> wf_state nulls (Logger_setLevel lg level st)"
  unfolding Logger_setLevel_def
  by (intro wf_state_upd_logger wf_upd_logger) (auto dest: wf_state_objects wf_logger)

text \<open>An attached appender is always marked as having its own formatter, so the loop of \<open>setFormatter\<close> finds
  nothing to do.\<close>

lemma push_formatter_attached:
  assumes "wf_objects nulls st" and "\<forall>a \<in> set as. attached st a"
  shows "push_formatter val as st = st"
  using assms by (induction as) (auto simp: attached_def)

lemma setFormatter_eq:
  assumes wf: "wf_objects nulls st" and l: "st_loggers st lg = Some l"
  shows "Logger_setFormatter lg (Some f) st =
    Inr (if m_error f then st else upd_logger lg (\<lambda>l. l\<lparr>l_formatter := Some f\<rparr>) st)"
proof -
  let ?st1 = "upd_logger lg (\<lambda>l. l\<lparr>l_formatter := Some f\<rparr>) st"
  have "wf_objects nulls ?st1" using wf by (intro wf_upd_logger) (auto dest: wf_logger)
  moreover have "\<forall>a \<in> set (l_appenders l). attached ?st1 a"
    using wf_logger(4) [OF wf l] by (simp add: attached_def store_simps)
  ultimately show ?thesis using l by (simp add: Logger_setFormatter_def push_formatter_attached)
qed

lemma wf_Logger_setFormatter [wf_intros]:
  assumes "wf_state nulls st" and "Logger_setFormatter lg val st = Inr st'"
  shows "wf_state nulls st'"
proof -
  from assms(2) obtain l f where l: "st_loggers st lg = Some l" and val: "val = Some f"
    by (auto simp: Logger_setFormatter_def split: option.splits)
  have "wf_state nulls (upd_logger lg (\<lambda>l. l\<lparr>l_formatter := Some f\<rparr>) st)"
    using assms(1) by (intro wf_state_upd_logger wf_upd_logger) (auto dest: wf_state_objects wf_logger)
  with assms show ?thesis
    using setFormatter_eq [OF wf_state_objects [OF assms(1)] l] by (auto simp: val split: if_splits)
qed

lemma wf_Logger_setFormatter_str [wf_intros]:
  assumes "wf_state nulls st" and "Logger_setFormatter_str lg val st = Inr st'"
  shows "wf_state nulls st'"
  using assms wf_state_frame [OF assms(1) put_stdout_frame]
  by (auto simp: Logger_setFormatter_str_def Let_def intro: wf_Logger_setFormatter
      split: if_splits option.splits)

subsection \<open>The manager\<close>

lemma getLogger_found:
  "smap_find (mgr_loggers st) name = Some lg \<Longrightarrow> LoggerManager_getLogger name st = (lg, st)"
  by (simp add: LoggerManager_getLogger_def)

text \<open>A name not in the map gets a new logger, whose \<open>m_root\<close> is the root logger.\<close>

lemma getLogger_new:
  assumes wf: "wf_state nulls st" and new: "smap_find (mgr_loggers st) name = None"
  defines "st' \<equiv> snd (LoggerManager_getLogger name st)"
  shows "fst (LoggerManager_getLogger name st) = st_next st"
    and "st_loggers st' = (st_loggers st)(st_next st \<mapsto>
       \<lparr>l_name = name, l_level = DEBUG, l_appenders = [],
        l_formatter = Some (LogFormatter_new Logger_default_pattern), l_root = Some (mgr_root st)\<rparr>)"
    and "st_appenders st' = st_appenders st" "st_next st' = Suc (st_next st)"
      "st_stdout st' = st_stdout st" "st_files st' = st_files st" "mgr_root st' = mgr_root st"
      "mgr_loggers st' = smap_set name (st_next st) (mgr_loggers st)"
  using new
  by (auto simp: LoggerManager_getLogger_def Let_def case_prod_beta store_simps st'_def fun_eq_iff)

lemma wf_getLogger_new:
  assumes wf: "wf_state nulls st" and new: "smap_find (mgr_loggers st) name = None"
  shows "wf_state nulls (snd (LoggerManager_getLogger name st))"
proof -
  let ?st' = "snd (LoggerManager_getLogger name st)"
  note g = getLogger_new [OF wf new]
  have noroot: "name \<noteq> ''root''" using wf new by (auto simp: wf_state_def wf_mgr_def)
  have att: "attached ?st' = attached st" by (auto simp: attached_def g)
  have objs: "wf_objects nulls ?st'"
    using wf_state_objects [OF wf] unfolding wf_objects_def wf_appenders_def wf_loggers_def att
    by (auto simp: g less_SucI)
  have old: "mgr_entry ?st' n lg" if "mgr_entry st n lg" for n lg
    using that wf_logger(1) [OF wf_state_objects [OF wf]] by (fastforce simp: mgr_entry_def g)
  have "mgr_entry ?st' name (st_next st)" using noroot by (simp add: mgr_entry_def g)
  with old wf noroot have "wf_mgr ?st'"
    by (auto simp: wf_mgr_def wf_state_def g smap.find_assign smap.invar_assign)
  with objs show ?thesis by (simp add: wf_state_def)
qed

lemma wf_getLogger [wf_intros]: "wf_state nulls st \<Longrightarrow> wf_state nulls (snd (LoggerManager_getLogger name st))"
  by (cases "smap_find (mgr_loggers st) name") (simp_all add: wf_getLogger_new getLogger_found)

lemma getLogger_logger:
  assumes wf: "wf_state nulls st"
  shows "\<exists>l. st_loggers (snd (LoggerManager_getLogger name st)) (fst (LoggerManager_getLogger name st)) = Some l \<and>
    l_name l = name"
proof (cases "smap_find (mgr_loggers st) name")
  case None
  then show ?thesis by (simp add: getLogger_new [OF wf])
next
  case (Some lg)
  with wf have "mgr_entry st name lg" by (simp add: wf_state_def wf_mgr_def)
  with Some show ?thesis by (auto simp: getLogger_found mgr_entry_def)
qed

lemma getLogger_find:
  assumes wf: "wf_state nulls st"
  shows "smap_find (mgr_loggers (snd (LoggerManager_getLogger name st))) name =
    Some (fst (LoggerManager_getLogger name st))"
proof (cases "smap_find (mgr_loggers st) name")
  case None
  with wf show ?thesis
    by (simp add: getLogger_new [OF wf] wf_state_def wf_mgr_def smap.find_assign_same)
qed (simp add: getLogger_found)

text \<open>The patterns the constructors compile are accepted.\<close>

lemma builtin_patterns:
  "\<not> m_error (LogFormatter_new Logger_default_pattern)"
  "\<not> m_error (LogFormatter_new root_stdout_pattern)"
  "\<not> m_error (LogFormatter_new root_file_pattern)"
  by code_simp+

lemma wf_objects_empty: "wf_objects nulls (no_loggers out files)"
  by (simp add: wf_objects_def wf_appenders_def wf_loggers_def no_loggers_def)

lemma addAppender_with_formatter:
  assumes "st_loggers st lg = Some l" and "st_appenders st a = Some ap" and "a_formatter ap \<noteq> None"
  shows "Logger_addAppender lg a st = Inr (upd_logger lg (\<lambda>l. l\<lparr>l_appenders := l_appenders l @ [a]\<rparr>) st)"
  using assms by (auto simp: Logger_addAppender_def)

text \<open>Giving an appender a formatter and attaching it, as the constructor of the manager does.\<close>

lemma attach_new_appender:
  fixes f :: log_formatter
  assumes wf: "wf_objects nulls st" and l: "st_loggers st lg = Some l" and ap: "st_appenders st a = Some ap"
  defines "st1 \<equiv> LogAppender_setFormatter a (Some f) st"
  shows "\<exists>st'. Logger_addAppender lg a st1 = Inr st' \<and> wf_objects nulls st' \<and>
    st_loggers st' = (st_loggers st)(lg \<mapsto> l\<lparr>l_appenders := l_appenders l @ [a]\<rparr>) \<and>
    st_next st' = st_next st \<and> mgr_loggers st' = mgr_loggers st \<and> mgr_root st' = mgr_root st"
proof -
  have wf1: "wf_objects nulls st1"
    unfolding st1_def LogAppender_setFormatter_def by (rule wf_upd_appender [OF wf]) (auto simp: appender_ok_def)
  have "Logger_addAppender lg a st1 = Inr (upd_logger lg (\<lambda>l. l\<lparr>l_appenders := l_appenders l @ [a]\<rparr>) st1)"
    using l ap by (intro addAppender_with_formatter [where l = l])
      (auto simp: st1_def LogAppender_setFormatter_def store_simps)
  with addAppender_objects [OF wf1 this] l show ?thesis
    by (auto simp: st1_def LogAppender_setFormatter_def store_simps fun_eq_iff)
qed

text \<open>The constructor up to the console appender, and from there on.\<close>

lemma manager_console:
  obtains st1 st2 st4 l where "Logger_new ''root'' (no_loggers out files) = (0, st1)"
    "StdoutLogAppender_new st1 = (1, st2)"
    "Logger_addAppender 0 1 (LogAppender_setFormatter 1 (Some (LogFormatter_new root_stdout_pattern)) st2) = Inr st4"
    "wf_objects nulls st4" "st_loggers st4 0 = Some l" "l_appenders l = [1]" "l_level l = DEBUG"
    "l_name l = ''root''" "l_root l = None" "st_next st4 = 2" "mgr_loggers st4 = []" "mgr_root st4 = 0"
proof -
  define st1 where "st1 = snd (Logger_new ''root'' (no_loggers out files))"
  define st2 where "st2 = snd (StdoutLogAppender_new st1)"
  have new: "Logger_new ''root'' (no_loggers out files) = (0, st1)" "StdoutLogAppender_new st1 = (1, st2)"
    by (simp_all add: prod_eq_iff st1_def st2_def StdoutLogAppender_new_def store_simps no_loggers_def)
  have wf2: "wf_objects nulls st2"
    by (simp add: st2_def st1_def StdoutLogAppender_new_def wf_objects_alloc_appender
        wf_objects_Logger_new wf_objects_empty)
  obtain l where l: "st_loggers st2 0 = Some l" "l_appenders l = []" "l_level l = DEBUG"
    "l_name l = ''root''" "l_root l = None"
    by (simp add: st2_def st1_def StdoutLogAppender_new_def store_simps no_loggers_def)
  have m2: "mgr_loggers st2 = []" "mgr_root st2 = 0" "st_next st2 = 2"
    by (simp_all add: st2_def st1_def StdoutLogAppender_new_def store_simps no_loggers_def)
  obtain ap1 where "st_appenders st2 1 = Some ap1"
    by (simp add: st2_def st1_def StdoutLogAppender_new_def store_simps no_loggers_def)
  from attach_new_appender [OF wf2 l(1) this] that new m2 l show thesis by fastforce
qed

lemma manager_file:
  assumes wf4: "wf_objects nulls st4" and l: "st_loggers st4 0 = Some l" "l_appenders l = [1]"
    and m4: "st_next st4 = 2" "mgr_loggers st4 = []" "mgr_root st4 = 0"
  obtains st5 st7 where "FileLogAppender_new io ''root.log'' st4 = (2, st5)"
    "Logger_addAppender 0 2 (LogAppender_setFormatter 2 (Some (LogFormatter_new root_file_pattern)) st5) = Inr st7"
    "wf_objects nulls st7" "st_loggers st7 0 = Some (l\<lparr>l_appenders := [1, 2]\<rparr>)"
    "mgr_loggers st7 = []" "mgr_root st7 = 0"
proof -
  define st5 where "st5 = snd (FileLogAppender_new io ''root.log'' st4)"
  obtain k where k: "fst (FileLogAppender_new io ''root.log'' st4) = 2"
    "log_frame (snd (alloc_appender k st4)) st5"
    using FileLogAppender_new_frame [of "''root.log''" io st4] m4 by (auto simp: st5_def store_simps)
  then have pair: "FileLogAppender_new io ''root.log'' st4 = (2, st5)" by (simp add: prod_eq_iff st5_def)
  have wf5: "wf_objects nulls st5" using k(2) wf4 by (blast intro: wf_objects_frame wf_objects_alloc_appender)
  have l5: "st_loggers st5 0 = Some l" "mgr_loggers st5 = []" "mgr_root st5 = 0"
    using k(2) l m4 by (simp_all add: log_frame_def store_simps)
  obtain ap2 where "st_appenders st5 2 = Some ap2"
    using log_frame_appender [OF k(2), of 2] m4 by (auto simp: store_simps)
  from attach_new_appender [OF wf5 l5(1) this] that pair l5 l(2) show thesis by fastforce
qed

lemma LoggerManager_new_wf:
  "\<exists>st l. LoggerManager_new io (no_loggers out files) = Inr st \<and> wf_state nulls st \<and>
     st_loggers st (mgr_root st) = Some l \<and> length (l_appenders l) = 2 \<and> l_level l = DEBUG"
proof -
  obtain st1 st2 st4 l where console: "Logger_new ''root'' (no_loggers out files) = (0, st1)"
    "StdoutLogAppender_new st1 = (1, st2)"
    "Logger_addAppender 0 1 (LogAppender_setFormatter 1 (Some (LogFormatter_new root_stdout_pattern)) st2) = Inr st4"
    and st4: "wf_objects nulls st4" "st_loggers st4 0 = Some l" "l_appenders l = [1]"
      "st_next st4 = 2" "mgr_loggers st4 = []" "mgr_root st4 = 0"
    and l: "l_level l = DEBUG" "l_name l = ''root''" "l_root l = None"
    by (rule manager_console)
  from manager_file [OF st4, of io] obtain st5 st7 where fapp:
    "FileLogAppender_new io ''root.log'' st4 = (2, st5)"
    "Logger_addAppender 0 2 (LogAppender_setFormatter 2 (Some (LogFormatter_new root_file_pattern)) st5) = Inr st7"
    and st7: "wf_objects nulls st7" "st_loggers st7 0 = Some (l\<lparr>l_appenders := [1, 2]\<rparr>)"
      "mgr_loggers st7 = []" "mgr_root st7 = 0" .
  let ?st = "st7\<lparr>mgr_root := 0, mgr_loggers := smap_set ''root'' 0 (mgr_loggers st7)\<rparr>"
  have "LoggerManager_new io (no_loggers out files) = Inr ?st"
    using console fapp by (simp add: LoggerManager_new_def)
  moreover have "attached ?st = attached st7" by (auto simp: attached_def)
  with st7 have "wf_objects nulls ?st" by (simp add: wf_objects_def wf_appenders_def wf_loggers_def)
  with st7 l have "wf_state nulls ?st"
    by (auto simp: wf_state_def wf_mgr_def mgr_entry_def smap_find_def smap_inv_def)
  ultimately show ?thesis using st7 l by auto
qed

end
