(* ===== verification/Logger_Delivery.thy ===== *)
theory Logger_Delivery
  imports Logger_Wf
begin

text \<open>
  What a logging call does. In a well-formed state \<open>Logger::log\<close> runs over one list of appenders:
  those of the logger, or, when it has none, those of the root logger. From there the contract
  of the sinks gives where the text goes, and the first appender of the list that cannot render the
  event decides how a call fails: its formatter is null, which takes a null pointer handed to
  \<open>LogAppender::setFormatter\<close>, or the formatter itself fails.
  The steps of the whole logging system are an inductive relation, and the invariant holds in
  every state reachable from the constructor of the manager.
\<close>

subsection \<open>The appenders an event reaches\<close>

definition own_targets :: "logger \<Rightarrow> log_event \<Rightarrow> nat list" where
  "own_targets l ev = (if l_level l \<le> ev_level ev then l_appenders l else [])"

definition targets :: "log_state \<Rightarrow> nat \<Rightarrow> log_event \<Rightarrow> nat list" where
  "targets st lg ev =
     (case st_loggers st lg of
        None \<Rightarrow> []
      | Some l \<Rightarrow>
          if l_level l \<le> ev_level ev \<and> l_appenders l = [] then
            (case l_root l of
               None \<Rightarrow> []
             | Some r \<Rightarrow> (case st_loggers st r of None \<Rightarrow> [] | Some rl \<Rightarrow> own_targets rl ev))
          else own_targets l ev)"

lemma root_log_eq:
  assumes "st_loggers st r = Some rl" and "l_root rl = None"
  shows "Logger_log (Suc n) io r ev st =
    Some (fold_res (\<lambda>a. LogAppender_log io a ev) (own_targets rl ev) st)"
  using assms by (simp add: own_targets_def)

lemma Logger_log_eq:
  assumes wf: "wf_state nulls st" and l: "st_loggers st lg = Some l" and fuel: "2 \<le> fuel"
  shows "Logger_log fuel io lg ev st =
    Some (fold_res (\<lambda>a. LogAppender_log io a ev) (targets st lg ev) st)"
proof -
  from fuel obtain n where n: "fuel = Suc (Suc n)" by (metis Suc_le_D numeral_2_eq_2 Suc_le_mono)
  obtain rl where r: "st_loggers st (mgr_root st) = Some rl" "l_root rl = None"
    using wf by (rule wf_root)
  have "l_root l = None \<or> l_root l = Some (mgr_root st)"
    using wf_logger(3) [OF wf_state_objects [OF wf] l] .
  then show ?thesis
  proof
    assume "l_root l = None"
    with l show ?thesis
      using root_log_eq [OF l, of "Suc n" io ev] by (simp add: n targets_def own_targets_def)
  next
    assume "l_root l = Some (mgr_root st)"
    with l r show ?thesis
      using root_log_eq [OF r, of n io ev] by (simp add: n targets_def own_targets_def)
  qed
qed

lemma targets_attached:
  assumes "wf_state nulls st"
  shows "\<forall>a \<in> set (targets st lg ev). attached st a"
proof -
  have own: "\<forall>a \<in> set (own_targets l ev). attached st a" if "st_loggers st g = Some l" for g l
    using wf_logger(4) [OF wf_state_objects [OF assms] that] by (simp add: own_targets_def)
  show ?thesis
  proof (cases "st_loggers st lg")
    case (Some l)
    with own [OF Some] own show ?thesis
      by (cases "l_root l"; cases "st_loggers st (the (l_root l))") (auto simp: targets_def)
  qed (simp add: targets_def)
qed

subsection \<open>How a call fails\<close>

definition render_error :: "exn \<Rightarrow> bool" where
  "render_error e \<longleftrightarrow> e = StdException ''filesystem_error'' \<or> e = UndefinedBehaviour ''strftime buffer''"

lemma FormatItem_format_errors:
  "FormatItem_format env item ev os = Inl e \<Longrightarrow>
     render_error e"
  by (cases item) (auto simp: render_error_def split: option.splits if_splits)

lemma format_errors:
  assumes "LogFormatter_format env f ev = Inl e"
  shows "render_error e"
proof -
  have "fold_res (\<lambda>item os. FormatItem_format env item ev os) items os = Inl e \<Longrightarrow>
    render_error e" for items os
    by (induction items arbitrary: os) (auto simp: bind_res_Inl_conv dest: FormatItem_format_errors)
  with assms show ?thesis by (auto simp: LogFormatter_format_def bind_res_Inl_conv)
qed

text \<open>The failure of one appender, and the first failure of a list of them.\<close>

definition appender_failure :: "io_env \<Rightarrow> log_event \<Rightarrow> log_state \<Rightarrow> nat \<Rightarrow> exn option" where
  "appender_failure io ev st a =
     (case st_appenders st a of
        None \<Rightarrow> Some NullDeref
      | Some ap \<Rightarrow>
          if a_level ap \<le> ev_level ev then
            (case a_formatter ap of
               None \<Rightarrow> Some NullDeref
             | Some f \<Rightarrow> (case LogFormatter_format (env_of io st) f ev of Inl e \<Rightarrow> Some e | Inr _ \<Rightarrow> None))
          else None)"

fun first_failure :: "io_env \<Rightarrow> log_event \<Rightarrow> log_state \<Rightarrow> nat list \<Rightarrow> exn option" where
  "first_failure io ev st [] = None"
| "first_failure io ev st (a # as) =
     (case appender_failure io ev st a of Some e \<Rightarrow> Some e | None \<Rightarrow> first_failure io ev st as)"

lemma appender_failure_frame:
  assumes fr: "log_frame st st'"
  shows "appender_failure io ev st' a = appender_failure io ev st a"
proof (cases "st_appenders st a")
  case None
  with fr have "st_appenders st' a = None" by (simp add: log_frame_no_appender)
  with None show ?thesis by (simp add: appender_failure_def)
next
  case (Some ap)
  from log_frame_appender [OF fr Some] obtain ap' where
    "st_appenders st' a = Some ap'" "a_level ap' = a_level ap" "a_formatter ap' = a_formatter ap" .
  with Some env_of_frame [OF fr, of io] show ?thesis
    by (cases "a_formatter ap") (simp_all add: appender_failure_def)
qed

lemma first_failure_frame:
  "log_frame st st' \<Longrightarrow> first_failure io ev st' as = first_failure io ev st as"
  by (induction as) (simp_all add: appender_failure_frame split: option.splits)

lemma appender_log_outcome:
  assumes ap: "st_appenders st a = Some ap"
  shows "case appender_failure io ev st a of
      Some e \<Rightarrow> LogAppender_log io a ev st = Inl e
    | None \<Rightarrow> \<exists>st'. LogAppender_log io a ev st = Inr st'"
proof -
  have "env_of io (before_write io a ap st) = env_of io st"
    by (rule env_of_frame [OF before_write_frame])
  with ap show ?thesis
    by (auto simp: LogAppender_log_eq appender_failure_def StdoutLogAppender_log_def FileLogAppender_log_def
        Let_def before_write_def [symmetric] split: option.splits sum.splits)
qed

lemma fold_log_outcome:
  assumes "\<forall>a \<in> set as. attached st a"
  shows "case first_failure io ev st as of
      Some e \<Rightarrow> fold_res (\<lambda>a. LogAppender_log io a ev) as st = Inl e
    | None \<Rightarrow> \<exists>st'. fold_res (\<lambda>a. LogAppender_log io a ev) as st = Inr st'"
  using assms
proof (induction as arbitrary: st)
  case (Cons a as)
  then obtain ap where ap: "st_appenders st a = Some ap" by (auto simp: attached_def)
  show ?case
  proof (cases "appender_failure io ev st a")
    case (Some e)
    with appender_log_outcome [OF ap, of io ev] show ?thesis by simp
  next
    case None
    with appender_log_outcome [OF ap, of io ev] obtain st1 where st1: "LogAppender_log io a ev st = Inr st1"
      by auto
    then have fr: "log_frame st st1" using ap sinks.frame by blast
    with Cons.prems have "\<forall>a \<in> set as. attached st1 a" by (auto intro: attached_frame)
    from Cons.IH [OF this] None st1 show ?thesis
      by (simp add: first_failure_frame [OF fr] split: option.splits)
  qed
qed simp

text \<open>What can fail: rendering, or a formatter set to null.\<close>

lemma first_failure_reason:
  assumes wf: "wf_objects nulls st" and "\<forall>a \<in> set as. attached st a" and "first_failure io ev st as = Some e"
  shows "render_error e \<or> nulls \<and> e = NullDeref \<and>
    (\<exists>a \<in> set as. \<exists>ap. st_appenders st a = Some ap \<and> a_formatter ap = None)"
  using assms(2,3)
proof (induction as)
  case (Cons a as)
  then obtain ap where ap: "st_appenders st a = Some ap" "a_has_formatter ap" by (auto simp: attached_def)
  with wf_appender(2) [OF wf ap(1)] have null: "a_formatter ap = None \<Longrightarrow> nulls" by (simp add: appender_ok_def)
  show ?case
  proof (cases "appender_failure io ev st a")
    case (Some e')
    with Cons.prems(2) ap null show ?thesis
      by (auto simp: appender_failure_def split: option.splits if_splits sum.splits dest: format_errors)
  qed (use Cons in auto)
qed simp

lemma Logger_log_frame:
  assumes "wf_state nulls st" and "st_loggers st lg = Some l" and "2 \<le> fuel"
    and "Logger_log fuel io lg ev st = Some (Inr st')"
  shows "log_frame st st'"
proof (rule sinks.fold_frame)
  show "fold_res (\<lambda>a. LogAppender_log io a ev) (targets st lg ev) st = Inr st'"
    using assms by (simp add: Logger_log_eq)
  show "\<forall>a \<in> set (targets st lg ev). st_appenders st a \<noteq> None"
    using targets_attached [OF assms(1), of lg ev] by (auto simp: attached_def)
qed

text \<open>More fuel than needed changes nothing, and less fuel gives no state at all.\<close>

lemma Logger_log_wf:
  assumes wf: "wf_state nulls st" and log: "Logger_log fuel io lg ev st = Some (Inr st')"
  shows "wf_state nulls st'"
proof -
  have att: "\<forall>a \<in> set (l_appenders l). st_appenders st a \<noteq> None" if "st_loggers st lg' = Some l" for lg' l
    using wf_logger(4) [OF wf_state_objects [OF wf] that] by (auto simp: attached_def)
  have "log_frame st st'"
    using log
  proof (induction fuel arbitrary: lg)
    case (Suc fuel)
    then show ?case
      by (auto split: option.splits if_splits intro: sinks.fold_frame [OF att])
  qed simp
  with wf show ?thesis by (rule wf_state_frame)
qed

lemma LogEventWrap_dtor_Inr:
  "LogEventWrap_dtor fuel io ev st = Some (Inr st') \<Longrightarrow>
     Logger_log fuel io (ev_logger ev) ev st = Some (Inr st')"
  by (auto simp: LogEventWrap_dtor_def split: option.splits sum.splits exn.splits)

subsection \<open>The steps of the logging system\<close>

text \<open>\<open>nulls\<close> says whether the program ever hands a null pointer to \<open>LogAppender::setFormatter\<close>.\<close>

inductive log_step :: "bool \<Rightarrow> log_state \<Rightarrow> log_state \<Rightarrow> bool" for nulls where
  getLogger: "log_step nulls st (snd (LoggerManager_getLogger name st))"
| newLogger: "log_step nulls st (snd (Logger_new name st))"
| newStdout: "log_step nulls st (snd (StdoutLogAppender_new st))"
| newFile: "log_step nulls st (snd (FileLogAppender_new io file st))"
| appenderFormatter: "val \<noteq> None \<or> nulls \<Longrightarrow> log_step nulls st (LogAppender_setFormatter a val st)"
| appenderLevel: "log_step nulls st (LogAppender_setLevel a level st)"
| addAppender: "Logger_addAppender lg a st = Inr st' \<Longrightarrow> log_step nulls st st'"
| delAppender: "log_step nulls st (Logger_delAppender lg a st)"
| clearAppenders: "log_step nulls st (Logger_clearAppenders lg st)"
| setLevel: "log_step nulls st (Logger_setLevel lg level st)"
| setFormatter: "Logger_setFormatter lg val st = Inr st' \<Longrightarrow> log_step nulls st st'"
| setFormatterStr: "Logger_setFormatter_str lg pattern st = Inr st' \<Longrightarrow> log_step nulls st st'"
| logEvent: "LogEventWrap_dtor fuel io ev st = Some (Inr st') \<Longrightarrow> log_step nulls st st'"
| loggerLog: "Logger_log fuel io lg ev st = Some (Inr st') \<Longrightarrow> log_step nulls st st'"
| appenderLog: "LogAppender_log io a ev st = Inr st' \<Longrightarrow> log_step nulls st st'"

definition log_init :: "log_state \<Rightarrow> bool" where
  "log_init st \<longleftrightarrow> (\<exists>io out files. LoggerManager_new io (no_loggers out files) = Inr st)"

lemma LogAppender_log_wf:
  assumes "wf_state nulls st" and "LogAppender_log io a ev st = Inr st'"
  shows "wf_state nulls st'"
proof -
  from assms(2) obtain ap where "st_appenders st a = Some ap"
    by (auto simp: LogAppender_log_def split: option.splits)
  with assms show ?thesis using sinks.frame wf_state_frame by blast
qed

lemma log_step_wf: "log_step nulls st st' \<Longrightarrow> wf_state nulls st \<Longrightarrow> wf_state nulls st'"
  by (cases rule: log_step.cases)
    (auto intro: wf_intros Logger_log_wf LogAppender_log_wf LogEventWrap_dtor_Inr)

lemma log_init_wf: "log_init st \<Longrightarrow> wf_state nulls st"
  unfolding log_init_def by (metis LoggerManager_new_wf sum.inject(2))

interpretation logging: invariant_system log_init "log_step nulls" "wf_state nulls" for nulls
  by unfold_locales (auto intro: log_init_wf log_step_wf)

subsection \<open>A concrete logging system\<close>

definition demo_io :: io_env where
  "demo_io = \<lparr>io_now = 7, io_can_open = (\<lambda>_. True), io_can_write = (\<lambda>_. True), io_fmt = plain_env\<rparr>"

definition demo_st :: log_state where
  "demo_st = (case LoggerManager_new demo_io (no_loggers [] (\<lambda>_. None)) of
     Inr st \<Rightarrow> st | Inl _ \<Rightarrow> no_loggers [] (\<lambda>_. None))"

text \<open>The same after \<open>SYLAR_LOG_NAME("system")\<close>, which returns the logger at address 3.\<close>

definition demo_sys :: log_state where
  "demo_sys = snd (LoggerManager_getLogger ''system'' demo_st)"

definition demo_ev :: log_event where
  "demo_ev = LogEvent_put ''hi'' (LogEvent_new 3 INFO ''a.cc'' 7 0 1 0 7 ''main'')"

lemma demo_st_new: "LoggerManager_new demo_io (no_loggers [] (\<lambda>_. None)) = Inr demo_st"
  unfolding demo_st_def using LoggerManager_new_wf [of demo_io "[]" "\<lambda>_. None"] by (auto split: sum.splits)

lemma demo_st_wf: "wf_state nulls demo_st"
  using demo_st_new by (intro log_init_wf) (auto simp: log_init_def)

lemma demo_sys_wf: "wf_state nulls demo_sys"
  by (simp add: demo_sys_def demo_st_wf wf_getLogger)

lemma demo_sys_logger: "\<exists>l. st_loggers demo_sys 3 = Some l"
proof -
  have "st_loggers demo_sys 3 \<noteq> None" by code_simp
  then show ?thesis by auto
qed

lemma ready_code [code]:
  "ready io ev st a =
     (case st_appenders st a of
        None \<Rightarrow> False
      | Some ap \<Rightarrow>
          (case a_formatter ap of
             None \<Rightarrow> False
           | Some f \<Rightarrow> can_render io ev st f \<and> kind_healthy io (a_kind ap)))"
  by (auto simp: ready_def split: option.splits)

lemma demo_reachable: "log_init demo_st" "(log_step nulls)\<^sup>*\<^sup>* demo_st demo_sys"
  using demo_st_new by (auto simp: log_init_def demo_sys_def intro: log_step.getLogger)

subsection \<open>Properties\<close>

text \<open>C2. A logging call on an existing logger returns, and appends to each sink exactly the formatted event
  of each appender it reaches, in the order of the appenders: those of the logger, or those of
  the root logger when it has none. Loggers, levels and formatters stay as they are.\<close>

theorem log_delivers:
  assumes "wf_state nulls st" and "st_loggers st lg = Some l" and "2 \<le> fuel"
    and "\<forall>a \<in> set (targets st lg ev). ready io ev st a"
  shows "\<exists>st'. Logger_log fuel io lg ev st = Some (Inr st') \<and> log_frame st st' \<and>
    (\<forall>k. sink_text st' k = sink_text st k @ concat (map (share io st ev k) (targets st lg ev)))"
  using Logger_log_eq [OF assms(1-3), of io ev] sinks.fold_delivers [OF assms(4)] by auto

theorem log_delivers_witness:
  "\<exists>st'. Logger_log 2 demo_io 3 demo_ev demo_sys = Some (Inr st') \<and>
     sink_text st' (File ''root.log'') =
       ''now'' @ [CHR 0x09] @ ''1'' @ [CHR 0x09] @ ''0'' @ [CHR 0x09] @ ''[INFO]'' @ [CHR 0x09] @
       ''[system](dft)'' @ [CHR 0x09] @ ''a.cc:7'' @ [CHR 0x09] @ ''hi'' @ [CHR 0x0A]"
proof -
  obtain l where l: "st_loggers demo_sys 3 = Some l" using demo_sys_logger by blast
  have r: "\<forall>a \<in> set (targets demo_sys 3 demo_ev). ready demo_io demo_ev demo_sys a" by code_simp
  have t: "sink_text demo_sys (File ''root.log'') @
      concat (map (share demo_io demo_sys demo_ev (File ''root.log'')) (targets demo_sys 3 demo_ev)) =
    ''now'' @ [CHR 0x09] @ ''1'' @ [CHR 0x09] @ ''0'' @ [CHR 0x09] @ ''[INFO]'' @ [CHR 0x09] @
       ''[system](dft)'' @ [CHR 0x09] @ ''a.cc:7'' @ [CHR 0x09] @ ''hi'' @ [CHR 0x0A]"
    by code_simp
  from log_delivers [OF demo_sys_wf l order_refl r] obtain st' where
    "Logger_log 2 demo_io 3 demo_ev demo_sys = Some (Inr st')"
    "\<forall>k. sink_text st' k = sink_text demo_sys k @
       concat (map (share demo_io demo_sys demo_ev k) (targets demo_sys 3 demo_ev))" by blast
  with t show ?thesis by metis
qed



text \<open>C31. In every reachable state \<open>Logger::setFormatter\<close> changes no appender: attaching an appender already
  marks it as having its own formatter, so the loop that should hand a new formatter down to
  the appenders that inherited the old one never does anything.\<close>

theorem setFormatter_never_inherited:
  assumes "log_init s" and "(log_step nulls)\<^sup>*\<^sup>* s st" and "Logger_setFormatter lg val st = Inr st'"
  shows "st_appenders st' = st_appenders st"
proof -
  have wf: "wf_objects nulls st" using assms(1,2) by (blast intro: wf_state_objects logging.reachable_inv)
  from assms(3) obtain l f where "st_loggers st lg = Some l" "val = Some f"
    by (auto simp: Logger_setFormatter_def split: option.splits)
  with setFormatter_eq [OF wf, of lg l f] assms(3) show ?thesis
    by (auto simp: store_simps split: if_splits)
qed

theorem setFormatter_never_inherited_witness:
  "\<exists>st'. Logger_setFormatter 0 (Some (LogFormatter_new ''%m%n'')) demo_sys = Inr st' \<and>
     st_appenders st' = st_appenders demo_sys"
proof -
  have "\<exists>l. st_loggers demo_sys 0 = Some l"
  proof -
    have "st_loggers demo_sys 0 \<noteq> None" by code_simp
    then show ?thesis by auto
  qed
  then obtain st' where "Logger_setFormatter 0 (Some (LogFormatter_new ''%m%n'')) demo_sys = Inr st'"
    using setFormatter_eq [OF wf_state_objects [OF demo_sys_wf]] by blast
  with setFormatter_never_inherited [OF demo_reachable this] show ?thesis by blast
qed

text \<open>Asking the manager twice for a name gives the same logger and no second change; the logger has that
  name, and loggers of different names are different objects.\<close>

lemma getLogger_stable:
  assumes "wf_state nulls st"
  shows "LoggerManager_getLogger name (snd (LoggerManager_getLogger name st)) =
           LoggerManager_getLogger name st \<and>
         (\<exists>l. st_loggers (snd (LoggerManager_getLogger name st)) (fst (LoggerManager_getLogger name st)) =
                Some l \<and> l_name l = name) \<and>
         (\<forall>name' lg. smap_find (mgr_loggers (snd (LoggerManager_getLogger name st))) name' = Some lg \<and>
            lg = fst (LoggerManager_getLogger name st) \<longrightarrow> name' = name)"
proof -
  let ?st' = "snd (LoggerManager_getLogger name st)" and ?lg = "fst (LoggerManager_getLogger name st)"
  have wf': "wf_state nulls ?st'" using assms by (rule wf_getLogger)
  obtain l where l: "st_loggers ?st' ?lg = Some l" "l_name l = name"
    using getLogger_logger [OF assms] by blast
  have "name' = name" if "smap_find (mgr_loggers ?st') name' = Some ?lg" for name'
  proof -
    have "mgr_entry ?st' name' ?lg" using wf' that by (simp add: wf_state_def wf_mgr_def)
    with l show ?thesis by (simp add: mgr_entry_def)
  qed
  with l show ?thesis
    using getLogger_found [OF getLogger_find [OF assms]] by simp
qed

lemma getLogger_stable_example:
  "LoggerManager_getLogger ''system'' demo_sys = LoggerManager_getLogger ''system'' demo_st"
  using getLogger_stable [OF demo_st_wf, of "''system''"] by (simp add: demo_sys_def)

text \<open>The level test of the logging macro only saves work: without it the statement would do the same,
  since \<open>Logger::log\<close> repeats the test.\<close>

lemma macro_test_redundant:
  assumes "0 < fuel"
  shows "SYLAR_LOG_LEVEL fuel io site lg level text st =
    LogEventWrap_dtor fuel io
      (LogEvent_put text (LogEvent_new lg level (site_file site) (site_line site) 0
         (site_thread site) (site_fiber site) (io_now io) (site_threadName site))) st"
proof -
  from assms obtain n where "fuel = Suc n" by (cases fuel) auto
  then show ?thesis
    by (simp add: SYLAR_LOG_LEVEL_def LogEventWrap_dtor_def LogEvent_put_def LogEvent_new_def
        split: option.splits)
qed

lemma macro_test_redundant_example:
  "SYLAR_LOG_LEVEL 2 demo_io \<lparr>site_file = ''a.cc'', site_line = 7, site_thread = 1, site_fiber = 0,
       site_threadName = ''main''\<rparr> 3 INFO ''hi'' demo_sys =
   LogEventWrap_dtor 2 demo_io demo_ev demo_sys"
  using macro_test_redundant [of 2 demo_io "\<lparr>site_file = ''a.cc'', site_line = 7, site_thread = 1,
    site_fiber = 0, site_threadName = ''main''\<rparr>" 3 INFO "''hi''" demo_sys]
  by (simp add: demo_ev_def demo_io_def)

text \<open>Deleting an appender that was just added restores the logger's list when the logger did not hold it
  before.\<close>

lemma delAppender_undoes_add:
  assumes "st_loggers st lg = Some l" and "a \<notin> set (l_appenders l)"
    and "Logger_addAppender lg a st = Inr st'"
  shows "st_loggers (Logger_delAppender lg a st') = st_loggers st"
proof -
  have erase: "erase_first a (xs @ [a]) = xs" if "a \<notin> set xs" for xs
    using that by (induction xs) auto
  from assms(1,3) have "st_loggers st' = (st_loggers st)(lg \<mapsto> l\<lparr>l_appenders := l_appenders l @ [a]\<rparr>)"
    by (auto simp: Logger_addAppender_def LogAppender_setFormatter_def Let_def store_simps fun_eq_iff
        split: option.splits if_splits)
  with assms(1,2) show ?thesis
    by (auto simp: Logger_delAppender_def store_simps fun_eq_iff erase)
qed

lemma delAppender_undoes_add_example:
  "\<exists>st'. Logger_addAppender 3 1 demo_sys = Inr st' \<and>
     st_loggers (Logger_delAppender 3 1 st') = st_loggers demo_sys"
proof -
  obtain l where l: "st_loggers demo_sys 3 = Some l" using demo_sys_logger by blast
  have "map_option l_appenders (st_loggers demo_sys 3) = Some []" by code_simp
  with l have "1 \<notin> set (l_appenders l)" by simp
  moreover have "st_appenders demo_sys 1 \<noteq> None" by code_simp
  with l obtain st' where "Logger_addAppender 3 1 demo_sys = Inr st'"
    by (auto simp: Logger_addAppender_def)
  ultimately show ?thesis using delAppender_undoes_add [OF l] by blast
qed

text \<open>C34. Once a write to its file has failed, a file appender never writes again: however many events follow,
  and even when the system would accept the writes, the files stay as they are.\<close>

theorem file_appender_never_recovers:
  assumes "broken st a"
    and "fold_res (\<lambda>(io, ev). FileLogAppender_log io a ev) calls st = Inr st'"
  shows "st_files st' = st_files st \<and> broken st' a"
  using assms
proof (induction calls arbitrary: st)
  case (Cons c calls)
  obtain io ev where c: "c = (io, ev)" by (cases c)
  with Cons.prems obtain st1 where st1: "FileLogAppender_log io a ev st = Inr st1"
    "fold_res (\<lambda>(io, ev). FileLogAppender_log io a ev) calls st1 = Inr st'"
    by (auto simp: bind_res_Inr_conv)
  with broken_log [OF Cons.prems(1)] Cons.IH show ?case by metis
qed simp

theorem file_appender_never_recovers_witness:
  "\<exists>st1 st2. FileLogAppender_log (demo_io\<lparr>io_can_write := \<lambda>_. False\<rparr>) 2 demo_ev demo_sys = Inr st1 \<and>
     fold_res (\<lambda>(io, ev). FileLogAppender_log io 2 ev) [(demo_io\<lparr>io_now := 8\<rparr>, demo_ev)] st1 = Inr st2 \<and>
     st_files st2 = st_files st1"
proof -
  let ?bad = "demo_io\<lparr>io_can_write := \<lambda>_. False\<rparr>" and ?ok = "demo_io\<lparr>io_now := 8\<rparr>"
  obtain st1 where st1: "FileLogAppender_log ?bad 2 demo_ev demo_sys = Inr st1"
    and b1: "case FileLogAppender_log ?bad 2 demo_ev demo_sys of
        Inr s \<Rightarrow> (case st_appenders s 2 of Some ap \<Rightarrow>
           a_kind ap = FileLogAppender ''root.log'' \<lparr>fs_open = True, fs_good = False\<rparr> 7 | None \<Rightarrow> False)
      | Inl _ \<Rightarrow> False"
  proof -
    have "case FileLogAppender_log ?bad 2 demo_ev demo_sys of
        Inr s \<Rightarrow> (case st_appenders s 2 of Some ap \<Rightarrow>
           a_kind ap = FileLogAppender ''root.log'' \<lparr>fs_open = True, fs_good = False\<rparr> 7 | None \<Rightarrow> False)
      | Inl _ \<Rightarrow> False" by code_simp
    with that show thesis by (auto split: sum.splits)
  qed
  then have broken1: "broken st1 2" by (auto simp: broken_def split: option.splits)
  have "case FileLogAppender_log ?bad 2 demo_ev demo_sys of
      Inr s \<Rightarrow> (case FileLogAppender_log ?ok 2 demo_ev s of Inr _ \<Rightarrow> True | Inl _ \<Rightarrow> False) | Inl _ \<Rightarrow> False"
    by code_simp
  with st1 obtain st2 where
    "fold_res (\<lambda>(io, ev). FileLogAppender_log io 2 ev) [(?ok, demo_ev)] st1 = Inr st2"
    by (auto split: sum.splits)
  with st1 file_appender_never_recovers [OF broken1 this] show ?thesis by blast
qed

end
