(* ===== verification/Config_Var.thy ===== *)
theory Config_Var
  imports Ordered_Map
begin

text \<open>
  \<open>ConfigVarBase\<close> and \<open>ConfigVar\<close> of \<^verbatim>\<open>sylar/config.h\<close>. The template parameter \<open>T\<close> with its
  \<open>FromStr\<close> and \<open>ToStr\<close> is a value of \<open>config_type\<close>; the values of all the types live in one
  type \<open>'v\<close>. Change callbacks act on a world \<open>'w\<close> and may throw. They run under the read lock of the
  variable, so none of them can write to the variable itself. The statement
  \<open>SYLAR_LOG_ERROR(SYLAR_LOG_ROOT()) << text\<close> is \<open>log_error\<close>, over the level test of the macro and
  the effect of its output on the world; \<open>put_cout\<close> is what a cast printing to \<open>std::cout\<close> does to it.
\<close>

subsection \<open>Data\<close>

record 'v config_type =
  ty_name :: string
  FromStr :: "string \<Rightarrow> 'v wres"
  ToStr :: "'v \<Rightarrow> string res"

type_synonym ('v, 'w) on_change_cb = "'v \<Rightarrow> 'v \<Rightarrow> 'w \<Rightarrow> exn option \<times> 'w"

record 'w diag_env =
  log_enabled :: "'w \<Rightarrow> bool"
  log_put :: "string \<Rightarrow> 'w \<Rightarrow> 'w"
  put_cout :: "string \<Rightarrow> 'w \<Rightarrow> 'w"

definition log_error :: "'w diag_env \<Rightarrow> string \<Rightarrow> 'w \<Rightarrow> 'w" where
  "log_error R text w = (if log_enabled R w then log_put R text w else w)"

record ('v, 'w) config_var =
  cv_name :: string
  cv_description :: string
  cv_type :: "'v config_type"
  cv_val :: "'v"
  cv_cbs :: "(64 word, ('v, 'w) on_change_cb) smap"

definition ConfigVar_new :: "'v config_type \<Rightarrow> string \<Rightarrow> 'v \<Rightarrow> string \<Rightarrow> ('v, 'w) config_var" where
  "ConfigVar_new T name default_value description =
     \<lparr>cv_name = map tolower name, cv_description = description, cv_type = T, cv_val = default_value, cv_cbs = []\<rparr>"

subsection \<open>Operations\<close>

definition ConfigVar_getTypeName :: "('v, 'w) config_var \<Rightarrow> string" where
  "ConfigVar_getTypeName var = ty_name (cv_type var)"

definition ConfigVar_getValue :: "('v, 'w) config_var \<Rightarrow> 'v" where
  "ConfigVar_getValue var = cv_val var"

text \<open>\<open>toString\<close>: \<open>what\<close> gives the text of an exception; one outside \<open>std::exception\<close> escapes.\<close>

definition ConfigVar_toString :: "'w diag_env \<Rightarrow> ('v, 'w) config_var \<Rightarrow> 'w \<Rightarrow> string res \<times> 'w" where
  "ConfigVar_toString R var w =
     (case ToStr (cv_type var) (cv_val var) of
        Inr s \<Rightarrow> (Inr s, w)
      | Inl (StdException what) \<Rightarrow>
          (Inr ''...'', log_error R (''ConfigVar::toString exception '' @ what @ '' convert: '' @
             ty_name (cv_type var) @ '' to string'') w)
      | Inl e \<Rightarrow> (Inl e, w))"

text \<open>The loop over \<open>m_cbs\<close>: the first exception ends it.\<close>

fun notify :: "('k \<times> ('v, 'w) on_change_cb) list \<Rightarrow> 'v \<Rightarrow> 'v \<Rightarrow> 'w \<Rightarrow> exn option \<times> 'w" where
  "notify [] old new w = (None, w)"
| "notify ((k, cb) # cbs) old new w =
     (case cb old new w of
        (None, w') \<Rightarrow> notify cbs old new w'
      | (Some e, w') \<Rightarrow> (Some e, w'))"

definition ConfigVar_setValue ::
    "'v \<Rightarrow> ('v, 'w) config_var \<Rightarrow> 'w \<Rightarrow> exn option \<times> ('v, 'w) config_var \<times> 'w" where
  "ConfigVar_setValue v var w =
     (if v = cv_val var then (None, var, w)
      else case notify (cv_cbs var) (cv_val var) v w of
        (Some e, w') \<Rightarrow> (Some e, var, w')
      | (None, w') \<Rightarrow> (None, var\<lparr>cv_val := v\<rparr>, w'))"

definition fromString_failed :: "('v, 'w) config_var \<Rightarrow> string \<Rightarrow> string \<Rightarrow> string" where
  "fromString_failed var what val =
     ''ConfigVar::fromString exception '' @ what @ '' convert: string to '' @ ty_name (cv_type var) @ val"

definition ConfigVar_fromString ::
    "'w diag_env \<Rightarrow> string \<Rightarrow> ('v, 'w) config_var \<Rightarrow> 'w \<Rightarrow> bool res \<times> ('v, 'w) config_var \<times> 'w" where
  "ConfigVar_fromString R val var w =
     (case FromStr (cv_type var) val of (parsed, out) \<Rightarrow>
        (let w = put_cout R out w
         in case parsed of
              Inl (StdException what) \<Rightarrow> (Inr False, var, log_error R (fromString_failed var what val) w)
            | Inl e \<Rightarrow> (Inl e, var, w)
            | Inr v \<Rightarrow>
                (case ConfigVar_setValue v var w of
                   (None, var', w') \<Rightarrow> (Inr True, var', w')
                 | (Some (StdException what), var', w') \<Rightarrow>
                     (Inr False, var', log_error R (fromString_failed var' what val) w')
                 | (Some e, var', w') \<Rightarrow> (Inl e, var', w'))))"

text \<open>\<open>addListener\<close>: \<open>s_fun_id\<close> is one counter for all the variables of the same type.\<close>

definition ConfigVar_addListener ::
    "('v, 'w) on_change_cb \<Rightarrow> 64 word \<Rightarrow> ('v, 'w) config_var \<Rightarrow> 64 word \<times> 64 word \<times> ('v, 'w) config_var" where
  "ConfigVar_addListener cb s_fun_id var =
     (let s_fun_id = s_fun_id + 1
      in (s_fun_id, s_fun_id, var\<lparr>cv_cbs := smap_set s_fun_id cb (cv_cbs var)\<rparr>))"

definition ConfigVar_delListener :: "64 word \<Rightarrow> ('v, 'w) config_var \<Rightarrow> ('v, 'w) config_var" where
  "ConfigVar_delListener key var = var\<lparr>cv_cbs := smap_erase key (cv_cbs var)\<rparr>"

definition ConfigVar_getListener :: "64 word \<Rightarrow> ('v, 'w) config_var \<Rightarrow> ('v, 'w) on_change_cb option" where
  "ConfigVar_getListener key var = smap_find (cv_cbs var) key"

definition ConfigVar_clearListener :: "('v, 'w) config_var \<Rightarrow> ('v, 'w) config_var" where
  "ConfigVar_clearListener var = var\<lparr>cv_cbs := []\<rparr>"

subsection \<open>Invariant\<close>

text \<open>
  The listeners are ordered by key, their keys have been handed out by the counter, and the name
  is in lower case.
\<close>

definition wf_var :: "64 word \<Rightarrow> ('v, 'w) config_var \<Rightarrow> bool" where
  "wf_var s_fun_id var \<longleftrightarrow> smap_inv (cv_cbs var) \<and> (\<forall>k \<in> fst ` set (cv_cbs var). k \<le> s_fun_id) \<and>
     map tolower (cv_name var) = cv_name var"

lemma tolower_idem [simp]: "tolower (tolower c) = tolower c"
proof (cases "is_upper c")
  case True
  then have "65 \<le> (of_char c :: nat)" "(of_char c :: nat) \<le> 90"
    by (simp_all add: is_upper_def less_eq_char_def)
  then have "\<not> is_upper (tolower c)" using True
    by (simp add: tolower_def is_upper_def less_eq_char_def)
  then show ?thesis by (simp add: tolower_def)
qed (simp add: tolower_def)

lemma wf_var_new: "wf_var s (ConfigVar_new T name default_value description)"
  by (simp add: wf_var_def ConfigVar_new_def)

lemma wf_var_mono: "wf_var s var \<Longrightarrow> s \<le> s' \<Longrightarrow> wf_var s' var"
  by (auto simp: wf_var_def)

lemma setValue_frame:
  assumes "ConfigVar_setValue v var w = (r, var', w')"
  shows "var' = (if r = None then var\<lparr>cv_val := v\<rparr> else var)"
  using assms by (auto simp: ConfigVar_setValue_def split: if_splits prod.splits option.splits)

lemma wf_var_setValue:
  assumes "wf_var s var" and "ConfigVar_setValue v var w = (r, var', w')"
  shows "wf_var s var'"
  using assms(1) setValue_frame [OF assms(2)] by (simp add: wf_var_def)

lemma fromString_frame:
  assumes "ConfigVar_fromString R val var w = (r, var', w')"
  shows "\<exists>v. var' = var\<lparr>cv_val := v\<rparr>"
proof -
  have "\<exists>v. var = var\<lparr>cv_val := v\<rparr>" by (rule exI [of _ "cv_val var"]) simp
  with assms show ?thesis
    by (auto simp: ConfigVar_fromString_def Let_def dest!: setValue_frame
        split: sum.splits exn.splits prod.splits option.splits if_splits)
qed

lemma wf_var_fromString:
  assumes "wf_var s var" and "ConfigVar_fromString R val var w = (r, var', w')"
  shows "wf_var s var'"
  using assms(1) fromString_frame [OF assms(2)] by (auto simp: wf_var_def)

lemma addListener_eq:
  assumes "wf_var s var" and "s \<noteq> - 1"
  shows "ConfigVar_addListener cb s var = (s + 1, s + 1, var\<lparr>cv_cbs := cv_cbs var @ [(s + 1, cb)]\<rparr>)"
proof -
  have "\<forall>k \<in> fst ` set (cv_cbs var). k < s + 1"
    using assms word_inc_greater [of s] by (auto simp: wf_var_def)
  then show ?thesis by (simp add: ConfigVar_addListener_def Let_def smap_set_greatest)
qed

lemma wf_var_addListener:
  assumes "wf_var s var" and "s \<noteq> - 1" and "ConfigVar_addListener cb s var = (k, s', var')"
  shows "wf_var s' var'"
proof -
  have less: "s < s + 1" using assms(2) by (rule word_inc_greater)
  have "\<forall>k \<in> fst ` set (cv_cbs var). k < s + 1" using assms(1) less by (auto simp: wf_var_def)
  then show ?thesis using assms less
    by (fastforce simp: addListener_eq wf_var_def smap_inv_def sorted_wrt_append)
qed

lemma wf_var_delListener: "wf_var s var \<Longrightarrow> wf_var s (ConfigVar_delListener key var)"
  by (auto simp: wf_var_def ConfigVar_delListener_def smap_inv_erase) (auto simp: smap_erase_def)

lemma wf_var_clearListener: "wf_var s var \<Longrightarrow> wf_var s (ConfigVar_clearListener var)"
  by (simp add: wf_var_def ConfigVar_clearListener_def)

lemmas wf_var_ops =
  wf_var_new wf_var_setValue wf_var_fromString wf_var_addListener wf_var_delListener wf_var_clearListener

lemma notify_append:
  "notify (xs @ ys) old new w =
     (case notify xs old new w of (None, w') \<Rightarrow> notify ys old new w' | (Some e, w') \<Rightarrow> (Some e, w'))"
  by (induction xs arbitrary: w) (auto split: prod.splits option.splits)

end
