(* ===== verification/Yaml_Api.thy ===== *)
theory Yaml_Api
  imports Ordered_Map
begin

text \<open>
  The part of yaml-cpp the sources call, as a record of operations that is an argument of every
  definition using it: the library is not part of the repository. Its documented laws are the
  locale \<open>yaml_laws\<close>; \<open>Yaml_Tree\<close> has a concrete instance that satisfies them.
\<close>

text \<open>\<open>YAML::NodeType\<close>\<close>

datatype node_type = NUndefined | NNull | NScalar | NSequence | NMap

text \<open>
  \<open>y_Load\<close>: \<open>YAML::Load\<close>, which may throw. \<open>y_Emit\<close>: \<open>ss << node\<close>. \<open>y_Type\<close>, \<open>y_Scalar\<close>, \<open>y_size\<close>, \<open>y_at\<close>: the
  members \<open>Type\<close>, \<open>Scalar\<close>, \<open>size\<close> and \<open>operator[]\<close> with an index. \<open>y_get\<close>: \<open>operator[]\<close> with a key on a
  constant node, which throws on a scalar. \<open>y_entries\<close>: the pairs \<open>(it->first.Scalar(), it->second)\<close>
  from \<open>begin()\<close> to \<open>end()\<close>, which throws when the node has no keys. \<open>y_null\<close>: \<open>YAML::Node()\<close>.
  \<open>y_of\<close>: a node assigned from a \<open>std::string\<close>. \<open>y_set\<close>, \<open>y_set_at\<close>: \<open>node[key] = v\<close> and
  \<open>node[i] = v\<close>. \<open>y_push\<close>: \<open>push_back\<close>.
\<close>

record 'n yaml =
  y_Load :: "string \<Rightarrow> 'n res"
  y_Emit :: "'n \<Rightarrow> string"
  y_Type :: "'n \<Rightarrow> node_type"
  y_Scalar :: "'n \<Rightarrow> string"
  y_size :: "'n \<Rightarrow> nat"
  y_at :: "'n \<Rightarrow> nat \<Rightarrow> 'n"
  y_get :: "'n \<Rightarrow> string \<Rightarrow> 'n res"
  y_entries :: "'n \<Rightarrow> (string \<times> 'n) list res"
  y_null :: "'n"
  y_of :: "string \<Rightarrow> 'n"
  y_set :: "string \<Rightarrow> 'n \<Rightarrow> 'n \<Rightarrow> 'n"
  y_set_at :: "nat \<Rightarrow> 'n \<Rightarrow> 'n \<Rightarrow> 'n"
  y_push :: "'n \<Rightarrow> 'n \<Rightarrow> 'n"

definition IsDefined :: "'n yaml \<Rightarrow> 'n \<Rightarrow> bool" where
  "IsDefined Y n \<longleftrightarrow> y_Type Y n \<noteq> NUndefined"

definition IsScalar :: "'n yaml \<Rightarrow> 'n \<Rightarrow> bool" where
  "IsScalar Y n \<longleftrightarrow> y_Type Y n = NScalar"

definition IsSequence :: "'n yaml \<Rightarrow> 'n \<Rightarrow> bool" where
  "IsSequence Y n \<longleftrightarrow> y_Type Y n = NSequence"

definition IsMap :: "'n yaml \<Rightarrow> 'n \<Rightarrow> bool" where
  "IsMap Y n \<longleftrightarrow> y_Type Y n = NMap"

lemmas type_tests = IsDefined_def IsScalar_def IsSequence_def IsMap_def

text \<open>Building a sequence and a map, starting from the null node.\<close>

definition seq_node :: "'n yaml \<Rightarrow> 'n list \<Rightarrow> 'n" where
  "seq_node Y ns = foldl (\<lambda>acc n. y_push Y acc n) (y_null Y) ns"

definition map_node :: "'n yaml \<Rightarrow> (string \<times> 'n) list \<Rightarrow> 'n" where
  "map_node Y kvs = foldl (\<lambda>acc (k, n). y_set Y k n acc) (y_null Y) kvs"

text \<open>The documents: what parsing returns, and what the code builds from strings and documents.\<close>

inductive doc :: "'n yaml \<Rightarrow> 'n \<Rightarrow> bool" for Y :: "'n yaml" where
  doc_load: "y_Load Y s = Inr n \<Longrightarrow> doc Y n"
| doc_null: "doc Y (y_null Y)"
| doc_of: "doc Y (y_of Y s)"
| doc_seq: "(\<forall>n \<in> set ns. doc Y n) \<Longrightarrow> doc Y (seq_node Y ns)"
| doc_map: "distinct (map fst kvs) \<Longrightarrow> (\<forall>(k, n) \<in> set kvs. doc Y n) \<Longrightarrow> doc Y (map_node Y kvs)"

text \<open>
  What the code relies on: parsing an emitted document gives the document back; a node from a string
  is a scalar with that text; pushed elements are read back in order; keys set once each are read
  back, other keys are undefined, and iteration follows the order of insertion.
\<close>

locale yaml_laws =
  fixes Y :: "'n yaml"
  assumes load_emit: "doc Y n \<Longrightarrow> y_Load Y (y_Emit Y n) = Inr n"
    and scalar_type: "y_Type Y (y_of Y s) = NScalar"
    and scalar_text: "y_Scalar Y (y_of Y s) = s"
    and null_type: "y_Type Y (y_null Y) = NNull"
    and seq_size: "y_size Y (seq_node Y ns) = length ns"
    and seq_at: "i < length ns \<Longrightarrow> y_at Y (seq_node Y ns) i = ns ! i"
    and seq_type: "ns \<noteq> [] \<Longrightarrow> y_Type Y (seq_node Y ns) = NSequence"
    and set_at_end: "y_set_at Y (length ns) n (seq_node Y ns) = seq_node Y (ns @ [n])"
    and map_type: "kvs \<noteq> [] \<Longrightarrow> y_Type Y (map_node Y kvs) = NMap"
    and map_get: "distinct (map fst kvs) \<Longrightarrow> map_of kvs k = Some n \<Longrightarrow> y_get Y (map_node Y kvs) k = Inr n"
    and map_get_other: "distinct (map fst kvs) \<Longrightarrow> map_of kvs k = None \<Longrightarrow>
      \<exists>n. y_get Y (map_node Y kvs) k = Inr n \<and> y_Type Y n = NUndefined"
    and map_entries: "distinct (map fst kvs) \<Longrightarrow> y_entries Y (map_node Y kvs) = Inr kvs"
begin

lemma seq_read: "map (y_at Y (seq_node Y ns)) [0..<y_size Y (seq_node Y ns)] = ns"
  by (rule nth_equalityI) (simp_all add: seq_size seq_at)

end

lemma seq_node_snoc: "seq_node Y (ns @ [n]) = y_push Y (seq_node Y ns) n"
  by (simp add: seq_node_def)

lemma map_node_snoc: "map_node Y (kvs @ [(k, n)]) = y_set Y k n (map_node Y kvs)"
  by (simp add: map_node_def)

end
