(* ===== verification/Config_Registry.thy ===== *)
theory Config_Registry
  imports Config_Var Yaml_Api
begin

text \<open>
  The class \<open>Config\<close> of \<^verbatim>\<open>sylar/config.h\<close> and \<^verbatim>\<open>sylar/config.cc\<close>: the registry of variables by
  name, both \<open>Lookup\<close> templates, \<open>LookupBase\<close>, \<open>Visit\<close>, and loading a YAML document. Variables are
  shared by pointer, so they live in a store; \<open>cfg_fun_id\<close> is the counter of \<open>addListener\<close>, one
  for each type. Change callbacks act on the world \<open>'w\<close> and not on the
  registry.
\<close>

subsection \<open>Data and operations\<close>

record ('v, 'w) config =
  cfg_vars :: "nat \<Rightarrow> ('v, 'w) config_var option"
  cfg_next :: nat
  cfg_datas :: "string \<Rightarrow> nat option"
  cfg_fun_id :: "string \<Rightarrow> 64 word"

definition no_config :: "('v, 'w) config" where
  "no_config = \<lparr>cfg_vars = Map.empty, cfg_next = 0, cfg_datas = Map.empty,
     cfg_fun_id = (\<lambda>_. 0)\<rparr>"

definition config_chars :: string where
  "config_chars = ''abcdefghijklmnopqrstuvwxyz._0123456789''"

definition upd_var :: "nat \<Rightarrow> ('v, 'w) config_var \<Rightarrow> ('v, 'w) config \<Rightarrow> ('v, 'w) config" where
  "upd_var p var c = c\<lparr>cfg_vars := (cfg_vars c)(p \<mapsto> var)\<rparr>"

abbreviation dangling :: exn where
  "dangling \<equiv> UndefinedBehaviour ''dangling pointer''"

text \<open>\<open>Lookup<T>(name)\<close>: the dynamic cast succeeds for a variable of the same type.\<close>

definition Config_Lookup ::
    "'w diag_env \<Rightarrow> 'v config_type \<Rightarrow> string \<Rightarrow> ('v, 'w) config \<Rightarrow> 'w \<Rightarrow> nat option res \<times> 'w" where
  "Config_Lookup R T name c w =
     (case cfg_datas c name of
        None \<Rightarrow> (Inr None, w)
      | Some p \<Rightarrow>
          (case cfg_vars c p of
             None \<Rightarrow> (Inl dangling, w)
           | Some var \<Rightarrow>
               if ty_name (cv_type var) = ty_name T then (Inr (Some p), w)
               else if \<not> log_enabled R w then (Inr None, w)
               else case ConfigVar_toString R var w of
                 (Inl e, w') \<Rightarrow> (Inl e, w')
               | (Inr s, w') \<Rightarrow>
                   (Inr None, log_put R (''Lookup name='' @ name @ '',type='' @ ty_name T @
                      '' not correct, real type='' @ ConfigVar_getTypeName var @ '', value='' @ s) w')))"

text \<open>\<open>Lookup<T>(name, default_value, description)\<close>\<close>

definition Config_Lookup_default ::
    "'w diag_env \<Rightarrow> 'v config_type \<Rightarrow> string \<Rightarrow> 'v \<Rightarrow> string \<Rightarrow> ('v, 'w) config \<Rightarrow> 'w \<Rightarrow>
       nat res \<times> ('v, 'w) config \<times> 'w" where
  "Config_Lookup_default R T name default_value description c w =
     (case Config_Lookup R T name c w of
        (Inl e, w') \<Rightarrow> (Inl e, c, w')
      | (Inr (Some p), w') \<Rightarrow> (Inr p, c, log_error R (''Lookup name='' @ name @ '' exists'') w')
      | (Inr None, w') \<Rightarrow>
          if \<not> all_in config_chars name
          then (Inl (StdException name), c, log_error R (''Lookup name invalid: '' @ name) w')
          else (Inr (cfg_next c),
            c\<lparr>cfg_vars := (cfg_vars c)(cfg_next c \<mapsto> ConfigVar_new T name default_value description),
              cfg_next := Suc (cfg_next c),
              cfg_datas := (cfg_datas c)(name \<mapsto> cfg_next c)\<rparr>, w'))"

definition Config_LookupBase :: "string \<Rightarrow> ('v, 'w) config \<Rightarrow> nat option" where
  "Config_LookupBase name c = cfg_datas c name"

text \<open>\<open>Visit\<close>: \<open>order\<close> lists the names in the iteration order of the map.\<close>

fun Config_Visit ::
    "(nat \<Rightarrow> ('v, 'w) config \<times> 'w \<Rightarrow> exn option \<times> ('v, 'w) config \<times> 'w) \<Rightarrow> string list \<Rightarrow>
       ('v, 'w) config \<times> 'w \<Rightarrow> exn option \<times> ('v, 'w) config \<times> 'w" where
  "Config_Visit cb [] s = (None, s)"
| "Config_Visit cb (name # order) s =
     (case cfg_datas (fst s) name of
        None \<Rightarrow> Config_Visit cb order s
      | Some p \<Rightarrow>
          (case cb p s of
             (Some e, s') \<Rightarrow> (Some e, s')
           | (None, s') \<Rightarrow> Config_Visit cb order s'))"

text \<open>
  \<open>ListAllMember\<close>, with the depth of the recursion as fuel and the loop over the entries of a map
  as \<open>ListEntries\<close>. Running out of fuel is \<open>None\<close>.
\<close>

definition extend_prefix :: "string \<Rightarrow> string \<Rightarrow> string" where
  "extend_prefix prefix k = (if prefix = [] then k else prefix @ ''.'' @ k)"

fun ListAllMember :: "'w diag_env \<Rightarrow> 'n yaml \<Rightarrow> nat \<Rightarrow> string \<Rightarrow> 'n \<Rightarrow> (string \<times> 'n) list \<Rightarrow> 'w \<Rightarrow>
      ((string \<times> 'n) list res \<times> 'w) option"
  and ListEntries :: "'w diag_env \<Rightarrow> 'n yaml \<Rightarrow> nat \<Rightarrow> string \<Rightarrow> (string \<times> 'n) list \<Rightarrow> (string \<times> 'n) list \<Rightarrow> 'w \<Rightarrow>
      ((string \<times> 'n) list res \<times> 'w) option" where
  "ListAllMember R Y 0 prefix node output w = None"
| "ListAllMember R Y (Suc fuel) prefix node output w =
     (if \<not> all_in config_chars prefix
      then Some (Inr output, log_error R (''Config invalid name: '' @ prefix @ '' : '' @ y_Emit Y node) w)
      else if IsMap Y node
      then (case y_entries Y node of
              Inl e \<Rightarrow> Some (Inl e, w)
            | Inr kvs \<Rightarrow> ListEntries R Y fuel prefix kvs (output @ [(prefix, node)]) w)
      else Some (Inr (output @ [(prefix, node)]), w))"
| "ListEntries R Y fuel prefix [] output w = Some (Inr output, w)"
| "ListEntries R Y fuel prefix ((k, n) # kvs) output w =
     (case ListAllMember R Y fuel (extend_prefix prefix k) n output w of
        None \<Rightarrow> None
      | Some (Inl e, w') \<Rightarrow> Some (Inl e, w')
      | Some (Inr output', w') \<Rightarrow> ListEntries R Y fuel prefix kvs output' w')"

text \<open>The text a node is loaded from, and the loop of \<open>LoadFromYaml\<close>.\<close>

definition node_text :: "'n yaml \<Rightarrow> 'n \<Rightarrow> string" where
  "node_text Y n = (if IsScalar Y n then y_Scalar Y n else y_Emit Y n)"

fun load_nodes :: "'w diag_env \<Rightarrow> 'n yaml \<Rightarrow> (string \<times> 'n) list \<Rightarrow> ('v, 'w) config \<Rightarrow> 'w \<Rightarrow>
    exn option \<times> ('v, 'w) config \<times> 'w" where
  "load_nodes R Y [] c w = (None, c, w)"
| "load_nodes R Y ((key, node) # ns) c w =
     (if key = [] then load_nodes R Y ns c w
      else case Config_LookupBase (map tolower key) c of
        None \<Rightarrow> load_nodes R Y ns c w
      | Some p \<Rightarrow>
          (case cfg_vars c p of
             None \<Rightarrow> (Some dangling, c, w)
           | Some var \<Rightarrow>
               (case ConfigVar_fromString R (node_text Y node) var w of
                  (Inl e, var', w') \<Rightarrow> (Some e, upd_var p var' c, w')
                | (Inr _, var', w') \<Rightarrow> load_nodes R Y ns (upd_var p var' c) w')))"

definition Config_LoadFromYaml :: "'w diag_env \<Rightarrow> 'n yaml \<Rightarrow> nat \<Rightarrow> 'n \<Rightarrow> ('v, 'w) config \<Rightarrow> 'w \<Rightarrow>
    (exn option \<times> ('v, 'w) config \<times> 'w) option" where
  "Config_LoadFromYaml R Y fuel root c w =
     (case ListAllMember R Y fuel [] root [] w of
        None \<Rightarrow> None
      | Some (Inl e, w') \<Rightarrow> Some (Some e, c, w')
      | Some (Inr all_nodes, w') \<Rightarrow> Some (load_nodes R Y all_nodes c w'))"

end
