(* ===== verification/Config_Props.thy ===== *)
theory Config_Props
  imports Config_Registry
begin

text \<open>
  The well-formedness of the registry with its preservation by every operation, the specification
  of \<open>ListAllMember\<close>, and what looking up, setting and loading variables guarantee.
\<close>

subsection \<open>Registry invariant\<close>

text \<open>
  Every registered name is valid and leads to a live variable of that name; every live variable
  has its listeners ordered, with keys its counter has handed out.
\<close>

definition wf_datas :: "('v, 'w) config \<Rightarrow> bool" where
  "wf_datas c \<longleftrightarrow> (\<forall>name p. cfg_datas c name = Some p \<longrightarrow>
     all_in config_chars name \<and> (\<exists>var. cfg_vars c p = Some var \<and> cv_name var = name))"

definition wf_vars :: "('v, 'w) config \<Rightarrow> bool" where
  "wf_vars c \<longleftrightarrow> (\<forall>p var. cfg_vars c p = Some var \<longrightarrow>
     p < cfg_next c \<and> wf_var (cfg_fun_id c (ty_name (cv_type var))) var)"

definition wf_config :: "('v, 'w) config \<Rightarrow> bool" where
  "wf_config c \<longleftrightarrow> wf_datas c \<and> wf_vars c"

lemma wf_config_lookup:
  assumes "wf_config c" and "cfg_datas c name = Some p"
  obtains var where "cfg_vars c p = Some var" and "cv_name var = name"
  using assms by (auto simp: wf_config_def wf_datas_def)

lemma wf_config_name: "wf_config c \<Longrightarrow> cfg_datas c name = Some p \<Longrightarrow> all_in config_chars name"
  by (auto simp: wf_config_def wf_datas_def)

lemma wf_config_inj: "wf_config c \<Longrightarrow> cfg_datas c name = Some p \<Longrightarrow> cfg_datas c name' = Some p \<Longrightarrow> name' = name"
  by (metis wf_config_lookup option.inject)

lemma wf_config_var: "wf_config c \<Longrightarrow> cfg_vars c p = Some var \<Longrightarrow> wf_var (cfg_fun_id c (ty_name (cv_type var))) var"
  by (simp add: wf_config_def wf_vars_def)

lemma config_chars_lower: "all_in config_chars s \<Longrightarrow> map tolower s = s"
proof (induction s)
  case (Cons ch s)
  then have "ch \<in> set config_chars" by simp
  then have "tolower ch = ch" by (auto simp: config_chars_def tolower_def is_upper_def)
  with Cons show ?case by simp
qed simp

text \<open>Replacing a live variable by one with the same name and type keeps the invariant.\<close>

lemma wf_upd_var:
  assumes "wf_config c" and "cfg_vars c p = Some var"
    and "cv_name var' = cv_name var" and "cv_type var' = cv_type var"
    and "wf_var (cfg_fun_id c (ty_name (cv_type var))) var'"
  shows "wf_config (upd_var p var' c)"
  using assms by (fastforce simp: wf_config_def wf_datas_def wf_vars_def upd_var_def)

lemma wf_upd_val:
  assumes "wf_config c" and "cfg_vars c p = Some var"
  shows "wf_config (upd_var p (var\<lparr>cv_val := v\<rparr>) c)"
  using assms wf_config_var [OF assms] by (intro wf_upd_var) (auto simp: wf_var_def)

lemma wf_no_config: "wf_config no_config"
  by (simp add: wf_config_def wf_datas_def wf_vars_def no_config_def)

lemma wf_Lookup_default:
  assumes "wf_config c" and "Config_Lookup_default R T name d desc c w = (r, c', w')"
  shows "wf_config c'"
proof -
  consider "c' = c" | "all_in config_chars name"
      "c' = c\<lparr>cfg_vars := (cfg_vars c)(cfg_next c \<mapsto> ConfigVar_new T name d desc),
              cfg_next := Suc (cfg_next c), cfg_datas := (cfg_datas c)(name \<mapsto> cfg_next c)\<rparr>"
    using assms(2) by (auto simp: Config_Lookup_default_def split: prod.splits sum.splits option.splits if_splits)
  then show ?thesis
  proof cases
    case 2
    have "cv_name (ConfigVar_new T name d desc) = name"
      using config_chars_lower [OF 2(1)] by (simp add: ConfigVar_new_def)
    with assms(1) 2 show ?thesis
      by (fastforce simp: wf_config_def wf_datas_def wf_vars_def wf_var_new)
  qed (use assms in simp)
qed

lemma wf_load_nodes:
  assumes "wf_config c" and "load_nodes R Y ns c w = (r, c', w')"
  shows "wf_config c'"
  using assms
proof (induction ns arbitrary: c w)
  case (Cons e ns)
  obtain key node where e: "e = (key, node)" by (cases e)
  show ?case
  proof (cases "key = [] \<or> cfg_datas c (map tolower key) = None")
    case True
    then have "load_nodes R Y (e # ns) c w = load_nodes R Y ns c w" by (auto simp: e Config_LookupBase_def)
    with Cons show ?thesis by simp
  next
    case False
    then obtain p where p: "cfg_datas c (map tolower key) = Some p" by auto
    obtain var where var: "cfg_vars c p = Some var" using wf_config_lookup [OF Cons.prems(1) p] by blast
    obtain r1 var1 w1 where f: "ConfigVar_fromString R (node_text Y node) var w = (r1, var1, w1)"
      by (metis prod_cases3)
    then obtain v where "var1 = var\<lparr>cv_val := v\<rparr>" using fromString_frame [OF f] by blast
    then have "wf_config (upd_var p var1 c)" using wf_upd_val [OF Cons.prems(1) var] by simp
    with Cons.prems(2) False p var f show ?thesis
      by (cases r1) (auto simp: e Config_LookupBase_def intro: Cons.IH)
  qed
qed simp

lemma wf_LoadFromYaml:
  assumes "wf_config c" and "Config_LoadFromYaml R Y fuel root c w = Some (r, c', w')"
  shows "wf_config c'"
  using assms by (auto simp: Config_LoadFromYaml_def intro: wf_load_nodes split: option.splits sum.splits prod.splits)

subsection \<open>Histories of the registry\<close>

text \<open>
  The calls a program can make: looking variables up, and through the pointers returned setting
  values, changing listeners, and loading documents. \<open>addListener\<close> is taken before its counter
  has run through all 64 bits.
\<close>

inductive config_step :: "'w diag_env \<Rightarrow> 'n yaml \<Rightarrow> ('v, 'w) config \<times> 'w \<Rightarrow> ('v, 'w) config \<times> 'w \<Rightarrow> bool"
  for R :: "'w diag_env" and Y :: "'n yaml" where
  step_lookup: "Config_Lookup_default R T name d desc c w = (r, c', w') \<Longrightarrow> config_step R Y (c, w) (c', w')"
| step_set: "cfg_vars c p = Some var \<Longrightarrow> ConfigVar_setValue v var w = (r, var', w') \<Longrightarrow>
    config_step R Y (c, w) (upd_var p var' c, w')"
| step_from: "cfg_vars c p = Some var \<Longrightarrow> ConfigVar_fromString R s var w = (r, var', w') \<Longrightarrow>
    config_step R Y (c, w) (upd_var p var' c, w')"
| step_add: "cfg_vars c p = Some var \<Longrightarrow> cfg_fun_id c (ty_name (cv_type var)) \<noteq> - 1 \<Longrightarrow>
    ConfigVar_addListener cb (cfg_fun_id c (ty_name (cv_type var))) var = (k, k', var') \<Longrightarrow>
    config_step R Y (c, w)
      ((upd_var p var' c)\<lparr>cfg_fun_id := (cfg_fun_id c)(ty_name (cv_type var) := k')\<rparr>, w)"
| step_del: "cfg_vars c p = Some var \<Longrightarrow> config_step R Y (c, w) (upd_var p (ConfigVar_delListener k var) c, w)"
| step_clear: "cfg_vars c p = Some var \<Longrightarrow> config_step R Y (c, w) (upd_var p (ConfigVar_clearListener var) c, w)"
| step_load: "Config_LoadFromYaml R Y fuel root c w = Some (r, c', w') \<Longrightarrow> config_step R Y (c, w) (c', w')"

lemma wf_add_step:
  assumes wf: "wf_config c" and var: "cfg_vars c p = Some var"
    and k: "cfg_fun_id c (ty_name (cv_type var)) \<noteq> - 1"
    and add: "ConfigVar_addListener cb (cfg_fun_id c (ty_name (cv_type var))) var = (k, k', var')"
  shows "wf_config ((upd_var p var' c)\<lparr>cfg_fun_id := (cfg_fun_id c)(ty_name (cv_type var) := k')\<rparr>)"
proof -
  let ?s = "cfg_fun_id c (ty_name (cv_type var))"
  have new: "wf_var k' var'" using wf_var_addListener [OF wf_config_var [OF wf var] k add] .
  have k': "k' = ?s + 1" "cv_name var' = cv_name var" "cv_type var' = cv_type var"
    using add by (auto simp: ConfigVar_addListener_def Let_def)
  have old: "wf_var (?s + 1) v" if "cfg_vars c q = Some v" "ty_name (cv_type v) = ty_name (cv_type var)" for q v
    using wf_var_mono [OF wf_config_var [OF wf that(1)], of "?s + 1"] that(2) word_inc_greater [OF k] by simp
  show ?thesis
    using wf var new k' old by (fastforce simp: wf_config_def wf_datas_def wf_vars_def upd_var_def)
qed

interpretation config_sys: invariant_system "\<lambda>s. fst s = no_config" "config_step R Y" "\<lambda>s. wf_config (fst s)"
  for R :: "'w diag_env" and Y :: "'n yaml"
proof unfold_locales
  fix s t :: "('v, 'w) config \<times> 'w"
  assume wf: "wf_config (fst s)" and step: "config_step R Y s t"
  from step show "wf_config (fst t)"
  proof cases
    case step_lookup
    with wf show ?thesis by (auto intro: wf_Lookup_default)
  next
    case (step_set c p var v w r var' w')
    then obtain v' where "var' = var\<lparr>cv_val := v'\<rparr>"
      using setValue_frame [OF step_set(4)] by (cases "r = None") (auto intro: that [of "cv_val var"])
    with wf step_set show ?thesis by (auto intro: wf_upd_val)
  next
    case (step_from c p var s w r var' w')
    with wf show ?thesis using fromString_frame [OF step_from(4)] by (auto intro: wf_upd_val)
  next
    case step_add
    with wf show ?thesis by (auto intro: wf_add_step)
  next
    case (step_del c p var w k)
    with wf wf_config_var show ?thesis
      by (fastforce simp: ConfigVar_delListener_def intro: wf_upd_var
          wf_var_delListener [unfolded ConfigVar_delListener_def])
  next
    case (step_clear c p var w)
    with wf wf_config_var show ?thesis
      by (fastforce simp: ConfigVar_clearListener_def intro: wf_upd_var
          wf_var_clearListener [unfolded ConfigVar_clearListener_def])
  next
    case step_load
    with wf show ?thesis by (auto intro: wf_LoadFromYaml)
  qed
qed (simp add: wf_no_config)

subsection \<open>Enumerating a document\<close>

text \<open>The members of a document: the dotted paths whose every prefix is a valid name.\<close>

inductive member :: "'n yaml \<Rightarrow> string \<Rightarrow> 'n \<Rightarrow> string \<Rightarrow> 'n \<Rightarrow> bool" for Y :: "'n yaml" where
  member_here: "all_in config_chars prefix \<Longrightarrow> member Y prefix node prefix node"
| member_below: "all_in config_chars prefix \<Longrightarrow> IsMap Y node \<Longrightarrow> y_entries Y node = Inr kvs \<Longrightarrow>
    (k, n) \<in> set kvs \<Longrightarrow> member Y (extend_prefix prefix k) n path m \<Longrightarrow> member Y prefix node path m"

inductive_cases member_elim: "member Y prefix node path m"

lemma member_valid: "member Y prefix node path m \<Longrightarrow> all_in config_chars path"
  by (induction rule: member.induct) simp_all

lemma member_map:
  assumes "all_in config_chars prefix" and "IsMap Y node" and "y_entries Y node = Inr kvs"
  shows "{(q, m). member Y prefix node q m} =
    insert (prefix, node) {(q, m). \<exists>(k, n) \<in> set kvs. member Y (extend_prefix prefix k) n q m}"
proof (intro equalityI subsetI)
  fix e
  assume "e \<in> {(q, m). member Y prefix node q m}"
  then show "e \<in> insert (prefix, node) {(q, m). \<exists>(k, n) \<in> set kvs. member Y (extend_prefix prefix k) n q m}"
    using assms by (force elim: member_elim)
qed (use assms in \<open>auto intro: member_here member_below\<close>)

lemma member_leaf:
  assumes "all_in config_chars prefix" and "\<not> IsMap Y node"
  shows "{(q, m). member Y prefix node q m} = {(prefix, node)}"
  using assms by (auto intro: member_here elim: member_elim)

lemma member_invalid: "\<not> all_in config_chars prefix \<Longrightarrow> {(q, m). member Y prefix node q m} = {}"
  by (auto elim: member_elim)

text \<open>The nesting of maps is less than \<open>n\<close> deep and every map can be iterated.\<close>

fun nested_below :: "'n yaml \<Rightarrow> nat \<Rightarrow> 'n \<Rightarrow> bool" where
  "nested_below Y 0 node = False"
| "nested_below Y (Suc n) node \<longleftrightarrow>
     (IsMap Y node \<longrightarrow> (case y_entries Y node of Inl _ \<Rightarrow> False | Inr kvs \<Rightarrow> \<forall>e \<in> set kvs. nested_below Y n (snd e)))"

lemma ListAllMember_result:
  "nested_below Y fuel node \<Longrightarrow> \<exists>new w'. ListAllMember R Y fuel prefix node output w = Some (Inr (output @ new), w') \<and>
     set new = {(q, m). member Y prefix node q m}"
  "\<forall>e \<in> set kvs. nested_below Y fuel (snd e) \<Longrightarrow>
     \<exists>new w'. ListEntries R Y fuel prefix kvs output w = Some (Inr (output @ new), w') \<and>
     set new = {(q, m). \<exists>(k, n) \<in> set kvs. member Y (extend_prefix prefix k) n q m}"
proof (induction R Y fuel prefix node "output" w and R Y fuel prefix kvs "output" w rule: ListAllMember_ListEntries.induct)
  case (2 R Y fuel prefix node out w)
  show ?case
  proof (cases "all_in config_chars prefix \<and> IsMap Y node")
    case True
    with 2(2) obtain kvs where kvs: "y_entries Y node = Inr kvs" "\<forall>e \<in> set kvs. nested_below Y fuel (snd e)"
      by (auto split: sum.splits)
    from 2(1) [OF _ _ kvs] True obtain new w' where
      "ListEntries R Y fuel prefix kvs (out @ [(prefix, node)]) w = Some (Inr ((out @ [(prefix, node)]) @ new), w')"
      "set new = {(q, m). \<exists>(k, n) \<in> set kvs. member Y (extend_prefix prefix k) n q m}"
      by blast
    with True kvs(1) show ?thesis by (auto simp: member_map)
  qed (auto simp: member_leaf member_invalid)
next
  case (4 R Y fuel prefix k n kvs out w)
  from 4(1) 4(3) obtain new w' where a:
    "ListAllMember R Y fuel (extend_prefix prefix k) n out w = Some (Inr (out @ new), w')"
    "set new = {(q, m). member Y (extend_prefix prefix k) n q m}" by auto
  from 4(2) [OF a(1) refl refl] 4(3) obtain new' w'' where b:
    "ListEntries R Y fuel prefix kvs (out @ new) w' = Some (Inr ((out @ new) @ new'), w'')"
    "set new' = {(q, m). \<exists>(k, n) \<in> set kvs. member Y (extend_prefix prefix k) n q m}" by auto
  have "set (new @ new') = {(q, m). \<exists>(k, n) \<in> set ((k, n) # kvs). member Y (extend_prefix prefix k) n q m}"
    using a(2) b(2) by auto
  with a(1) b(1) show ?case by (intro exI [of _ "new @ new'"] exI [of _ w'']) simp
qed simp_all

subsection \<open>Loading\<close>

text \<open>What loading the listed nodes does to a variable that no listener makes fail.\<close>

definition no_throw :: "('v, 'w) config_var \<Rightarrow> bool" where
  "no_throw var \<longleftrightarrow> (\<forall>(k, cb) \<in> set (cv_cbs var). \<forall>old new w. fst (cb old new w) = None)"

definition loaded_value :: "'n yaml \<Rightarrow> 'v config_type \<Rightarrow> string \<Rightarrow> (string \<times> 'n) list \<Rightarrow> 'v \<Rightarrow> 'v" where
  "loaded_value Y T name ns v = fold (\<lambda>(key, n) v. if key = name
     then (case fst (FromStr T (node_text Y n)) of Inr v' \<Rightarrow> v' | Inl _ \<Rightarrow> v) else v) ns v"

lemma notify_no_throw:
  "\<forall>(k, cb) \<in> set cbs. \<forall>old new w. fst (cb old new w) = None \<Longrightarrow> fst (notify cbs old new w) = None"
proof (induction cbs arbitrary: w)
  case (Cons e cbs)
  obtain k cb where e: "e = (k, cb)" by (cases e)
  with Cons.prems have "fst (cb old new w) = None" by auto
  then obtain w' where "cb old new w = (None, w')" by (metis prod.collapse)
  with Cons show ?case by (simp add: e)
qed simp

lemma fromString_no_throw:
  assumes "no_throw var" and "ConfigVar_fromString R s var w = (r, var', w')"
  shows "var' = var\<lparr>cv_val := (case fst (FromStr (cv_type var) s) of Inr v \<Rightarrow> v | Inl _ \<Rightarrow> cv_val var)\<rparr>"
proof -
  obtain parsed out where f: "FromStr (cv_type var) s = (parsed, out)" by fastforce
  show ?thesis
  proof (cases parsed)
    case (Inl e)
    with assms f show ?thesis by (cases e) (auto simp: ConfigVar_fromString_def Let_def)
  next
    case (Inr v)
    let ?w = "put_cout R out w"
    obtain w1 where n: "notify (cv_cbs var) (cv_val var) v ?w = (None, w1)"
      using notify_no_throw [OF assms(1) [unfolded no_throw_def], of "cv_val var" v ?w]
      by (cases "notify (cv_cbs var) (cv_val var) v ?w") simp
    with assms f Inr show ?thesis
      by (auto simp: ConfigVar_fromString_def ConfigVar_setValue_def Let_def split: if_splits)
  qed
qed

lemma load_nodes_skip:
  "key = [] \<or> cfg_datas c (map tolower key) = None \<Longrightarrow>
     load_nodes R Y ((key, n) # ns) c w = load_nodes R Y ns c w"
  by (auto simp: Config_LookupBase_def)

lemma load_nodes_hit:
  "key \<noteq> [] \<Longrightarrow> cfg_datas c (map tolower key) = Some q \<Longrightarrow> cfg_vars c q = Some var \<Longrightarrow>
     ConfigVar_fromString R (node_text Y n) var w = (r, var', w') \<Longrightarrow>
     load_nodes R Y ((key, n) # ns) c w =
       (case r of Inl e \<Rightarrow> (Some e, upd_var q var' c, w') | Inr _ \<Rightarrow> load_nodes R Y ns (upd_var q var' c) w')"
  by (auto simp: Config_LookupBase_def split: sum.splits)

lemma load_nodes_datas:
  "load_nodes R Y ns c w = (r, c', w') \<Longrightarrow> cfg_datas c' = cfg_datas c"
  by (induction R Y ns c w rule: load_nodes.induct)
    (auto simp: upd_var_def split: if_splits option.splits prod.splits sum.splits)

text \<open>What becomes of one registered variable.\<close>

definition load_outcome ::
    "'n yaml \<Rightarrow> (string \<times> 'n) list \<Rightarrow> exn option \<Rightarrow> string \<Rightarrow> ('v, 'w) config_var \<Rightarrow> 'v \<Rightarrow> bool" where
  "load_outcome Y ns r name var v \<longleftrightarrow>
     (name \<notin> fst ` set ns \<or> name = [] \<longrightarrow> v = cv_val var) \<and>
     (no_throw var \<and> r = None \<and> name \<noteq> [] \<longrightarrow> v = loaded_value Y (cv_type var) name ns (cv_val var))"

lemma load_nodes_var:
  assumes "wf_config c" and "\<forall>e \<in> set ns. all_in config_chars (fst e)"
    and "load_nodes R Y ns c w = (r, c', w')"
    and "cfg_datas c name = Some p" and "cfg_vars c p = Some var"
  shows "\<exists>v. cfg_vars c' p = Some (var\<lparr>cv_val := v\<rparr>) \<and> load_outcome Y ns r name var v"
  using assms
proof (induction ns arbitrary: c w var)
  case Nil
  then show ?case by (intro exI [of _ "cv_val var"]) (simp add: load_outcome_def loaded_value_def)
next
  case (Cons e ns)
  obtain key n where e: "e = (key, n)" by (cases e)
  have low: "map tolower key = key" using Cons.prems(2) config_chars_lower by (simp add: e)
  show ?case
  proof (cases "key = [] \<or> cfg_datas c key = None")
    case True
    then have "load_nodes R Y ns c w = (r, c', w')"
      using Cons.prems(3) load_nodes_skip [of key c R Y n ns w] low by (simp add: e)
    from Cons.IH [OF Cons.prems(1) _ this Cons.prems(4,5)] Cons.prems(2) obtain v where
      "cfg_vars c' p = Some (var\<lparr>cv_val := v\<rparr>)" "load_outcome Y ns r name var v" by auto
    moreover have "name \<noteq> key \<or> name = []" using True Cons.prems(4) by auto
    ultimately show ?thesis
      by (intro exI [of _ v]) (auto simp: e load_outcome_def loaded_value_def)
  next
    case False
    then obtain q where q: "cfg_datas c key = Some q" "key \<noteq> []" by auto
    obtain var2 where var2: "cfg_vars c q = Some var2" using wf_config_lookup [OF Cons.prems(1) q(1)] by blast
    obtain r1 var1 w1 where f: "ConfigVar_fromString R (node_text Y n) var2 w = (r1, var1, w1)"
      by (metis prod_cases3)
    let ?c1 = "upd_var q var1 c"
    obtain v1 where v1: "var1 = var2\<lparr>cv_val := v1\<rparr>" using fromString_frame [OF f] by blast
    have wf1: "wf_config ?c1" using wf_upd_val [OF Cons.prems(1) var2] v1 by simp
    have same: "q = p \<longleftrightarrow> key = name"
    proof
      assume "q = p"
      then show "key = name" using wf_config_inj [OF Cons.prems(1) Cons.prems(4), of key] q(1) by blast
    qed (use Cons.prems(4) q(1) in simp)
    let ?v = "if key = name then v1 else cv_val var"
    have vars: "cfg_vars ?c1 p = Some (var\<lparr>cv_val := ?v\<rparr>)" and datas: "cfg_datas ?c1 name = Some p"
      using Cons.prems(4,5) var2 same v1 by (auto simp: upd_var_def)
    have eq: "load_nodes R Y (e # ns) c w =
        (case r1 of Inl x \<Rightarrow> (Some x, ?c1, w1) | Inr _ \<Rightarrow> load_nodes R Y ns ?c1 w1)"
      unfolding e using q var2 f low by (intro load_nodes_hit) simp_all
    have hit: "key = name \<Longrightarrow> no_throw var \<Longrightarrow>
        v1 = (case fst (FromStr (cv_type var) (node_text Y n)) of Inr v \<Rightarrow> v | Inl _ \<Rightarrow> cv_val var)"
      using fromString_no_throw [OF _ f] same var2 Cons.prems(5) v1 by (auto dest: arg_cong [of _ _ cv_val])
    show ?thesis
    proof (cases r1)
      case (Inl x)
      with eq Cons.prems(3) vars show ?thesis
        by (intro exI [of _ ?v]) (auto simp: load_outcome_def e q(2))
    next
      case (Inr b)
      with eq Cons.prems(3) have "load_nodes R Y ns ?c1 w1 = (r, c', w')" by simp
      from Cons.IH [OF wf1 _ this datas vars] Cons.prems(2) obtain v where
        "cfg_vars c' p = Some (var\<lparr>cv_val := v\<rparr>)" "load_outcome Y ns r name (var\<lparr>cv_val := ?v\<rparr>) v" by auto
      with hit q(2) show ?thesis
        by (intro exI [of _ v]) (auto simp: e load_outcome_def loaded_value_def no_throw_def)
    qed
  qed
qed

end
