(* ===== verification/Lexical_Cast.thy ===== *)
theory Lexical_Cast
  imports Yaml_Api
begin

text \<open>
  The \<open>LexicalCast\<close> templates of \<^verbatim>\<open>sylar/config.h\<close>: conversions between text and
  \<open>std::vector\<close>, \<open>std::list\<close>, \<open>std::set\<close>, \<open>std::unordered_set\<close>, \<open>std::map\<close> and \<open>std::unordered_map\<close>
  of a type with casts \<open>dec\<close> and \<open>enc\<close> of its own. The primary template is
  \<open>boost::lexical_cast\<close>, so at the leaves the casts are parameters. An unordered container is the
  finite set or map it holds; where the code iterates over one, the order is an argument.
\<close>

subsection \<open>The templates\<close>

text \<open>The loop over \<open>node[i]\<close>: each element is emitted again and cast.\<close>

definition cast_elems :: "'n yaml \<Rightarrow> (string \<Rightarrow> 'a wres) \<Rightarrow> 'n \<Rightarrow> 'a list wres" where
  "cast_elems Y dec node = map_w (\<lambda>i. dec (y_Emit Y (y_at Y node i))) [0..<y_size Y node]"

text \<open>The loop that casts each element to text, parses it and appends the node.\<close>

fun push_elems :: "'n yaml \<Rightarrow> ('a \<Rightarrow> string res) \<Rightarrow> 'a list \<Rightarrow> 'n \<Rightarrow> 'n res" where
  "push_elems Y enc [] node = Inr node"
| "push_elems Y enc (x # xs) node =
     bind_res (enc x) (\<lambda>s. bind_res (y_Load Y s) (\<lambda>n. push_elems Y enc xs (y_push Y node n)))"

definition LexicalCast_string_vector :: "'n yaml \<Rightarrow> (string \<Rightarrow> 'a wres) \<Rightarrow> string \<Rightarrow> 'a list wres" where
  "LexicalCast_string_vector Y dec v = bind_w (lift_w (y_Load Y v)) (cast_elems Y dec)"

definition LexicalCast_vector_string :: "'n yaml \<Rightarrow> ('a \<Rightarrow> string res) \<Rightarrow> 'a list \<Rightarrow> string res" where
  "LexicalCast_vector_string Y enc v =
     bind_res (push_elems Y enc v (y_null Y)) (\<lambda>node. Inr (y_Emit Y node))"

definition LexicalCast_string_list :: "'n yaml \<Rightarrow> (string \<Rightarrow> 'a wres) \<Rightarrow> string \<Rightarrow> 'a list wres" where
  "LexicalCast_string_list Y dec v = bind_w (lift_w (y_Load Y v)) (cast_elems Y dec)"

definition LexicalCast_list_string :: "'n yaml \<Rightarrow> ('a \<Rightarrow> string res) \<Rightarrow> 'a list \<Rightarrow> string res" where
  "LexicalCast_list_string Y enc v =
     bind_res (push_elems Y enc v (y_null Y)) (\<lambda>node. Inr (y_Emit Y node))"

text \<open>\<open>key\<close> is what the comparison of the element type looks at.\<close>

definition LexicalCast_string_set ::
    "'n yaml \<Rightarrow> ('a \<Rightarrow> 'k::linorder) \<Rightarrow> (string \<Rightarrow> 'a wres) \<Rightarrow> string \<Rightarrow> 'a list wres" where
  "LexicalCast_string_set Y key dec v =
     bind_w (lift_w (y_Load Y v)) (\<lambda>node.
       bind_w (cast_elems Y dec node) (\<lambda>xs. lift_w (Inr (fold (sset_insert key) xs []))))"

definition LexicalCast_set_string :: "'n yaml \<Rightarrow> ('a \<Rightarrow> string res) \<Rightarrow> 'a list \<Rightarrow> string res" where
  "LexicalCast_set_string Y enc v =
     bind_res (push_elems Y enc v (y_null Y)) (\<lambda>node. Inr (y_Emit Y node))"

definition LexicalCast_string_uset :: "'n yaml \<Rightarrow> (string \<Rightarrow> 'a wres) \<Rightarrow> string \<Rightarrow> 'a set wres" where
  "LexicalCast_string_uset Y dec v =
     bind_w (lift_w (y_Load Y v)) (\<lambda>node. bind_w (cast_elems Y dec node) (\<lambda>xs. lift_w (Inr (set xs))))"

text \<open>\<open>order\<close> lists the elements in the iteration order of the container.\<close>

definition LexicalCast_uset_string :: "'n yaml \<Rightarrow> ('a \<Rightarrow> string res) \<Rightarrow> 'a list \<Rightarrow> string res" where
  "LexicalCast_uset_string Y enc order =
     bind_res (push_elems Y enc order (y_null Y)) (\<lambda>node. Inr (y_Emit Y node))"

text \<open>The loop over the pairs of a map; \<open>insert\<close> keeps the value of a key already there.\<close>

fun cast_entries :: "'n yaml \<Rightarrow> (string \<Rightarrow> 'a wres) \<Rightarrow> (string \<Rightarrow> 'a \<Rightarrow> 'm \<Rightarrow> 'm) \<Rightarrow>
    (string \<times> 'n) list \<Rightarrow> 'm \<Rightarrow> 'm wres" where
  "cast_entries Y dec ins [] m = lift_w (Inr m)"
| "cast_entries Y dec ins ((k, n) # kvs) m =
     bind_w (dec (y_Emit Y n)) (\<lambda>x. cast_entries Y dec ins kvs (ins k x m))"

definition smap_insert :: "string \<Rightarrow> 'a \<Rightarrow> (string, 'a) smap \<Rightarrow> (string, 'a) smap" where
  "smap_insert k x m = (case smap_find m k of None \<Rightarrow> smap_set k x m | Some _ \<Rightarrow> m)"

definition umap_insert :: "string \<Rightarrow> 'a \<Rightarrow> (string \<Rightarrow> 'a option) \<Rightarrow> (string \<Rightarrow> 'a option)" where
  "umap_insert k x m = (case m k of None \<Rightarrow> m(k \<mapsto> x) | Some _ \<Rightarrow> m)"

definition LexicalCast_string_map :: "'n yaml \<Rightarrow> (string \<Rightarrow> 'a wres) \<Rightarrow> string \<Rightarrow> (string, 'a) smap wres" where
  "LexicalCast_string_map Y dec v =
     bind_w (lift_w (y_Load Y v)) (\<lambda>node.
       bind_w (lift_w (y_entries Y node)) (\<lambda>kvs. cast_entries Y dec smap_insert kvs []))"

definition LexicalCast_string_umap ::
    "'n yaml \<Rightarrow> (string \<Rightarrow> 'a wres) \<Rightarrow> string \<Rightarrow> (string \<Rightarrow> 'a option) wres" where
  "LexicalCast_string_umap Y dec v =
     bind_w (lift_w (y_Load Y v)) (\<lambda>node.
       bind_w (lift_w (y_entries Y node)) (\<lambda>kvs. cast_entries Y dec umap_insert kvs Map.empty))"

text \<open>The loop \<open>node[i.first] = YAML::Load(...)\<close>.\<close>

fun set_entries :: "'n yaml \<Rightarrow> ('a \<Rightarrow> string res) \<Rightarrow> (string \<times> 'a) list \<Rightarrow> 'n \<Rightarrow> 'n res" where
  "set_entries Y enc [] node = Inr node"
| "set_entries Y enc ((k, x) # m) node =
     bind_res (enc x) (\<lambda>s. bind_res (y_Load Y s) (\<lambda>n. set_entries Y enc m (y_set Y k n node)))"

definition LexicalCast_map_string :: "'n yaml \<Rightarrow> ('a \<Rightarrow> string res) \<Rightarrow> (string, 'a) smap \<Rightarrow> string res" where
  "LexicalCast_map_string Y enc m =
     bind_res (set_entries Y enc m (y_null Y)) (\<lambda>node. Inr (y_Emit Y node))"

definition LexicalCast_umap_string :: "'n yaml \<Rightarrow> ('a \<Rightarrow> string res) \<Rightarrow> (string \<times> 'a) list \<Rightarrow> string res" where
  "LexicalCast_umap_string Y enc order =
     bind_res (set_entries Y enc order (y_null Y)) (\<lambda>node. Inr (y_Emit Y node))"

subsection \<open>Round trips\<close>

lemma smap_fold_insert:
  assumes "smap_inv (acc @ m)"
  shows "fold (\<lambda>(k, x). smap_insert k x) m acc = acc @ m"
  using assms
proof (induction m arbitrary: acc)
  case (Cons e m)
  obtain k x where e: "e = (k, x)" by (cases e)
  have less: "\<forall>k' \<in> fst ` set acc. k' < k"
    using Cons.prems by (auto simp: e smap_inv_def sorted_wrt_append)
  then have "smap_find acc k = None" by (auto simp: smap_find_None)
  then have "smap_insert k x acc = acc @ [(k, x)]"
    using less by (simp add: smap_insert_def smap_set_greatest)
  with Cons.IH [of "acc @ [e]"] Cons.prems show ?case by (simp add: e)
qed simp

lemma umap_fold_insert:
  assumes "distinct (map fst m)" and "\<forall>k \<in> fst ` set m. acc k = None"
  shows "fold (\<lambda>(k, x). umap_insert k x) m acc = acc ++ map_of m"
  using assms
proof (induction m arbitrary: acc)
  case (Cons e m)
  obtain k x where e: "e = (k, x)" by (cases e)
  have "\<forall>k' \<in> fst ` set m. (acc(k \<mapsto> x)) k' = None" using Cons.prems by (auto simp: e)
  then have "fold (\<lambda>(k, x). umap_insert k x) m (acc(k \<mapsto> x)) = acc(k \<mapsto> x) ++ map_of m"
    using Cons by simp
  moreover have "acc(k \<mapsto> x) ++ map_of m = acc ++ map_of (e # m)"
    using Cons.prems(1) map_add_upd_left [of k "map_of m" acc x] by (simp add: e dom_map_of_conv_image_fst)
  moreover have "umap_insert k x acc = acc(k \<mapsto> x)" using Cons.prems(2) by (simp add: e umap_insert_def)
  ultimately show ?case by (simp add: e del: map_of.simps)
qed simp

context yaml_laws
begin

text \<open>Casting the elements of a sequence of nodes.\<close>

lemma cast_elems_seq:
  assumes "list_all2 (\<lambda>x n. fst (dec (y_Emit Y n)) = Inr x) xs ns"
  shows "fst (cast_elems Y dec (seq_node Y ns)) = Inr xs"
proof -
  have len: "length ns = length xs" using list_all2_lengthD [OF assms] by simp
  have "fst (dec (y_Emit Y (y_at Y (seq_node Y ns) i))) = Inr (xs ! i)" if "i < length xs" for i
    using assms that len by (simp add: seq_at list_all2_conv_all_nth)
  then have "map_res (\<lambda>i. fst (dec (y_Emit Y (y_at Y (seq_node Y ns) i)))) [0..<length xs] =
      Inr (map (\<lambda>i. xs ! i) [0..<length xs])"
    by (intro map_res_Inr) simp
  then show ?thesis by (simp add: cast_elems_def seq_size len map_nth)
qed

end

text \<open>
  A codec: on the values of its domain, casting to text and back is the identity, also when the
  text goes through a YAML node on the way, as it does inside a container.
\<close>

locale yaml_codec = yaml_laws Y for Y :: "'n yaml" +
  fixes dom :: "'a \<Rightarrow> bool"
    and dec :: "string \<Rightarrow> 'a wres"
    and enc :: "'a \<Rightarrow> string res"
  assumes codec: "dom x \<Longrightarrow> \<exists>s n. enc x = Inr s \<and> fst (dec s) = Inr x \<and>
      y_Load Y s = Inr n \<and> fst (dec (y_Emit Y n)) = Inr x"
begin

lemma roundtrip: "dom x \<Longrightarrow> bind_res (enc x) (\<lambda>s. fst (dec s)) = Inr x"
  using codec [of x] by auto

text \<open>The node an element of a container becomes.\<close>

definition node_of :: "'a \<Rightarrow> 'n" where
  "node_of x = (case enc x of Inr s \<Rightarrow> (case y_Load Y s of Inr n \<Rightarrow> n | Inl _ \<Rightarrow> y_null Y) | Inl _ \<Rightarrow> y_null Y)"

lemma node_of:
  assumes "dom x"
  shows "bind_res (enc x) (\<lambda>s. bind_res (y_Load Y s) f) = f (node_of x)" "fst (dec (y_Emit Y (node_of x))) = Inr x"
  using codec [OF assms] by (auto simp: node_of_def)

lemma doc_node_of: "dom x \<Longrightarrow> doc Y (node_of x)"
  using codec [of x] by (auto simp: node_of_def intro: doc_load)

lemma load_emit_seq:
  "list_all dom xs \<Longrightarrow> y_Load Y (y_Emit Y (seq_node Y (map node_of xs))) = Inr (seq_node Y (map node_of xs))"
  by (rule load_emit, rule doc_seq) (auto simp: list_all_iff doc_node_of)

lemma push_elems_eq:
  assumes "list_all dom xs"
  shows "push_elems Y enc xs (seq_node Y ns) = Inr (seq_node Y (ns @ map node_of xs))"
  using assms
proof (induction xs arbitrary: ns)
  case (Cons x xs)
  then show ?case
    using Cons.IH [of "ns @ [node_of x]"] by (simp add: node_of(1) seq_node_snoc [symmetric])
qed simp

lemma push_null: "list_all dom xs \<Longrightarrow> push_elems Y enc xs (y_null Y) = Inr (seq_node Y (map node_of xs))"
  using push_elems_eq [of xs "[]"] by (simp add: seq_node_def)

lemma cast_elems_eq:
  assumes "list_all dom xs"
  shows "fst (cast_elems Y dec (seq_node Y (map node_of xs))) = Inr xs"
  using assms by (intro cast_elems_seq) (simp add: list_all2_conv_all_nth list_all_length node_of(2))

lemma vector_codec:
  assumes "list_all dom xs"
  shows "\<exists>s n. LexicalCast_vector_string Y enc xs = Inr s \<and> fst (LexicalCast_string_vector Y dec s) = Inr xs \<and>
    y_Load Y s = Inr n \<and> fst (LexicalCast_string_vector Y dec (y_Emit Y n)) = Inr xs"
  using push_null [OF assms] cast_elems_eq [OF assms]
    load_emit_seq [OF assms]
  by (simp add: LexicalCast_vector_string_def LexicalCast_string_vector_def)

lemma list_codec:
  assumes "list_all dom xs"
  shows "bind_res (LexicalCast_list_string Y enc xs) (\<lambda>s. fst (LexicalCast_string_list Y dec s)) = Inr xs"
  using push_null [OF assms] cast_elems_eq [OF assms] load_emit_seq [OF assms]
  by (simp add: LexicalCast_list_string_def LexicalCast_string_list_def)

lemma set_codec:
  assumes "list_all dom xs" and "sset_inv key xs"
  shows "bind_res (LexicalCast_set_string Y enc xs) (\<lambda>s. fst (LexicalCast_string_set Y key dec s)) = Inr xs"
  using push_null [OF assms(1)] cast_elems_eq [OF assms(1)] sset_fold_insert [of key "[]" xs] assms(2)
    load_emit_seq [OF assms(1)]
  by (simp add: LexicalCast_set_string_def LexicalCast_string_set_def)

lemma uset_codec:
  assumes "list_all dom order"
  shows "bind_res (LexicalCast_uset_string Y enc order) (\<lambda>s. fst (LexicalCast_string_uset Y dec s)) = Inr (set order)"
  using push_null [OF assms] cast_elems_eq [OF assms]
    load_emit_seq [OF assms]
  by (simp add: LexicalCast_uset_string_def LexicalCast_string_uset_def)

lemma set_entries_eq:
  assumes "list_all (dom \<circ> snd) m"
  shows "set_entries Y enc m (map_node Y kvs) = Inr (map_node Y (kvs @ map (\<lambda>(k, x). (k, node_of x)) m))"
  using assms
proof (induction m arbitrary: kvs)
  case (Cons e m)
  obtain k x where e: "e = (k, x)" by (cases e)
  with Cons show ?case
    using Cons.IH [of "kvs @ [(k, node_of x)]"] by (simp add: node_of(1) map_node_snoc [symmetric])
qed simp

lemma set_entries_null:
  "list_all (dom \<circ> snd) m \<Longrightarrow>
     set_entries Y enc m (y_null Y) = Inr (map_node Y (map (\<lambda>(k, x). (k, node_of x)) m))"
  using set_entries_eq [of m "[]"] by (simp add: map_node_def)

lemma cast_entries_eq:
  assumes "list_all (dom \<circ> snd) m"
  shows "fst (cast_entries Y dec ins (map (\<lambda>(k, x). (k, node_of x)) m) acc) =
    Inr (fold (\<lambda>(k, x). ins k x) m acc)"
  using assms by (induction m arbitrary: acc) (auto simp: node_of(2))

lemma load_emit_map:
  assumes "list_all (dom \<circ> snd) m" and "distinct (map fst m)"
  defines "kvs \<equiv> map (\<lambda>(k, x). (k, node_of x)) m"
  shows "y_Load Y (y_Emit Y (map_node Y kvs)) = Inr (map_node Y kvs)"
    and "y_entries Y (map_node Y kvs) = Inr kvs"
proof -
  have keys: "map fst kvs = map fst m" by (auto simp: kvs_def)
  have "\<forall>(k, n) \<in> set kvs. doc Y n" using assms(1) by (auto simp: kvs_def list_all_iff doc_node_of)
  with keys assms(2) have "doc Y (map_node Y kvs)" by (intro doc_map) simp_all
  then show "y_Load Y (y_Emit Y (map_node Y kvs)) = Inr (map_node Y kvs)" by (rule load_emit)
  show "y_entries Y (map_node Y kvs) = Inr kvs" using keys assms(2) by (simp add: map_entries)
qed

lemma map_codec:
  assumes "list_all (dom \<circ> snd) m" and "smap_inv m"
  shows "bind_res (LexicalCast_map_string Y enc m) (\<lambda>s. fst (LexicalCast_string_map Y dec s)) = Inr m"
  using set_entries_null [OF assms(1)] load_emit_map [OF assms(1) smap_inv_distinct [OF assms(2)]]
    smap_fold_insert [of "[]" m] assms
  by (simp add: LexicalCast_map_string_def LexicalCast_string_map_def cast_entries_eq)

lemma umap_codec:
  assumes "list_all (dom \<circ> snd) order" and "distinct (map fst order)"
  shows "bind_res (LexicalCast_umap_string Y enc order) (\<lambda>s. fst (LexicalCast_string_umap Y dec s)) = Inr (map_of order)"
  using set_entries_null [OF assms(1)] load_emit_map [OF assms] umap_fold_insert [OF assms(2), of Map.empty] assms
  by (simp add: LexicalCast_umap_string_def LexicalCast_string_umap_def cast_entries_eq)

lemma vector_is_codec:
  "yaml_codec Y (list_all dom) (LexicalCast_string_vector Y dec) (LexicalCast_vector_string Y enc)"
  by unfold_locales (rule vector_codec)

end

end
