(* ===== verification/Yaml_Tree.thy ===== *)
theory Yaml_Tree
  imports Yaml_Api
begin

text \<open>
  A concrete document model that satisfies the laws of \<open>Yaml_Api\<close>: trees, with a prefix code as
  their text. It shows that the laws can hold, and the witnesses run on it.
\<close>

datatype ytree = YUndef | YNull | YScalar string | YSeq "ytree list" | YMap "(string \<times> ytree) list"

subsection \<open>The text of a tree\<close>

definition enc_str :: "string \<Rightarrow> string" where
  "enc_str s = replicate (length s) CHR ''1'' @ CHR ''0'' # s"

definition dec_str :: "string \<Rightarrow> string \<times> string" where
  "dec_str s = (let n = length (takeWhile (\<lambda>c. c = CHR ''1'') s); r = drop (Suc n) s in (take n r, drop n r))"

lemma takeWhile_replicate_ne: "c \<noteq> d \<Longrightarrow> takeWhile (\<lambda>x. x = c) (replicate n c @ d # s) = replicate n c"
  by (induction n) simp_all

lemma dec_enc_str [simp]: "dec_str (enc_str s @ r) = (s, r)"
  by (simp add: dec_str_def enc_str_def takeWhile_replicate_ne Let_def)

fun enc_tree :: "ytree \<Rightarrow> string" and enc_seq :: "ytree list \<Rightarrow> string"
  and enc_map :: "(string \<times> ytree) list \<Rightarrow> string" where
  "enc_tree YUndef = ''u''"
| "enc_tree YNull = ''n''"
| "enc_tree (YScalar s) = CHR ''s'' # enc_str s"
| "enc_tree (YSeq ts) = CHR ''l'' # enc_seq ts"
| "enc_tree (YMap kvs) = CHR ''m'' # enc_map kvs"
| "enc_seq [] = ''e''"
| "enc_seq (t # ts) = CHR ''x'' # enc_tree t @ enc_seq ts"
| "enc_map [] = ''e''"
| "enc_map ((k, t) # kvs) = CHR ''x'' # enc_str k @ enc_tree t @ enc_map kvs"

text \<open>The decoders consume a character per call, so the length of the text is enough fuel.\<close>

fun dec_tree :: "nat \<Rightarrow> string \<Rightarrow> (ytree \<times> string) option"
  and dec_seq :: "nat \<Rightarrow> string \<Rightarrow> (ytree list \<times> string) option"
  and dec_map :: "nat \<Rightarrow> string \<Rightarrow> ((string \<times> ytree) list \<times> string) option" where
  "dec_tree (Suc n) (c # s) =
     (if c = CHR ''u'' then Some (YUndef, s)
      else if c = CHR ''n'' then Some (YNull, s)
      else if c = CHR ''s'' then Some (YScalar (fst (dec_str s)), snd (dec_str s))
      else if c = CHR ''l'' then map_option (\<lambda>(ts, r). (YSeq ts, r)) (dec_seq n s)
      else if c = CHR ''m'' then map_option (\<lambda>(kvs, r). (YMap kvs, r)) (dec_map n s)
      else None)"
| "dec_tree _ _ = None"
| "dec_seq (Suc n) (c # s) =
     (if c = CHR ''e'' then Some ([], s)
      else case dec_tree n s of None \<Rightarrow> None
      | Some (t, r) \<Rightarrow> map_option (\<lambda>(ts, r'). (t # ts, r')) (dec_seq n r))"
| "dec_seq _ _ = None"
| "dec_map (Suc n) (c # s) =
     (if c = CHR ''e'' then Some ([], s)
      else case dec_tree n (snd (dec_str s)) of None \<Rightarrow> None
      | Some (t, r) \<Rightarrow> map_option (\<lambda>(kvs, r'). ((fst (dec_str s), t) # kvs, r')) (dec_map n r))"
| "dec_map _ _ = None"

lemma dec_enc:
  "length (enc_tree t) \<le> n \<Longrightarrow> dec_tree n (enc_tree t @ r) = Some (t, r)"
  "length (enc_seq ts) \<le> n \<Longrightarrow> dec_seq n (enc_seq ts @ r) = Some (ts, r)"
  "length (enc_map kvs) \<le> n \<Longrightarrow> dec_map n (enc_map kvs @ r) = Some (kvs, r)"
proof (induction t and ts and kvs arbitrary: n r and n r and n r rule: enc_tree_enc_seq_enc_map.induct)
  case (7 t ts)
  then show ?case by (cases n) simp_all
next
  case (9 k t kvs)
  then show ?case by (cases n) simp_all
qed (case_tac n; simp)+

subsection \<open>The operations\<close>

definition tree_load :: "string \<Rightarrow> ytree res" where
  "tree_load s = (case dec_tree (length s) s of
     Some (t, []) \<Rightarrow> Inr t | _ \<Rightarrow> Inl (StdException ''ParserException''))"

fun tree_type :: "ytree \<Rightarrow> node_type" where
  "tree_type YUndef = NUndefined"
| "tree_type YNull = NNull"
| "tree_type (YScalar _) = NScalar"
| "tree_type (YSeq _) = NSequence"
| "tree_type (YMap _) = NMap"

fun tree_scalar :: "ytree \<Rightarrow> string" where
  "tree_scalar (YScalar s) = s"
| "tree_scalar _ = []"

fun tree_size :: "ytree \<Rightarrow> nat" where
  "tree_size (YSeq ts) = length ts"
| "tree_size (YMap kvs) = length kvs"
| "tree_size _ = 0"

fun tree_at :: "ytree \<Rightarrow> nat \<Rightarrow> ytree" where
  "tree_at (YSeq ts) i = (if i < length ts then ts ! i else YUndef)"
| "tree_at _ i = YUndef"

fun tree_get :: "ytree \<Rightarrow> string \<Rightarrow> ytree res" where
  "tree_get (YMap kvs) k = Inr (case map_of kvs k of None \<Rightarrow> YUndef | Some t \<Rightarrow> t)"
| "tree_get (YScalar _) k = Inl (StdException ''BadSubscript'')"
| "tree_get _ k = Inr YUndef"

fun tree_entries :: "ytree \<Rightarrow> (string \<times> ytree) list res" where
  "tree_entries (YMap kvs) = Inr kvs"
| "tree_entries (YSeq (t # ts)) = Inl (StdException ''InvalidNode'')"
| "tree_entries _ = Inr []"

fun put_key :: "string \<Rightarrow> ytree \<Rightarrow> (string \<times> ytree) list \<Rightarrow> (string \<times> ytree) list" where
  "put_key k t [] = [(k, t)]"
| "put_key k t ((k', t') # kvs) = (if k' = k then (k, t) # kvs else (k', t') # put_key k t kvs)"

definition tree_set :: "string \<Rightarrow> ytree \<Rightarrow> ytree \<Rightarrow> ytree" where
  "tree_set k t n = (case n of YMap kvs \<Rightarrow> YMap (put_key k t kvs) | _ \<Rightarrow> YMap [(k, t)])"

definition tree_push :: "ytree \<Rightarrow> ytree \<Rightarrow> ytree" where
  "tree_push n t = (case n of YSeq ts \<Rightarrow> YSeq (ts @ [t]) | _ \<Rightarrow> YSeq [t])"

definition tree_set_at :: "nat \<Rightarrow> ytree \<Rightarrow> ytree \<Rightarrow> ytree" where
  "tree_set_at i t n = (case n of YSeq ts \<Rightarrow> if i < length ts then YSeq (ts[i := t]) else YSeq (ts @ [t])
     | _ \<Rightarrow> YSeq [t])"

definition tree_yaml :: "ytree yaml" where
  "tree_yaml = \<lparr>y_Load = tree_load, y_Emit = enc_tree, y_Type = tree_type, y_Scalar = tree_scalar,
     y_size = tree_size, y_at = tree_at, y_get = tree_get, y_entries = tree_entries, y_null = YNull,
     y_of = YScalar, y_set = tree_set, y_set_at = tree_set_at, y_push = tree_push\<rparr>"

lemma seq_node_tree: "seq_node tree_yaml ts = (if ts = [] then YNull else YSeq ts)"
  by (induction ts rule: rev_induct) (auto simp: seq_node_def tree_yaml_def tree_push_def)

lemma put_key_new: "k \<notin> fst ` set kvs \<Longrightarrow> put_key k t kvs = kvs @ [(k, t)]"
  by (induction k t kvs rule: put_key.induct) auto

lemma map_node_tree:
  "distinct (map fst kvs) \<Longrightarrow> map_node tree_yaml kvs = (if kvs = [] then YNull else YMap kvs)"
proof (induction kvs rule: rev_induct)
  case (snoc e kvs)
  obtain k t where e: "e = (k, t)" by (cases e)
  with snoc show ?case
    by (auto simp: map_node_snoc tree_yaml_def tree_set_def put_key_new)
qed (simp add: map_node_def tree_yaml_def)

lemma map_node_tree_type: "kvs \<noteq> [] \<Longrightarrow> y_Type tree_yaml (map_node tree_yaml kvs) = NMap"
proof (cases kvs rule: rev_exhaust)
  case (snoc kvs' e)
  then show ?thesis
    by (cases e) (simp add: map_node_snoc tree_yaml_def tree_set_def split: ytree.splits)
qed simp

lemma tree_load_enc [simp]: "tree_load (enc_tree t) = Inr t"
  using dec_enc(1) [of t "length (enc_tree t)" "[]"] by (simp add: tree_load_def)

interpretation tree: yaml_laws tree_yaml
proof unfold_locales
  fix ns :: "ytree list" and n
  show "y_set_at tree_yaml (length ns) n (seq_node tree_yaml ns) = seq_node tree_yaml (ns @ [n])"
    unfolding seq_node_tree by (simp add: tree_yaml_def tree_set_at_def)
qed (auto simp: map_node_tree_type, auto simp: seq_node_tree map_node_tree, auto simp: tree_yaml_def)

end
