(* ===== verification/Config_Claims.thy ===== *)
theory Config_Claims
  imports Config_Props Lexical_Cast Yaml_Tree
begin

text \<open>
  The properties of the configuration system, with witnesses on a small registry of string
  variables whose world is the list of logged lines, over the documents of \<open>Yaml_Tree\<close>.
\<close>

subsection \<open>Concrete data for the witnesses\<close>

definition demo_log :: "string list diag_env" where
  "demo_log = \<lparr>log_enabled = (\<lambda>_. True), log_put = (\<lambda>text w. w @ [text]),
     put_cout = (\<lambda>text w. if text = [] then w else w @ [text])\<rparr>"

definition demo_type :: "string config_type" where
  "demo_type = \<lparr>ty_name = ''S'', FromStr = (\<lambda>s. lift_w (if s = ''bad'' then Inl (StdException s) else Inr s)), ToStr = Inr\<rparr>"

definition demo_type2 :: "string config_type" where
  "demo_type2 = demo_type\<lparr>ty_name := ''i''\<rparr>"

definition note_cb :: "string \<Rightarrow> (string, string list) on_change_cb" where
  "note_cb tag old new w = (None, w @ [tag @ old @ new])"

definition throw_cb :: "(string, string list) on_change_cb" where
  "throw_cb old new w = (Some (StdException ''no''), w @ [''asked''])"

definition demo_var :: "(string, string list) config_var" where
  "demo_var = \<lparr>cv_name = ''a.b'', cv_description = '''', cv_type = demo_type, cv_val = ''x'',
     cv_cbs = [(1, note_cb ''n''), (2, throw_cb)]\<rparr>"

definition demo_config :: "(string, string list) config" where
  "demo_config = fst (snd (Config_Lookup_default demo_log demo_type ''a.b'' ''x'' '''' no_config []))"

definition demo_doc :: ytree where
  "demo_doc = YMap [(''a'', YMap [(''b'', YScalar ''y''), (''C'', YNull)])]"

lemma demo_config_eq:
  "Config_Lookup_default demo_log demo_type ''a.b'' ''x'' '''' no_config [] = (Inr 0, demo_config, [])"
  by (simp add: demo_config_def Config_Lookup_default_def Config_Lookup_def no_config_def config_chars_def)

lemma wf_demo_config: "wf_config demo_config"
  by (rule wf_Lookup_default [OF wf_no_config demo_config_eq])

text \<open>Strings as YAML scalars.\<close>

definition scalar_dec :: "string \<Rightarrow> string wres" where
  "scalar_dec s = lift_w (bind_res (tree_load s)
     (\<lambda>t. case t of YScalar x \<Rightarrow> Inr x | _ \<Rightarrow> Inl (StdException ''BadConversion'')))"

definition scalar_enc :: "string \<Rightarrow> string res" where
  "scalar_enc x = Inr (enc_tree (YScalar x))"

lemma tree_yaml_load: "y_Load tree_yaml = tree_load" "y_Emit tree_yaml = enc_tree"
  by (simp_all add: tree_yaml_def)

interpretation scalars: yaml_codec tree_yaml "\<lambda>_. True" scalar_dec scalar_enc
  by unfold_locales (simp add: scalar_dec_def scalar_enc_def tree_yaml_load tree_load_enc lift_w_def del: enc_tree.simps)

subsection \<open>Variables\<close>

text \<open>C5. \<open>fromString\<close> is transactional. It returns \<open>true\<close> exactly when the text parses and every
  listener, called in key order with the old and the new value, accepts the change (none is called
  when the value is unchanged); then the variable has the parsed value. In every other case (a
  parse error, a listener that throws) the variable is as it was.\<close>

theorem fromString_transactional:
  assumes "ConfigVar_fromString R val var w = (r, var', w')"
  defines "w0 \<equiv> put_cout R (snd (FromStr (cv_type var) val)) w"
  shows "if r = Inr True
    then \<exists>v. fst (FromStr (cv_type var) val) = Inr v \<and> var' = var\<lparr>cv_val := v\<rparr> \<and>
      (if v = cv_val var then w' = w0 else notify (cv_cbs var) (cv_val var) v w0 = (None, w'))
    else var' = var \<and> (\<forall>v. fst (FromStr (cv_type var) val) = Inr v \<longrightarrow>
      v \<noteq> cv_val var \<and> fst (notify (cv_cbs var) (cv_val var) v w0) \<noteq> None)"
proof -
  obtain parsed out where f: "FromStr (cv_type var) val = (parsed, out)" by fastforce
  have w0: "w0 = put_cout R out w" by (simp add: w0_def f)
  show ?thesis
  proof (cases parsed)
    case (Inl e)
    with assms(1) f show ?thesis by (cases e) (auto simp: ConfigVar_fromString_def Let_def)
  next
    case (Inr v)
    obtain q w1 where "notify (cv_cbs var) (cv_val var) v w0 = (q, w1)" by fastforce
    with assms(1) Inr f w0 show ?thesis
      by (cases q; cases "the q")
        (auto simp: ConfigVar_fromString_def ConfigVar_setValue_def Let_def split: if_splits)
  qed
qed

theorem fromString_transactional_witness:
  "ConfigVar_fromString demo_log ''y'' demo_var [] =
     (Inr False, demo_var, [''nxy'', ''asked'', fromString_failed demo_var ''no'' ''y'']) \<and>
   fst (notify (cv_cbs demo_var) ''x'' ''y'' []) \<noteq> None"
proof -
  have eq: "ConfigVar_fromString demo_log ''y'' demo_var [] =
     (Inr False, demo_var, [''nxy'', ''asked'', fromString_failed demo_var ''no'' ''y''])"
    by (simp add: demo_var_def demo_type_def demo_log_def ConfigVar_fromString_def ConfigVar_setValue_def
        note_cb_def throw_cb_def log_error_def lift_w_def Let_def)
  from fromString_transactional [OF eq] have "fst (notify (cv_cbs demo_var) ''x'' ''y'' []) \<noteq> None"
    by (simp add: demo_var_def demo_type_def demo_log_def lift_w_def)
  with eq show ?thesis by simp
qed

text \<open>While the listener counter has not wrapped around, \<open>addListener\<close> returns a key that is not
  in use; the callback is found under that key and no other entry changes; it is notified after all
  the listeners already there, and only if none of them throws; \<open>delListener\<close> with the returned
  key restores the variable.\<close>

lemma addListener_fresh_last:
  assumes "wf_var s_fun_id var" and "s_fun_id \<noteq> - 1"
    and "ConfigVar_addListener cb s_fun_id var = (key, s_fun_id', var')"
  shows "ConfigVar_getListener key var = None \<and>
    ConfigVar_getListener k var' = (if k = key then Some cb else ConfigVar_getListener k var) \<and>
    notify (cv_cbs var') old new w =
      (case notify (cv_cbs var) old new w of (None, w') \<Rightarrow> cb old new w' | (Some e, w') \<Rightarrow> (Some e, w')) \<and>
    ConfigVar_delListener key var' = var"
proof -
  have key: "key = s_fun_id + 1" and var': "var' = var\<lparr>cv_cbs := cv_cbs var @ [(key, cb)]\<rparr>"
    using assms addListener_eq [OF assms(1,2), of cb] by auto
  have "\<forall>k \<in> fst ` set (cv_cbs var). k < key"
    using assms(1) word_inc_greater [OF assms(2)] by (auto simp: wf_var_def key)
  then have none: "key \<notin> fst ` set (cv_cbs var)" by blast
  have "filter (\<lambda>p. fst p \<noteq> key) (cv_cbs var) = cv_cbs var" using none by (force simp: filter_id_conv)
  moreover have "smap_find (cv_cbs var @ [(key, cb)]) k = (if k = key then Some cb else smap_find (cv_cbs var) k)"
    using none [folded map_of_eq_None_iff] by (cases "map_of (cv_cbs var) k") (auto simp: smap_find_def map_add_def)
  ultimately show ?thesis using none
    by (auto simp: var' ConfigVar_getListener_def ConfigVar_delListener_def smap_erase_def smap_find_None
        notify_append split: prod.splits option.splits)
qed

lemma addListener_fresh_last_example:
  "ConfigVar_getListener 3 demo_var = None \<and>
   ConfigVar_delListener 3 (demo_var\<lparr>cv_cbs := cv_cbs demo_var @ [(3, note_cb ''m'')]\<rparr>) = demo_var"
proof -
  have wf: "wf_var 2 demo_var"
    by (simp add: wf_var_def demo_var_def smap_inv_def tolower_def is_upper_def)
  have ne: "(2 :: 64 word) \<noteq> - 1" by simp
  have eq: "ConfigVar_addListener (note_cb ''m'') 2 demo_var =
      (3, 3, demo_var\<lparr>cv_cbs := cv_cbs demo_var @ [(3, note_cb ''m'')]\<rparr>)"
    using addListener_eq [OF wf ne] by simp
  from addListener_fresh_last [OF wf ne eq] show ?thesis by simp
qed

subsection \<open>The registry\<close>

text \<open>C21. In every registry a program can reach, a name that is found is valid and leads to a live
  variable of exactly that name, whose listeners are ordered and have keys already handed out by
  the counter of its type; looking it up with its own type returns it.\<close>

theorem reachable_registry_sound:
  assumes "(config_step R Y)\<^sup>*\<^sup>* (no_config, w0) (c, w)" and "Config_LookupBase name c = Some p"
  shows "all_in config_chars name \<and>
    (\<exists>var. cfg_vars c p = Some var \<and> cv_name var = name \<and> wf_var (cfg_fun_id c (ty_name (cv_type var))) var \<and>
       Config_Lookup R (cv_type var) name c w = (Inr (Some p), w))"
proof -
  have wf: "wf_config c" using config_sys.reachable_inv [OF _ assms(1)] by simp
  have p: "cfg_datas c name = Some p" using assms(2) by (simp add: Config_LookupBase_def)
  obtain var where var: "cfg_vars c p = Some var" "cv_name var = name" by (rule wf_config_lookup [OF wf p])
  then show ?thesis
    using wf_config_name [OF wf p] wf_config_var [OF wf var(1)] p by (simp add: Config_Lookup_def)
qed

theorem reachable_registry_sound_witness:
  "all_in config_chars ''a.b'' \<and> (\<exists>var. cfg_vars demo_config 0 = Some var \<and> cv_name var = ''a.b'')"
proof -
  have "(config_step demo_log tree_yaml)\<^sup>*\<^sup>* (no_config, []) (demo_config, [])"
    using demo_config_eq by (intro r_into_rtranclp step_lookup)
  moreover have "Config_LookupBase ''a.b'' demo_config = Some 0"
    by (simp add: demo_config_def Config_LookupBase_def Config_Lookup_default_def Config_Lookup_def
        no_config_def config_chars_def)
  ultimately have "all_in config_chars ''a.b'' \<and> (\<exists>var. cfg_vars demo_config 0 = Some var \<and> cv_name var = ''a.b'' \<and>
      wf_var (cfg_fun_id demo_config (ty_name (cv_type var))) var \<and>
      Config_Lookup demo_log (cv_type var) ''a.b'' demo_config [] = (Inr (Some 0), []))"
    by (rule reachable_registry_sound)
  then show ?thesis by blast
qed

text \<open>A new variable: at an address not in use, with the requested type, the default and no listeners, and the
  name leading to it; the variables there were and the other names are as before.\<close>

definition registers ::
    "'v config_type \<Rightarrow> string \<Rightarrow> 'v \<Rightarrow> string \<Rightarrow> ('v, 'w) config \<Rightarrow> nat res \<Rightarrow> ('v, 'w) config \<Rightarrow> bool" where
  "registers T name d desc c r c' \<longleftrightarrow>
     (\<exists>p. r = Inr p \<and> cfg_vars c p = None \<and> cfg_datas c' = (cfg_datas c)(name \<mapsto> p) \<and>
        cfg_vars c' = (cfg_vars c)(p \<mapsto>
          \<lparr>cv_name = name, cv_description = desc, cv_type = T, cv_val = d, cv_cbs = []\<rparr>) \<and>
        cfg_fun_id c' = cfg_fun_id c)"

lemma new_registers:
  assumes "wf_config c" and "all_in config_chars name"
  shows "registers T name d desc c (Inr (cfg_next c))
    (c\<lparr>cfg_vars := (cfg_vars c)(cfg_next c \<mapsto> ConfigVar_new T name d desc), cfg_next := Suc (cfg_next c),
       cfg_datas := (cfg_datas c)(name \<mapsto> cfg_next c)\<rparr>)"
proof -
  have "cfg_vars c (cfg_next c) = None"
    using assms(1) by (cases "cfg_vars c (cfg_next c)") (auto simp: wf_config_def wf_vars_def)
  then show ?thesis using config_chars_lower [OF assms(2)] by (simp add: registers_def ConfigVar_new_def)
qed

text \<open>C25. \<open>Lookup(name, default, description)\<close> in a well-formed registry, by what the name leads to. An
  invalid name throws \<open>std::invalid_argument\<close> and changes nothing. A name that is free gets a new
  variable with the default. A name with a variable of the requested type gives that variable: the
  registry, its value included, is unchanged and the default is ignored. A name with a variable of
  another type gets a new variable that takes its place, the old one staying with those who hold
  it, unless printing the old value for the warning throws something other than a
  \<open>std::exception\<close>, which escapes and changes nothing.\<close>

theorem Lookup_default_spec:
  assumes "wf_config c" and "Config_Lookup_default R T name d desc c w = (r, c', w')"
  shows "if \<not> all_in config_chars name then r = Inl (StdException name) \<and> c' = c
    else (case cfg_datas c name of
        None \<Rightarrow> registers T name d desc c r c'
      | Some p \<Rightarrow> (\<exists>var. cfg_vars c p = Some var \<and> cv_name var = name \<and>
          (if ty_name (cv_type var) = ty_name T then r = Inr p \<and> c' = c
           else if log_enabled R w then
             (case fst (ConfigVar_toString R var w) of
                Inl e \<Rightarrow> r = Inl e \<and> c' = c
              | Inr _ \<Rightarrow> registers T name d desc c r c')
           else registers T name d desc c r c')))"
proof (cases "cfg_datas c name")
  case None
  then have "Config_Lookup R T name c w = (Inr None, w)" by (simp add: Config_Lookup_def)
  with None assms(2) new_registers [OF assms(1), of name T d desc] show ?thesis
    by (auto simp: Config_Lookup_default_def split: if_splits)
next
  case (Some p)
  then obtain var where var: "cfg_vars c p = Some var" "cv_name var = name"
    using wf_config_lookup [OF assms(1)] by blast
  have name: "all_in config_chars name" using wf_config_name [OF assms(1) Some] .
  show ?thesis
  proof (cases "ty_name (cv_type var) = ty_name T")
    case True
    then have "Config_Lookup R T name c w = (Inr (Some p), w)" using Some var by (simp add: Config_Lookup_def)
    with assms(2) have "r = Inr p" "c' = c" by (auto simp: Config_Lookup_default_def)
    with name Some var True show ?thesis by simp
  next
    case False
    obtain q w1 where q: "ConfigVar_toString R var w = (q, w1)" by (cases "ConfigVar_toString R var w")
    with False Some var name assms(2) new_registers [OF assms(1) name, of T d desc] show ?thesis
      by (auto simp: Config_Lookup_default_def Config_Lookup_def split: if_splits sum.splits)
  qed
qed

theorem Lookup_default_spec_witness:
  "fst (Config_Lookup_default demo_log demo_type ''A'' ''d'' '''' demo_config []) = Inl (StdException ''A'') \<and>
   (\<exists>w. Config_Lookup_default demo_log demo_type ''a.b'' ''d'' '''' demo_config [] = (Inr 0, demo_config, w)) \<and>
   (\<exists>p c w var. Config_Lookup_default demo_log demo_type2 ''a.b'' ''d'' '''' demo_config [] = (Inr p, c, w) \<and>
      p \<noteq> 0 \<and> cfg_vars c 0 = cfg_vars demo_config 0 \<and> cfg_datas c ''a.b'' = Some p \<and>
      cfg_vars c p = Some var \<and> cv_val var = ''d'')"
proof -
  let ?L = "\<lambda>T name. Config_Lookup_default demo_log T name ''d'' '''' demo_config []"
  have bad: "\<not> all_in config_chars ''A''" and ok: "all_in config_chars ''a.b''" by (simp_all add: config_chars_def)
  have d: "cfg_datas demo_config ''a.b'' = Some 0" "cfg_vars demo_config 0 = Some (ConfigVar_new demo_type ''a.b'' ''x'' '''')"
    by (simp_all add: demo_config_def Config_Lookup_default_def Config_Lookup_def no_config_def config_chars_def)
  obtain r1 c1 w1 where e1: "?L demo_type ''A'' = (r1, c1, w1)" by (metis prod_cases3)
  obtain r2 c2 w2 where e2: "?L demo_type ''a.b'' = (r2, c2, w2)" by (metis prod_cases3)
  obtain r3 c3 w3 where e3: "?L demo_type2 ''a.b'' = (r3, c3, w3)" by (metis prod_cases3)
  have "r1 = Inl (StdException ''A'')" using Lookup_default_spec [OF wf_demo_config e1] bad by simp
  moreover have "r2 = Inr 0 \<and> c2 = demo_config"
    using Lookup_default_spec [OF wf_demo_config e2] ok d by (simp add: ConfigVar_new_def)
  moreover have "registers demo_type2 ''a.b'' ''d'' '''' demo_config r3 c3"
    using Lookup_default_spec [OF wf_demo_config e3] ok d
    by (simp add: ConfigVar_new_def demo_type2_def demo_type_def demo_log_def ConfigVar_toString_def)
  then obtain p where "r3 = Inr p" "cfg_vars demo_config p = None" "cfg_datas c3 = (cfg_datas demo_config)(''a.b'' \<mapsto> p)"
    "cfg_vars c3 = (cfg_vars demo_config)(p \<mapsto>
       \<lparr>cv_name = ''a.b'', cv_description = '''', cv_type = demo_type2, cv_val = ''d'', cv_cbs = []\<rparr>)"
    by (auto simp: registers_def)
  moreover from this(2) d(2) have "p \<noteq> 0" by (cases p) auto
  ultimately show ?thesis using e1 e2 e3 by auto
qed

subsection \<open>Loading a document\<close>

text \<open>C22. \<open>ListAllMember\<close> returns, with as much fuel as the document is deep, and lists exactly the
  members of the document: every node reached by a path of map keys whose dotted prefixes are all
  valid names, under that dotted name. All the listed names are in lower case, so the conversion
  to lower case in \<open>LoadFromYaml\<close> never changes one.\<close>

theorem ListAllMember_spec:
  assumes "nested_below Y fuel root"
  shows "\<exists>all_nodes w'. ListAllMember R Y fuel [] root [] w = Some (Inr all_nodes, w') \<and>
    set all_nodes = {(path, n). member Y [] root path n} \<and>
    (\<forall>(path, n) \<in> set all_nodes. map tolower path = path)"
  using ListAllMember_result(1) [OF assms, of R "[]" "[]" w]
  by (auto dest!: member_valid config_chars_lower)

theorem ListAllMember_spec_witness:
  "nested_below tree_yaml 3 demo_doc \<and> member tree_yaml [] demo_doc ''a.b'' (YScalar ''y'') \<and>
   \<not> member tree_yaml [] demo_doc ''a.C'' YNull"
proof -
  have n: "nested_below tree_yaml 3 demo_doc" by code_simp
  have "ListAllMember demo_log tree_yaml 3 [] demo_doc [] [] =
    Some (Inr [('''', demo_doc), (''a'', YMap [(''b'', YScalar ''y''), (''C'', YNull)]), (''a.b'', YScalar ''y'')],
      [''Config invalid name: a.C : n''])"
    by code_simp
  with ListAllMember_spec [OF n, of demo_log "[]"] have
    "set [('''', demo_doc), (''a'', YMap [(''b'', YScalar ''y''), (''C'', YNull)]), (''a.b'', YScalar ''y'')] =
      {(path, n). member tree_yaml [] demo_doc path n}" by simp
  then have "((path, n) = ('''', demo_doc) \<or> (path, n) = (''a'', YMap [(''b'', YScalar ''y''), (''C'', YNull)]) \<or>
      (path, n) = (''a.b'', YScalar ''y'')) = member tree_yaml [] demo_doc path n" for path n
    by (auto simp: set_eq_iff)
  from this [of "''a.b''" "YScalar ''y''"] this [of "''a.C''" YNull] n show ?thesis by simp
qed

text \<open>What loading does to one registered variable.\<close>

lemma LoadFromYaml_result:
  assumes "wf_config c" and "nested_below Y fuel root"
    and "cfg_datas c name = Some p" and "cfg_vars c p = Some var"
  shows "\<exists>r c' w'. Config_LoadFromYaml R Y fuel root c w = Some (r, c', w') \<and> cfg_datas c' name = Some p \<and>
    (\<exists>v all_nodes w1. cfg_vars c' p = Some (var\<lparr>cv_val := v\<rparr>) \<and>
       ListAllMember R Y fuel [] root [] w = Some (Inr all_nodes, w1) \<and>
       set all_nodes = {(path, n). member Y [] root path n} \<and>
       ((\<forall>n. \<not> member Y [] root name n) \<longrightarrow> v = cv_val var) \<and>
       (no_throw var \<and> r = None \<and> name \<noteq> [] \<longrightarrow> v = loaded_value Y (cv_type var) name all_nodes (cv_val var)))"
proof -
  obtain ns w1 where ns: "ListAllMember R Y fuel [] root [] w = Some (Inr ns, w1)"
    and set: "set ns = {(path, n). member Y [] root path n}"
    using ListAllMember_result(1) [OF assms(2), of R "[]" "[]" w] by auto
  obtain r c' w' where load: "load_nodes R Y ns c w1 = (r, c', w')" by (cases "load_nodes R Y ns c w1")
  then have run: "Config_LoadFromYaml R Y fuel root c w = Some (r, c', w')" using ns by (simp add: Config_LoadFromYaml_def)
  have valid: "\<forall>e \<in> set ns. all_in config_chars (fst e)" using set by (auto dest: member_valid)
  from load_nodes_var [OF assms(1) valid load assms(3,4)] obtain v where
    v: "cfg_vars c' p = Some (var\<lparr>cv_val := v\<rparr>)" "load_outcome Y ns r name var v" by blast
  have "name \<in> fst ` set ns \<longleftrightarrow> (\<exists>n. member Y [] root name n)" using set by force
  with v set load_nodes_datas [OF load] assms(3) show ?thesis
    by (intro exI [of _ r] exI [of _ c'] exI [of _ w'] conjI run exI [of _ v] exI [of _ ns] exI [of _ w1])
      (auto simp: load_outcome_def ns)
qed

text \<open>C6. Loading a document into a well-formed registry returns, with as much fuel as the document is
  nested, and keeps every registered variable in place, with its name, type and listeners. A variable whose name is not a member of the document keeps its
  value. If no exception escapes, a variable (with a non-empty name) whose listeners do not throw
  ends with the last member of that name whose text its type can parse, or its old value when none
  can.\<close>

theorem LoadFromYaml_spec:
  assumes "wf_config c" and "nested_below Y fuel root"
    and "cfg_datas c name = Some p" and "cfg_vars c p = Some var"
  shows "\<exists>r c' w'. Config_LoadFromYaml R Y fuel root c w = Some (r, c', w') \<and> cfg_datas c' name = Some p \<and>
    (\<exists>v all_nodes w1. cfg_vars c' p = Some (var\<lparr>cv_val := v\<rparr>) \<and>
       ListAllMember R Y fuel [] root [] w = Some (Inr all_nodes, w1) \<and>
       set all_nodes = {(path, n). member Y [] root path n} \<and>
       ((\<forall>n. \<not> member Y [] root name n) \<longrightarrow> v = cv_val var) \<and>
       (no_throw var \<and> r = None \<and> name \<noteq> [] \<longrightarrow> v = loaded_value Y (cv_type var) name all_nodes (cv_val var)))"
  by (rule LoadFromYaml_result [OF assms])

lemma demo_doc_members: "ListAllMember demo_log tree_yaml 3 [] demo_doc [] [] =
    Some (Inr [('''', demo_doc), (''a'', YMap [(''b'', YScalar ''y''), (''C'', YNull)]), (''a.b'', YScalar ''y'')],
      [''Config invalid name: a.C : n''])"
  by code_simp

theorem LoadFromYaml_spec_witness:
  "\<exists>c. Config_LoadFromYaml demo_log tree_yaml 3 demo_doc demo_config [] =
       Some (None, c, [''Config invalid name: a.C : n'']) \<and>
     cfg_vars c 0 = Some (ConfigVar_new demo_type ''a.b'' ''y'' '''')"
proof -
  let ?var = "ConfigVar_new demo_type ''a.b'' ''x'' '''' :: (string, string list) config_var"
  have n: "nested_below tree_yaml 3 demo_doc" by code_simp
  have d: "cfg_datas demo_config ''a.b'' = Some 0" "cfg_vars demo_config 0 = Some ?var"
    by (simp_all add: demo_config_def Config_Lookup_default_def Config_Lookup_def no_config_def config_chars_def)
  obtain x where x: "Config_LoadFromYaml demo_log tree_yaml 3 demo_doc demo_config [] = Some x"
    using demo_doc_members by (simp add: Config_LoadFromYaml_def)
  have "fst (the (Config_LoadFromYaml demo_log tree_yaml 3 demo_doc demo_config [])) = None \<and>
      snd (snd (the (Config_LoadFromYaml demo_log tree_yaml 3 demo_doc demo_config []))) = [''Config invalid name: a.C : n'']"
    by code_simp
  then obtain c where eq: "Config_LoadFromYaml demo_log tree_yaml 3 demo_doc demo_config [] =
       Some (None, c, [''Config invalid name: a.C : n''])"
    unfolding x by (cases x) auto
  have "no_throw ?var" by (simp add: no_throw_def ConfigVar_new_def)
  moreover have "loaded_value tree_yaml (cv_type ?var) ''a.b''
      [('''', demo_doc), (''a'', YMap [(''b'', YScalar ''y''), (''C'', YNull)]), (''a.b'', YScalar ''y'')] (cv_val ?var) = ''y''"
    by code_simp
  moreover have "?var\<lparr>cv_val := ''y''\<rparr> = ConfigVar_new demo_type ''a.b'' ''y'' ''''"
    by (simp add: ConfigVar_new_def)
  ultimately show ?thesis using LoadFromYaml_spec [OF wf_demo_config n d, of demo_log "[]"] eq
    by (auto simp: demo_doc_members)
qed

subsection \<open>Containers\<close>

text \<open>C24. For an element type whose own casts form a codec, each of the six container templates of
  \<open>LexicalCast\<close> gives back what it printed: vectors and lists with their order, ordered sets and maps,
  and unordered sets and maps whatever the iteration order in which they were printed.\<close>

theorem containers_roundtrip:
  assumes "yaml_codec Y ok dec enc"
  shows "(list_all ok xs \<longrightarrow>
      bind_res (LexicalCast_vector_string Y enc xs) (\<lambda>s. fst (LexicalCast_string_vector Y dec s)) = Inr xs \<and>
      bind_res (LexicalCast_list_string Y enc xs) (\<lambda>s. fst (LexicalCast_string_list Y dec s)) = Inr xs \<and>
      bind_res (LexicalCast_uset_string Y enc xs) (\<lambda>s. fst (LexicalCast_string_uset Y dec s)) = Inr (set xs) \<and>
      (sset_inv key xs \<longrightarrow>
        bind_res (LexicalCast_set_string Y enc xs) (\<lambda>s. fst (LexicalCast_string_set Y key dec s)) = Inr xs)) \<and>
    (list_all (ok \<circ> snd) m \<longrightarrow>
      (smap_inv m \<longrightarrow> bind_res (LexicalCast_map_string Y enc m) (\<lambda>s. fst (LexicalCast_string_map Y dec s)) = Inr m) \<and>
      (distinct (map fst m) \<longrightarrow>
        bind_res (LexicalCast_umap_string Y enc m) (\<lambda>s. fst (LexicalCast_string_umap Y dec s)) = Inr (map_of m)))"
  using yaml_codec.vector_codec [OF assms] yaml_codec.list_codec [OF assms] yaml_codec.uset_codec [OF assms]
    yaml_codec.set_codec [OF assms] yaml_codec.map_codec [OF assms] yaml_codec.umap_codec [OF assms]
  by fastforce

theorem containers_roundtrip_witness:
  "bind_res (LexicalCast_vector_string tree_yaml scalar_enc [''b'', ''a'', ''b''])
     (\<lambda>s. fst (LexicalCast_string_vector tree_yaml scalar_dec s)) = Inr [''b'', ''a'', ''b''] \<and>
   bind_res (LexicalCast_map_string tree_yaml scalar_enc [(''k'', ''v'')])
     (\<lambda>s. fst (LexicalCast_string_map tree_yaml scalar_dec s)) = Inr [(''k'', ''v'')]"
  using containers_roundtrip [OF scalars.yaml_codec_axioms, of "[''b'', ''a'', ''b'']" id "[(''k'', ''v'')]"]
  by (simp add: smap_inv_def)

end
