(* ===== verification/Log_Define.thy ===== *)
theory Log_Define
  imports Log_Level Lexical_Cast
begin

text \<open>
  The configuration entries of the logging system (\<open>LogAppenderDefine\<close>, \<open>LogDefine\<close> of
  \<^verbatim>\<open>sylar/log.cc\<close>) and their casts from and to YAML text. The casts from text print their
  complaints to \<open>std::cout\<close>, which is the output of the \<open>wres\<close> computations.
\<close>

subsection \<open>Data\<close>

datatype appender_type = TypeUNKNOW | TypeFileLogAppender | TypeStdoutLogAppender

record log_appender_define =
  lad_type :: appender_type
  lad_level :: log_level
  lad_formatter :: string
  lad_file :: string

record log_define =
  ld_name :: string
  ld_level :: log_level
  ld_formatter :: string
  ld_appenders :: "log_appender_define list"

definition LogAppenderDefine_new :: log_appender_define where
  "LogAppenderDefine_new = \<lparr>lad_type = TypeUNKNOW, lad_level = UNKNOW, lad_formatter = [], lad_file = []\<rparr>"

definition LogDefine_new :: log_define where
  "LogDefine_new = \<lparr>ld_name = [], ld_level = UNKNOW, ld_formatter = [], ld_appenders = []\<rparr>"

definition StringToType :: "string \<Rightarrow> appender_type" where
  "StringToType str =
     (let ucstr = map toupper str
      in if ucstr = ''FILELOGAPPENDER'' then TypeFileLogAppender
         else if ucstr = ''STDOUTLOGAPPENDER'' then TypeStdoutLogAppender
         else TypeUNKNOW)"

definition TypeToString :: "appender_type \<Rightarrow> string" where
  "TypeToString type =
     (case type of
        TypeFileLogAppender \<Rightarrow> ''FileLogAppender''
      | TypeStdoutLogAppender \<Rightarrow> ''StdoutLogAppender''
      | TypeUNKNOW \<Rightarrow> ''UNKNOW'')"

subsection \<open>From text\<close>

text \<open>\<open>std::cout << complaint << "\n" << node << std::endl\<close>\<close>

definition complain :: "'n yaml \<Rightarrow> string \<Rightarrow> 'n \<Rightarrow> 'a \<Rightarrow> 'a wres" where
  "complain Y text node x = put_w (text @ [CHR 0x0A] @ y_Emit Y node @ [CHR 0x0A]) x"

definition read_name :: "'n yaml \<Rightarrow> log_define \<Rightarrow> 'n \<Rightarrow> (bool \<times> log_define) wres" where
  "read_name Y ld node =
     bind_w (lift_w (y_get Y node ''name'')) (\<lambda>n.
       if \<not> IsDefined Y n then complain Y ''log config error: name not defined'' node (False, ld)
       else if \<not> IsScalar Y n then complain Y ''log config error: name not scalar'' node (False, ld)
       else lift_w (Inr (True, ld\<lparr>ld_name := y_Scalar Y n\<rparr>)))"

definition read_level :: "'n yaml \<Rightarrow> log_define \<Rightarrow> 'n \<Rightarrow> (bool \<times> log_define) wres" where
  "read_level Y ld node =
     bind_w (lift_w (y_get Y node ''level'')) (\<lambda>n.
       if \<not> IsDefined Y n then complain Y ''log config error: level not defined'' node (False, ld)
       else if \<not> IsScalar Y n then complain Y ''log config error: level not scalar'' node (False, ld)
       else lift_w (Inr (True, ld\<lparr>ld_level := LogLevel_FromString (y_Scalar Y n)\<rparr>)))"

definition read_formatter :: "'n yaml \<Rightarrow> log_define \<Rightarrow> 'n \<Rightarrow> (bool \<times> log_define) wres" where
  "read_formatter Y ld node =
     bind_w (lift_w (y_get Y node ''formatter'')) (\<lambda>n.
       if \<not> IsDefined Y n then complain Y ''log config warn: formatter not defined'' node (True, ld)
       else if \<not> IsScalar Y n then complain Y ''log config error: formatter not scalar'' node (False, ld)
       else lift_w (Inr (True, ld\<lparr>ld_formatter := y_Scalar Y n\<rparr>)))"

text \<open>The parts of \<open>_read_an_appender\<close>, in order: type, file, level, formatter.\<close>

definition read_appender_type ::
    "'n yaml \<Rightarrow> log_appender_define \<Rightarrow> 'n \<Rightarrow> (bool \<times> log_appender_define) wres" where
  "read_appender_type Y lad node =
     bind_w (lift_w (y_get Y node ''type'')) (\<lambda>n.
       if \<not> IsDefined Y n then complain Y ''logappender config error: type not defined'' node (False, lad)
       else if \<not> IsScalar Y n then complain Y ''logappender config error: type not scalar'' node (False, lad)
       else let lad = lad\<lparr>lad_type := StringToType (y_Scalar Y n)\<rparr>
            in if lad_type lad = TypeUNKNOW
               then complain Y ''logappender config error: type unknown'' node (False, lad)
               else lift_w (Inr (True, lad)))"

definition read_appender_file ::
    "'n yaml \<Rightarrow> log_appender_define \<Rightarrow> 'n \<Rightarrow> (bool \<times> log_appender_define) wres" where
  "read_appender_file Y lad node =
     (if lad_type lad = TypeFileLogAppender
      then bind_w (lift_w (y_get Y node ''file'')) (\<lambda>n.
             if \<not> IsDefined Y n \<or> \<not> IsScalar Y n
             then complain Y ''logappender config error: file not defined or not scalar'' node (False, lad)
             else lift_w (Inr (True, lad\<lparr>lad_file := y_Scalar Y n\<rparr>)))
      else lift_w (Inr (True, lad)))"

definition read_appender_level ::
    "'n yaml \<Rightarrow> log_appender_define \<Rightarrow> 'n \<Rightarrow> (bool \<times> log_appender_define) wres" where
  "read_appender_level Y lad node =
     bind_w (lift_w (y_get Y node ''level'')) (\<lambda>n.
       if \<not> IsDefined Y n then complain Y ''logappender config warn: level not defined'' node (True, lad)
       else if \<not> IsScalar Y n then complain Y ''logappender config error: level not scalar'' node (False, lad)
       else lift_w (Inr (True, lad\<lparr>lad_level := LogLevel_FromString (y_Scalar Y n)\<rparr>)))"

definition read_appender_formatter ::
    "'n yaml \<Rightarrow> log_appender_define \<Rightarrow> 'n \<Rightarrow> (bool \<times> log_appender_define) wres" where
  "read_appender_formatter Y lad node =
     bind_w (lift_w (y_get Y node ''formatter'')) (\<lambda>n.
       if \<not> IsDefined Y n then complain Y ''logappender config warn: formatter not defined'' node (True, lad)
       else if \<not> IsScalar Y n then complain Y ''logappender config error: formatter not scalar'' node (False, lad)
       else lift_w (Inr (True, lad\<lparr>lad_formatter := y_Scalar Y n\<rparr>)))"

text \<open>\<open>if (!step) return false\<close>, chaining the parts.\<close>

definition and_then :: "(bool \<times> 'a) wres \<Rightarrow> ('a \<Rightarrow> (bool \<times> 'a) wres) \<Rightarrow> (bool \<times> 'a) wres" where
  "and_then m f = bind_w m (\<lambda>(ok, x). if ok then f x else lift_w (Inr (False, x)))"

definition read_an_appender ::
    "'n yaml \<Rightarrow> log_appender_define \<Rightarrow> 'n \<Rightarrow> (bool \<times> log_appender_define) wres" where
  "read_an_appender Y lad node =
     and_then (read_appender_type Y lad node) (\<lambda>lad.
     and_then (read_appender_file Y lad node) (\<lambda>lad.
     and_then (read_appender_level Y lad node) (\<lambda>lad.
       read_appender_formatter Y lad node)))"

text \<open>The loop over the entries; one that cannot be read is skipped.\<close>

fun read_each :: "'n yaml \<Rightarrow> 'n list \<Rightarrow> log_define \<Rightarrow> log_define wres" where
  "read_each Y [] ld = lift_w (Inr ld)"
| "read_each Y (a # as) ld =
     bind_w (read_an_appender Y LogAppenderDefine_new a) (\<lambda>(ok, lad).
       read_each Y as (if ok then ld\<lparr>ld_appenders := ld_appenders ld @ [lad]\<rparr> else ld))"

definition read_appenders :: "'n yaml \<Rightarrow> log_define \<Rightarrow> 'n \<Rightarrow> (bool \<times> log_define) wres" where
  "read_appenders Y ld node =
     bind_w (lift_w (y_get Y node ''appenders'')) (\<lambda>n.
       if \<not> IsDefined Y n then complain Y ''log config warn: appenders not defined'' node (True, ld)
       else if \<not> IsSequence Y n then complain Y ''log config error: appenders not sequence'' node (False, ld)
       else bind_w (read_each Y (map (y_at Y n) [0..<y_size Y n]) ld) (\<lambda>ld. lift_w (Inr (True, ld))))"

text \<open>Whatever part fails, the definition read so far is returned.\<close>

definition LexicalCast_string_LogDefine :: "'n yaml \<Rightarrow> string \<Rightarrow> log_define wres" where
  "LexicalCast_string_LogDefine Y v =
     bind_w (lift_w (y_Load Y v)) (\<lambda>node.
       bind_w
         (and_then (read_name Y LogDefine_new node) (\<lambda>ld.
          and_then (read_level Y ld node) (\<lambda>ld.
          and_then (read_formatter Y ld node) (\<lambda>ld.
            read_appenders Y ld node))))
         (\<lambda>(ok, ld). lift_w (Inr ld)))"

subsection \<open>To text\<close>

definition set_if :: "'n yaml \<Rightarrow> bool \<Rightarrow> string \<Rightarrow> string \<Rightarrow> 'n \<Rightarrow> 'n" where
  "set_if Y b k s node = (if b then y_set Y k (y_of Y s) node else node)"

definition appender_node :: "'n yaml \<Rightarrow> log_appender_define \<Rightarrow> 'n" where
  "appender_node Y a =
     y_set Y ''type'' (y_of Y (TypeToString (lad_type a)))
       (set_if Y (lad_level a \<noteq> UNKNOW) ''level'' (LogLevel_ToString (lad_level a))
         (set_if Y (lad_formatter a \<noteq> []) ''formatter'' (lad_formatter a)
           (set_if Y (lad_file a \<noteq> []) ''file'' (lad_file a) (y_null Y))))"

fun put_appenders :: "'n yaml \<Rightarrow> nat \<Rightarrow> log_appender_define list \<Rightarrow> 'n \<Rightarrow> 'n" where
  "put_appenders Y n [] node = node"
| "put_appenders Y n (a # as) node = put_appenders Y (Suc n) as (y_set_at Y n (appender_node Y a) node)"

definition define_node :: "'n yaml \<Rightarrow> log_define \<Rightarrow> 'n" where
  "define_node Y ld =
     y_set Y ''appenders'' (put_appenders Y 0 (ld_appenders ld) (y_null Y))
       (y_set Y ''formatter'' (y_of Y (ld_formatter ld))
         (y_set Y ''level'' (y_of Y (LogLevel_ToString (ld_level ld)))
           (y_set Y ''name'' (y_of Y (ld_name ld)) (y_null Y))))"

definition LexicalCast_LogDefine_string :: "'n yaml \<Rightarrow> log_define \<Rightarrow> string res" where
  "LexicalCast_LogDefine_string Y ld = Inr (y_Emit Y (define_node Y ld))"

subsection \<open>Round trip\<close>

text \<open>
  The entries that survive printing: levels of the enumeration, appenders of a known type, and a
  file name exactly for the file appenders.
\<close>

definition printable_appender :: "log_appender_define \<Rightarrow> bool" where
  "printable_appender a \<longleftrightarrow> lad_level a \<noteq> DISABLED \<and> lad_type a \<noteq> TypeUNKNOW \<and>
     (lad_type a = TypeFileLogAppender \<longleftrightarrow> lad_file a \<noteq> [])"

definition printable_define :: "log_define \<Rightarrow> bool" where
  "printable_define ld \<longleftrightarrow> ld_level ld \<noteq> DISABLED \<and> list_all printable_appender (ld_appenders ld)"

lemma StringToType_TypeToString: "StringToType (TypeToString t) = t"
proof -
  have "StringToType (TypeToString TypeUNKNOW) = TypeUNKNOW"
    "StringToType (TypeToString TypeFileLogAppender) = TypeFileLogAppender"
    "StringToType (TypeToString TypeStdoutLogAppender) = TypeStdoutLogAppender"
    by code_simp+
  then show ?thesis by (cases t) simp_all
qed

text \<open>The keys of an appender's node, and the node as a map built in order.\<close>

definition appender_keys :: "'n yaml \<Rightarrow> log_appender_define \<Rightarrow> (string \<times> 'n) list" where
  "appender_keys Y a =
     (if lad_file a \<noteq> [] then [(''file'', y_of Y (lad_file a))] else []) @
     (if lad_formatter a \<noteq> [] then [(''formatter'', y_of Y (lad_formatter a))] else []) @
     (if lad_level a \<noteq> UNKNOW then [(''level'', y_of Y (LogLevel_ToString (lad_level a)))] else []) @
     [(''type'', y_of Y (TypeToString (lad_type a)))]"

lemma appender_node_map: "appender_node Y a = map_node Y (appender_keys Y a)"
  by (simp add: appender_node_def appender_keys_def set_if_def map_node_def)

definition define_keys :: "'n yaml \<Rightarrow> log_define \<Rightarrow> (string \<times> 'n) list" where
  "define_keys Y ld =
     [(''name'', y_of Y (ld_name ld)), (''level'', y_of Y (LogLevel_ToString (ld_level ld))),
      (''formatter'', y_of Y (ld_formatter ld)),
      (''appenders'', put_appenders Y 0 (ld_appenders ld) (y_null Y))]"

lemma define_node_map: "define_node Y ld = map_node Y (define_keys Y ld)"
  by (simp add: define_node_def define_keys_def map_node_def)

text \<open>
  Which maps show an entry, whatever the order of their keys: a key may be missing where the
  entry has the value a missing key is read as.
\<close>

definition shows_text :: "'n yaml \<Rightarrow> (string \<times> 'n) list \<Rightarrow> string \<Rightarrow> string \<Rightarrow> bool \<Rightarrow> bool" where
  "shows_text Y kvs k s optional \<longleftrightarrow> map_of kvs k = Some (y_of Y s) \<or> map_of kvs k = None \<and> optional"

definition shows_level :: "'n yaml \<Rightarrow> (string \<times> 'n) list \<Rightarrow> log_level \<Rightarrow> bool \<Rightarrow> bool" where
  "shows_level Y kvs l optional \<longleftrightarrow>
     (\<exists>s. LogLevel_FromString s = l \<and> shows_text Y kvs ''level'' s (optional \<and> l = UNKNOW))"

definition shows_appender :: "'n yaml \<Rightarrow> log_appender_define \<Rightarrow> (string \<times> 'n) list \<Rightarrow> bool" where
  "shows_appender Y a kvs \<longleftrightarrow> distinct (map fst kvs) \<and> lad_type a \<noteq> TypeUNKNOW \<and>
     shows_text Y kvs ''type'' (TypeToString (lad_type a)) False \<and>
     (if lad_type a = TypeFileLogAppender then shows_text Y kvs ''file'' (lad_file a) False else lad_file a = []) \<and>
     shows_level Y kvs (lad_level a) True \<and>
     shows_text Y kvs ''formatter'' (lad_formatter a) (lad_formatter a = [])"

definition shows_appenders :: "'n yaml \<Rightarrow> log_appender_define list \<Rightarrow> 'n list \<Rightarrow> bool" where
  "shows_appenders Y = list_all2 (\<lambda>a n. \<exists>kvs. n = map_node Y kvs \<and> shows_appender Y a kvs)"

definition shows_define :: "'n yaml \<Rightarrow> log_define \<Rightarrow> (string \<times> 'n) list \<Rightarrow> 'n list \<Rightarrow> bool" where
  "shows_define Y d kvs ns \<longleftrightarrow> distinct (map fst kvs) \<and>
     shows_text Y kvs ''name'' (ld_name d) False \<and>
     shows_level Y kvs (ld_level d) False \<and>
     shows_text Y kvs ''formatter'' (ld_formatter d) (ld_formatter d = []) \<and>
     shows_appenders Y (ld_appenders d) ns \<and>
     (map_of kvs ''appenders'' = Some (seq_node Y ns) \<or> map_of kvs ''appenders'' = None \<and> ns = [])"

lemma shows_level_ToString:
  assumes "map_of kvs ''level'' = Some (y_of Y (LogLevel_ToString l)) \<or> map_of kvs ''level'' = None \<and> optional \<and> l = UNKNOW"
  shows "shows_level Y kvs (if l = DISABLED then UNKNOW else l) optional"
  using assms unfolding shows_level_def
  by (intro exI [of _ "LogLevel_ToString l"]) (auto simp: shows_text_def FromString_ToString)

lemma shows_appender_keys: "printable_appender a \<Longrightarrow> shows_appender Y a (appender_keys Y a)"
  using shows_level_ToString [of "appender_keys Y a" Y "lad_level a" True]
  by (auto simp: printable_appender_def shows_appender_def shows_text_def appender_keys_def)

lemma fst_and_then: "fst (and_then m f) =
    bind_res (fst m) (\<lambda>(ok, x). if ok then fst (f x) else Inr (False, x))"
  by (auto simp: and_then_def split_beta intro!: arg_cong [of _ _ "bind_res (fst m)"])

context yaml_laws
begin

lemma scalar_simps: "IsDefined Y (y_of Y s)" "IsScalar Y (y_of Y s)"
  by (simp_all add: type_tests scalar_type)

lemma get_shown:
  assumes "distinct (map fst kvs)" and "shows_text Y kvs k s optional"
  obtains n where "y_get Y (map_node Y kvs) k = Inr n" "IsDefined Y n" "IsScalar Y n" "y_Scalar Y n = s"
  | n where "y_get Y (map_node Y kvs) k = Inr n" "\<not> IsDefined Y n" optional
proof (cases "map_of kvs k")
  case None
  then obtain n where "y_get Y (map_node Y kvs) k = Inr n" "\<not> IsDefined Y n"
    using map_get_other [OF assms(1)] by (auto simp: type_tests)
  with None assms(2) that(2) show thesis by (simp add: shows_text_def)
next
  case (Some n)
  with assms(2) have "map_of kvs k = Some (y_of Y s)" by (simp add: shows_text_def)
  then have "y_get Y (map_node Y kvs) k = Inr (y_of Y s)" by (rule map_get [OF assms(1)])
  then show thesis by (rule that(1)) (simp_all add: scalar_simps scalar_text)
qed

lemma read_shown_type:
  assumes "shows_appender Y a kvs"
  shows "fst (read_appender_type Y lad (map_node Y kvs)) = Inr (True, lad\<lparr>lad_type := lad_type a\<rparr>)"
proof -
  have d: "distinct (map fst kvs)" "shows_text Y kvs ''type'' (TypeToString (lad_type a)) False" "lad_type a \<noteq> TypeUNKNOW"
    using assms by (simp_all add: shows_appender_def)
  show ?thesis
    by (rule get_shown [OF d(1,2)]) (simp_all add: read_appender_type_def StringToType_TypeToString Let_def d(3))
qed

lemma read_shown_file:
  assumes "shows_appender Y a kvs" and "lad_type lad = lad_type a" and "lad_file lad = []"
  shows "fst (read_appender_file Y lad (map_node Y kvs)) = Inr (True, lad\<lparr>lad_file := lad_file a\<rparr>)"
proof (cases "lad_type a = TypeFileLogAppender")
  case True
  then have d: "distinct (map fst kvs)" "shows_text Y kvs ''file'' (lad_file a) False"
    using assms(1) by (simp_all add: shows_appender_def)
  show ?thesis by (rule get_shown [OF d]) (simp_all add: read_appender_file_def True assms(2))
next
  case False
  then have "lad_file a = []" using assms(1) by (simp add: shows_appender_def)
  with False assms(2,3) show ?thesis by (simp add: read_appender_file_def)
qed

lemma read_shown_level:
  assumes "shows_appender Y a kvs" and "lad_level lad = UNKNOW"
  shows "fst (read_appender_level Y lad (map_node Y kvs)) = Inr (True, lad\<lparr>lad_level := lad_level a\<rparr>)"
proof -
  have d: "distinct (map fst kvs)" "shows_level Y kvs (lad_level a) True"
    using assms by (simp_all add: shows_appender_def)
  from d(2) obtain t where t: "LogLevel_FromString t = lad_level a" "shows_text Y kvs ''level'' t (lad_level a = UNKNOW)"
    by (auto simp: shows_level_def)
  show ?thesis
    by (rule get_shown [OF d(1) t(2)]) (simp_all add: read_appender_level_def complain_def t(1) assms(2))
qed

lemma read_shown_formatter:
  assumes "shows_appender Y a kvs" and "lad_formatter lad = []"
  shows "fst (read_appender_formatter Y lad (map_node Y kvs)) = Inr (True, lad\<lparr>lad_formatter := lad_formatter a\<rparr>)"
proof -
  have d: "distinct (map fst kvs)" "shows_text Y kvs ''formatter'' (lad_formatter a) (lad_formatter a = [])"
    using assms by (simp_all add: shows_appender_def)
  show ?thesis by (rule get_shown [OF d]) (simp_all add: read_appender_formatter_def complain_def assms(2))
qed

lemma read_shown_appender:
  assumes "shows_appender Y a kvs"
  shows "fst (read_an_appender Y LogAppenderDefine_new (map_node Y kvs)) = Inr (True, a)"
  unfolding LogAppenderDefine_new_def read_an_appender_def
  using read_shown_type [OF assms] read_shown_file [OF assms] read_shown_level [OF assms] read_shown_formatter [OF assms]
  by (simp add: fst_and_then)

lemma read_shown_each:
  "shows_appenders Y as ns \<Longrightarrow> fst (read_each Y ns ld) = Inr (ld\<lparr>ld_appenders := ld_appenders ld @ as\<rparr>)"
  unfolding shows_appenders_def
  by (induction as ns arbitrary: ld rule: list_all2_induct) (auto simp: read_shown_appender)

lemma read_shown_appenders:
  assumes "shows_define Y d kvs ns" and "ld_appenders ld = []"
  shows "\<exists>ok. fst (read_appenders Y ld (map_node Y kvs)) = Inr (ok, ld\<lparr>ld_appenders := ld_appenders d\<rparr>)"
proof -
  have d: "distinct (map fst kvs)" "shows_appenders Y (ld_appenders d) ns" using assms(1) by (simp_all add: shows_define_def)
  have len: "ld_appenders d = [] \<longleftrightarrow> ns = []" using d(2) by (auto simp: shows_appenders_def dest: list_all2_lengthD)
  consider (none) n where "y_get Y (map_node Y kvs) ''appenders'' = Inr n" "\<not> IsDefined Y n" "ns = []"
    | (null) "y_get Y (map_node Y kvs) ''appenders'' = Inr (seq_node Y ns)" "ns = []"
    | (some) "y_get Y (map_node Y kvs) ''appenders'' = Inr (seq_node Y ns)" "ns \<noteq> []"
  proof (cases "map_of kvs ''appenders''")
    case None
    with assms(1) map_get_other [OF d(1) None] none show thesis by (auto simp: shows_define_def type_tests)
  next
    case (Some n)
    with assms(1) have "n = seq_node Y ns" by (auto simp: shows_define_def)
    with map_get [OF d(1) Some] null some show thesis by (cases "ns = []") simp_all
  qed
  then show ?thesis
  proof cases
    case none
    with len assms(2) show ?thesis by (intro exI [of _ True]) (simp add: read_appenders_def complain_def)
  next
    case null
    then have "y_Type Y (seq_node Y ns) = NNull" by (simp add: seq_node_def null_type)
    with null len assms(2) show ?thesis
      by (intro exI [of _ False]) (simp add: read_appenders_def type_tests complain_def)
  next
    case some
    with d(2) assms(2) show ?thesis
      by (intro exI [of _ True]) (simp add: read_appenders_def type_tests seq_type seq_read read_shown_each)
  qed
qed

lemma read_shown_define:
  assumes "shows_define Y d kvs ns" and "doc Y (map_node Y kvs)"
  shows "fst (LexicalCast_string_LogDefine Y (y_Emit Y (map_node Y kvs))) = Inr d"
proof -
  let ?node = "map_node Y kvs"
  have d: "distinct (map fst kvs)" "shows_level Y kvs (ld_level d) False" "shows_text Y kvs ''name'' (ld_name d) False"
    "shows_text Y kvs ''formatter'' (ld_formatter d) (ld_formatter d = [])"
    using assms(1) by (simp_all add: shows_define_def)
  from d(2) obtain t where t: "LogLevel_FromString t = ld_level d" "shows_text Y kvs ''level'' t False"
    by (auto simp: shows_level_def)
  have name: "fst (read_name Y ld ?node) = Inr (True, ld\<lparr>ld_name := ld_name d\<rparr>)" for ld
    by (rule get_shown [OF d(1,3)]) (simp_all add: read_name_def)
  have level: "fst (read_level Y ld ?node) = Inr (True, ld\<lparr>ld_level := ld_level d\<rparr>)" for ld
    by (rule get_shown [OF d(1) t(2)]) (simp_all add: read_level_def t(1))
  have formatter: "fst (read_formatter Y ld ?node) = Inr (True, ld\<lparr>ld_formatter := ld_formatter d\<rparr>)"
    if "ld_formatter ld = []" for ld
    by (rule get_shown [OF d(1,4)]) (simp_all add: that read_formatter_def complain_def)
  let ?ld = "\<lparr>ld_name = ld_name d, ld_level = ld_level d, ld_formatter = ld_formatter d, ld_appenders = []\<rparr>"
  obtain ok where ok: "fst (read_appenders Y ?ld ?node) = Inr (ok, d)"
    using read_shown_appenders [OF assms(1), of ?ld] by auto
  show ?thesis
    by (simp add: LexicalCast_string_LogDefine_def load_emit [OF assms(2)] fst_and_then name level formatter ok
        LogDefine_new_def)
qed

lemma put_appenders_seq:
  "put_appenders Y (length ns) as (seq_node Y ns) = seq_node Y (ns @ map (appender_node Y) as)"
proof (induction as arbitrary: ns)
  case (Cons a as)
  from Cons.IH [of "ns @ [appender_node Y a]"] show ?case by (simp add: set_at_end)
qed simp

lemma put_appenders_null: "put_appenders Y 0 as (y_null Y) = seq_node Y (map (appender_node Y) as)"
  using put_appenders_seq [of "[]" as] by (simp add: seq_node_def)

lemma doc_appender: "doc Y (appender_node Y a)"
  unfolding appender_node_map by (rule doc_map) (auto simp: appender_keys_def intro: doc_of)

lemma doc_define: "doc Y (define_node Y ld)"
  unfolding define_node_map
proof (rule doc_map)
  have "doc Y (seq_node Y (map (appender_node Y) (ld_appenders ld)))" by (rule doc_seq) (simp add: doc_appender)
  then show "\<forall>(k, n) \<in> set (define_keys Y ld). doc Y n"
    by (auto simp: define_keys_def put_appenders_null intro: doc_of)
qed (simp add: define_keys_def)

lemma shows_define_keys:
  assumes "printable_define d"
  shows "shows_define Y d (define_keys Y d) (map (appender_node Y) (ld_appenders d))"
proof -
  have "shows_appenders Y (ld_appenders d) (map (appender_node Y) (ld_appenders d))"
    using assms shows_appender_keys
    by (auto simp: shows_appenders_def printable_define_def list_all2_conv_all_nth list_all_length appender_node_map)
  moreover have "shows_level Y (define_keys Y d) (ld_level d) False"
    using assms shows_level_ToString [of "define_keys Y d" Y "ld_level d" False]
    by (simp add: define_keys_def printable_define_def)
  ultimately show ?thesis
    by (simp add: shows_define_def shows_text_def define_keys_def put_appenders_null)
qed

lemma read_printed_define:
  assumes "printable_define d"
  shows "fst (LexicalCast_string_LogDefine Y (y_Emit Y (define_node Y d))) = Inr d"
  using read_shown_define [OF shows_define_keys [OF assms]] doc_define [of d] by (simp add: define_node_map)

lemma log_define_is_codec:
  "yaml_codec Y printable_define (LexicalCast_string_LogDefine Y) (LexicalCast_LogDefine_string Y)"
  by unfold_locales
    (simp add: LexicalCast_LogDefine_string_def read_printed_define load_emit [OF doc_define])

end

end
