(* ===== verification/Log_Config.thy ===== *)
theory Log_Config
  imports Log_Define Logger_Delivery Config_Registry
begin

text \<open>
  How the configuration drives the logging system: the listener that \<open>LogIniter\<close> installs on the
  variable \<open>logs\<close> (\<^verbatim>\<open>sylar/log.cc\<close>), and the functions that print the loggers as YAML.
\<close>

subsection \<open>The listener\<close>

text \<open>A logging statement; the recursion of \<open>Logger::log\<close> is at most two deep.\<close>

definition log_stmt :: "io_env \<Rightarrow> log_site \<Rightarrow> nat \<Rightarrow> log_level \<Rightarrow> string \<Rightarrow> log_state \<Rightarrow> log_state res" where
  "log_stmt io site lg level text st =
     (case SYLAR_LOG_LEVEL 2 io site lg level text st of
        None \<Rightarrow> Inl (UndefinedBehaviour ''unbounded recursion'')
      | Some r \<Rightarrow> r)"

text \<open>\<open>ap.reset(new ...)\<close>\<close>

definition new_appender :: "io_env \<Rightarrow> log_appender_define \<Rightarrow> log_state \<Rightarrow> nat \<times> log_state" where
  "new_appender io a st =
     (if lad_type a = TypeFileLogAppender then FileLogAppender_new io (lad_file a) st
      else StdoutLogAppender_new st)"

text \<open>The loop over the appenders of an entry: an unknown type ends it.\<close>

definition add_one :: "io_env \<Rightarrow> nat \<Rightarrow> log_appender_define \<Rightarrow> log_state \<Rightarrow> log_state res" where
  "add_one io lg a st =
     (let (ap, st1) = new_appender io a st;
          st2 = LogAppender_setLevel ap (lad_level a) st1;
          st3 = (if lad_formatter a \<noteq> []
                 then LogAppender_setFormatter ap (Some (LogFormatter_new (lad_formatter a))) st2
                 else st2)
      in Logger_addAppender lg ap st3)"

fun add_appenders :: "io_env \<Rightarrow> nat \<Rightarrow> log_appender_define list \<Rightarrow> log_state \<Rightarrow> log_state res" where
  "add_appenders io lg [] st = Inr st"
| "add_appenders io lg (a # as) st =
     (if lad_type a = TypeUNKNOW then Inr (put_stdout (''Unknown Appender Type'' @ [CHR 0x0A]) st)
      else bind_res (add_one io lg a st) (add_appenders io lg as))"

text \<open>What is done for a new or a changed entry.\<close>

definition apply_define :: "io_env \<Rightarrow> log_define \<Rightarrow> log_state \<Rightarrow> log_state res" where
  "apply_define io i st =
     (let (logger, st1) = LoggerManager_getLogger (ld_name i) st;
          st2 = Logger_setLevel logger (ld_level i) st1
      in bind_res (if ld_formatter i \<noteq> [] then Logger_setFormatter_str logger (ld_formatter i) st2 else Inr st2)
           (\<lambda>st3. add_appenders io logger (ld_appenders i) (Logger_clearAppenders logger st3)))"

text \<open>What is done for a removed entry.\<close>

definition remove_define :: "log_define \<Rightarrow> log_state \<Rightarrow> log_state" where
  "remove_define i st =
     (let (logger, st1) = LoggerManager_getLogger (ld_name i) st
      in Logger_clearAppenders logger (Logger_setLevel logger DISABLED st1))"

definition update_one :: "io_env \<Rightarrow> log_define list \<Rightarrow> log_define \<Rightarrow> log_state \<Rightarrow> log_state res" where
  "update_one io old_value i st =
     (case sset_find ld_name old_value (ld_name i) of
        None \<Rightarrow> apply_define io i st
      | Some j \<Rightarrow> if i \<noteq> j then apply_define io i st else Inr st)"

definition remove_one :: "log_define list \<Rightarrow> log_define \<Rightarrow> log_state \<Rightarrow> log_state" where
  "remove_one new_value i st =
     (case sset_find ld_name new_value (ld_name i) of
        None \<Rightarrow> remove_define i st
      | Some j \<Rightarrow> st)"

definition on_logger_conf_changed ::
    "io_env \<Rightarrow> log_site \<Rightarrow> log_define list \<Rightarrow> log_define list \<Rightarrow> log_state \<Rightarrow> log_state res" where
  "on_logger_conf_changed io site old_value new_value st =
     bind_res (log_stmt io site (mgr_root st) DEBUG ''on_logger_conf_changed!'' st) (\<lambda>st1.
     bind_res (fold_res (update_one io old_value) new_value st1) (\<lambda>st2.
       Inr (fold (remove_one new_value) old_value st2)))"

subsection \<open>The variable logs\<close>

text \<open>
  The world of the configuration system when it drives the logging system: the environment and the
  place of the statement being run, and the state. A statement that ends the program leaves no
  state; the last one is kept.
\<close>

record log_world =
  lw_io :: io_env
  lw_site :: log_site
  lw_state :: log_state

definition root_diag :: "log_world diag_env" where
  "root_diag =
     \<lparr>log_enabled = (\<lambda>w. case st_loggers (lw_state w) (mgr_root (lw_state w)) of
         None \<Rightarrow> False | Some l \<Rightarrow> l_level l \<le> ERROR),
      log_put = (\<lambda>text w.
         case log_stmt (lw_io w) (lw_site w) (mgr_root (lw_state w)) ERROR text (lw_state w) of
           Inl _ \<Rightarrow> w | Inr st \<Rightarrow> w\<lparr>lw_state := st\<rparr>),
      put_cout = (\<lambda>text w. w\<lparr>lw_state := put_stdout text (lw_state w)\<rparr>)\<rparr>"

text \<open>The type \<open>std::set<LogDefine>\<close>; its type name is given by the compiler.\<close>

definition logs_type :: "'n yaml \<Rightarrow> string \<Rightarrow> log_define list config_type" where
  "logs_type Y type_name =
     \<lparr>ty_name = type_name,
      FromStr = LexicalCast_string_set Y ld_name (LexicalCast_string_LogDefine Y),
      ToStr = LexicalCast_set_string Y (LexicalCast_LogDefine_string Y)\<rparr>"

definition g_log_defines :: "'n yaml \<Rightarrow> string \<Rightarrow> (log_define list, log_world) config \<Rightarrow> log_world \<Rightarrow>
    nat res \<times> (log_define list, log_world) config \<times> log_world" where
  "g_log_defines Y type_name c w =
     Config_Lookup_default root_diag (logs_type Y type_name) ''logs'' [] ''logs config'' c w"

definition logs_listener :: "(log_define list, log_world) on_change_cb" where
  "logs_listener old_value new_value w =
     (case on_logger_conf_changed (lw_io w) (lw_site w) old_value new_value (lw_state w) of
        Inl e \<Rightarrow> (Some e, w)
      | Inr st \<Rightarrow> (None, w\<lparr>lw_state := st\<rparr>))"

definition new_launch :: string where
  "new_launch = ''New Launch            '' @ [CHR 0x0A] @
     ''==============================================================='' @ [CHR 0x0A]"

definition LogIniter_new :: "64 word \<Rightarrow> (log_define list, log_world) config_var \<Rightarrow> log_world \<Rightarrow>
    (64 word \<times> (log_define list, log_world) config_var \<times> log_world) res" where
  "LogIniter_new s_fun_id var w =
     (let io = lw_io w; site = lw_site w; root = mgr_root (lw_state w)
      in bind_res (log_stmt io site root INFO new_launch (lw_state w)) (\<lambda>st1.
         bind_res (log_stmt io site root DEBUG ''LogIniter() construction'' st1) (\<lambda>st2.
           let (key, s_fun_id', var') = ConfigVar_addListener logs_listener s_fun_id var
           in Inr (s_fun_id', var', w\<lparr>lw_state :=
                put_stdout (''LogIniter g_log_defines listener cb id:'' @ dec_unsigned key @ [CHR 0x0A]) st2\<rparr>))))"

definition print_log_config_var :: "(log_define list, log_world) config_var \<Rightarrow> log_world \<Rightarrow> unit res \<times> log_world" where
  "print_log_config_var var w =
     (case ConfigVar_toString root_diag var w of
        (Inl e, w') \<Rightarrow> (Inl e, w')
      | (Inr s, w') \<Rightarrow> (Inr (), w'\<lparr>lw_state := put_stdout (s @ [CHR 0x0A]) (lw_state w')\<rparr>))"

subsection \<open>Printing the loggers\<close>

definition set_formatter_node :: "'n yaml \<Rightarrow> log_formatter option \<Rightarrow> 'n \<Rightarrow> 'n" where
  "set_formatter_node Y f node =
     (case f of None \<Rightarrow> node | Some f \<Rightarrow> y_set Y ''formatter'' (y_of Y (m_pattern f)) node)"

definition StdoutLogAppender_toYamlString :: "'n yaml \<Rightarrow> log_appender \<Rightarrow> string" where
  "StdoutLogAppender_toYamlString Y ap =
     y_Emit Y (set_formatter_node Y (a_formatter ap)
       (set_if Y (a_level ap \<noteq> UNKNOW) ''level'' (LogLevel_ToString (a_level ap))
         (y_set Y ''type'' (y_of Y ''StdoutLogAppender'') (y_null Y))))"

definition FileLogAppender_toYamlString :: "'n yaml \<Rightarrow> log_appender \<Rightarrow> string" where
  "FileLogAppender_toYamlString Y ap =
     y_Emit Y (set_formatter_node Y (a_formatter ap)
       (y_set Y ''file'' (y_of Y (m_filename (a_kind ap)))
         (set_if Y (a_level ap \<noteq> UNKNOW) ''level'' (LogLevel_ToString (a_level ap))
           (y_set Y ''type'' (y_of Y ''FileLogAppender'') (y_null Y)))))"

definition LogAppender_toYamlString :: "'n yaml \<Rightarrow> log_appender \<Rightarrow> string" where
  "LogAppender_toYamlString Y ap =
     (case a_kind ap of
        StdoutLogAppender \<Rightarrow> StdoutLogAppender_toYamlString Y ap
      | FileLogAppender _ _ _ \<Rightarrow> FileLogAppender_toYamlString Y ap)"

text \<open>The loop \<open>push_back(YAML::Load(i->toYamlString()))\<close>.\<close>

fun push_loaded :: "'n yaml \<Rightarrow> string res list \<Rightarrow> 'n \<Rightarrow> 'n res" where
  "push_loaded Y [] node = Inr node"
| "push_loaded Y (r # rs) node =
     bind_res r (\<lambda>s. bind_res (y_Load Y s) (\<lambda>n. push_loaded Y rs (y_push Y node n)))"

definition appender_text :: "'n yaml \<Rightarrow> log_state \<Rightarrow> nat \<Rightarrow> string res" where
  "appender_text Y st a =
     (case st_appenders st a of None \<Rightarrow> Inl NullDeref | Some ap \<Rightarrow> Inr (LogAppender_toYamlString Y ap))"

text \<open>\<open>node["appenders"]\<close> comes to exist with the first \<open>push_back\<close>.\<close>

definition Logger_toYamlString :: "'n yaml \<Rightarrow> log_state \<Rightarrow> nat \<Rightarrow> string res" where
  "Logger_toYamlString Y st lg =
     (case st_loggers st lg of
        None \<Rightarrow> Inl NullDeref
      | Some l \<Rightarrow>
          (let node = set_formatter_node Y (l_formatter l)
                 (y_set Y ''level'' (y_of Y (LogLevel_ToString (l_level l)))
                   (y_set Y ''name'' (y_of Y (l_name l)) (y_null Y)))
           in if l_appenders l = [] then Inr (y_Emit Y node)
              else bind_res (push_loaded Y (map (appender_text Y st) (l_appenders l)) (y_null Y)) (\<lambda>apps.
                Inr (y_Emit Y (y_set Y ''appenders'' apps node)))))"

definition LoggerManager_toYamlString :: "'n yaml \<Rightarrow> log_state \<Rightarrow> string res" where
  "LoggerManager_toYamlString Y st =
     bind_res (push_loaded Y (map (\<lambda>(name, lg). Logger_toYamlString Y st lg) (mgr_loggers st)) (y_null Y))
       (\<lambda>node. Inr (y_Emit Y node))"

end
