(* ===== verification/Log_Config_Spec.thy ===== *)
theory Log_Config_Spec
  imports Log_Config
begin

text \<open>
  The abstract specification of reconfiguration and its refinement. The observable state of the
  logging system is, for each name, the level of the logger, its formatter, and its appenders with
  their level, formatter and destination. Each entry of the configuration is a function on these
  views; \<open>apply_define\<close>, \<open>remove_define\<close> and the listener implement it.
\<close>

subsection \<open>Views\<close>

type_synonym appender_view = "log_level \<times> log_formatter option \<times> bool \<times> sink"

type_synonym logger_view = "log_level \<times> log_formatter option \<times> appender_view option list"

definition appender_view :: "log_state \<Rightarrow> nat \<Rightarrow> appender_view option" where
  "appender_view st a = map_option appender_sig (st_appenders st a)"

definition view_of :: "log_state \<Rightarrow> logger \<Rightarrow> logger_view" where
  "view_of st l = (l_level l, l_formatter l, map (appender_view st) (l_appenders l))"

definition logger_view :: "log_state \<Rightarrow> string \<Rightarrow> logger_view option" where
  "logger_view st name =
     (case smap_find (mgr_loggers st) name of
        None \<Rightarrow> None
      | Some lg \<Rightarrow> map_option (view_of st) (st_loggers st lg))"

text \<open>The specification: what an entry makes of a view.\<close>

definition define_formatter :: "log_define \<Rightarrow> logger_view option \<Rightarrow> log_formatter option" where
  "define_formatter i v =
     (if ld_formatter i \<noteq> [] \<and> \<not> m_error (LogFormatter_new (ld_formatter i))
      then Some (LogFormatter_new (ld_formatter i))
      else case v of
        None \<Rightarrow> Some (LogFormatter_new Logger_default_pattern)
      | Some (_, f, _) \<Rightarrow> f)"

definition spec_appender :: "log_formatter option \<Rightarrow> log_appender_define \<Rightarrow> appender_view option" where
  "spec_appender f a =
     Some (lad_level a,
       (if lad_formatter a \<noteq> [] then Some (LogFormatter_new (lad_formatter a)) else f), True,
       (if lad_type a = TypeFileLogAppender then File (lad_file a) else Console))"

definition configured :: "log_define \<Rightarrow> logger_view option \<Rightarrow> logger_view" where
  "configured i v =
     (let f = define_formatter i v
      in (ld_level i, f, map (spec_appender f) (takeWhile (\<lambda>a. lad_type a \<noteq> TypeUNKNOW) (ld_appenders i))))"

definition removed :: "logger_view option \<Rightarrow> logger_view" where
  "removed v = (DISABLED, (case v of None \<Rightarrow> Some (LogFormatter_new Logger_default_pattern) | Some (_, f, _) \<Rightarrow> f), [])"

subsection \<open>Views under the operations\<close>

lemma view_frame: "log_frame st st' \<Longrightarrow> logger_view st' = logger_view st"
proof
  fix name
  assume fr: "log_frame st st'"
  then have "appender_view st' = appender_view st" by (auto simp: log_frame_def appender_view_def)
  then have "view_of st' = view_of st" by (auto simp: view_of_def)
  with fr show "logger_view st' name = logger_view st name"
    by (simp add: logger_view_def log_frame_def split: option.splits)
qed

text \<open>Changing one logger, and adding appenders at new addresses, leaves the other views alone.\<close>

definition only_changes :: "nat \<Rightarrow> log_state \<Rightarrow> log_state \<Rightarrow> bool" where
  "only_changes lg st st' \<longleftrightarrow>
     mgr_loggers st' = mgr_loggers st \<and> st_next st \<le> st_next st' \<and>
     (\<forall>g. g \<noteq> lg \<longrightarrow> st_loggers st' g = st_loggers st g) \<and>
     (\<forall>a < st_next st. appender_view st' a = appender_view st a)"

lemma only_changes_refl: "only_changes lg st st"
  by (simp add: only_changes_def)

lemma only_changes_trans: "only_changes lg st st' \<Longrightarrow> only_changes lg st' st'' \<Longrightarrow> only_changes lg st st''"
  by (simp add: only_changes_def)

lemma view_of_only_changes:
  assumes "wf_objects nulls st" and "only_changes lg st st'" and "st_loggers st g = Some l"
  shows "map (appender_view st') (l_appenders l) = map (appender_view st) (l_appenders l)"
proof -
  have "a < st_next st" if "a \<in> set (l_appenders l)" for a
    using wf_logger(4) [OF assms(1,3)] wf_appender(1) [OF assms(1)] that by (auto simp: attached_def)
  with assms(2) show ?thesis by (simp add: only_changes_def)
qed

lemma view_other:
  assumes wf: "wf_state nulls st" and oc: "only_changes lg st st'"
    and lg: "smap_find (mgr_loggers st) name = Some lg" and ne: "n \<noteq> name"
  shows "logger_view st' n = logger_view st n"
proof (cases "smap_find (mgr_loggers st) n")
  case None
  with oc show ?thesis by (simp add: logger_view_def only_changes_def)
next
  case (Some g)
  with wf lg have "mgr_entry st n g" "mgr_entry st name lg" by (auto simp: wf_state_def wf_mgr_def)
  with ne have "g \<noteq> lg" by (auto simp: mgr_entry_def)
  from \<open>mgr_entry st n g\<close> obtain l where l: "st_loggers st g = Some l" by (auto simp: mgr_entry_def)
  with \<open>g \<noteq> lg\<close> Some oc view_of_only_changes [OF wf_state_objects [OF wf] oc l] show ?thesis
    by (simp add: logger_view_def view_of_def only_changes_def)
qed

lemma only_changes_upd_logger: "only_changes lg st (upd_logger lg f st)"
  by (simp add: only_changes_def store_simps appender_view_def)

lemma only_changes_frame: "log_frame st st' \<Longrightarrow> only_changes lg st st'"
  by (simp add: only_changes_def log_frame_def appender_view_def)

text \<open>One turn of the loop over the appenders.\<close>

lemma new_appender_spec:
  assumes "lad_type a \<noteq> TypeUNKNOW" and "new_appender io a st = (ap, st1)"
  shows "ap = st_next st" "st_next st1 = Suc (st_next st)" "st_loggers st1 = st_loggers st"
    "mgr_loggers st1 = mgr_loggers st"
    "\<forall>b < st_next st. appender_view st1 b = appender_view st b"
    "\<exists>x. st_appenders st1 ap = Some x \<and> a_formatter x = None \<and> \<not> a_has_formatter x \<and>
       kind_sink (a_kind x) = (if lad_type a = TypeFileLogAppender then File (lad_file a) else Console)"
proof -
  obtain k where k: "ap = fst (alloc_appender k st)" "log_frame (snd (alloc_appender k st)) st1"
    "kind_sink k = (if lad_type a = TypeFileLogAppender then File (lad_file a) else Console)"
  proof (cases "lad_type a = TypeFileLogAppender")
    case True
    then have eq: "FileLogAppender_new io (lad_file a) st = (ap, st1)" using assms(2) by (simp add: new_appender_def)
    from FileLogAppender_new_frame [of "lad_file a" io st] obtain k where "kind_sink k = File (lad_file a)"
      "ap = fst (alloc_appender k st)" "log_frame (snd (alloc_appender k st)) st1"
      unfolding eq by auto
    with True show ?thesis by (intro that [of k]) simp_all
  next
    case False
    then have "alloc_appender StdoutLogAppender st = (ap, st1)"
      using assms(2) by (simp add: new_appender_def StdoutLogAppender_new_def)
    with False show ?thesis by (intro that [of StdoutLogAppender]) simp_all
  qed
  let ?st0 = "snd (alloc_appender k st)"
  have same: "st_next st1 = st_next ?st0" "st_loggers st1 = st_loggers ?st0" "mgr_loggers st1 = mgr_loggers ?st0"
    "\<And>b. map_option appender_sig (st_appenders st1 b) = map_option appender_sig (st_appenders ?st0 b)"
    using k(2) unfolding log_frame_def by blast+
  show "ap = st_next st" "st_next st1 = Suc (st_next st)" "st_loggers st1 = st_loggers st"
    "mgr_loggers st1 = mgr_loggers st"
    unfolding k(1) same(1-3) by (simp_all add: store_simps)
  show "\<forall>b < st_next st. appender_view st1 b = appender_view st b"
    unfolding appender_view_def same(4) by (simp add: store_simps)
  have "st_appenders (snd (alloc_appender k st)) ap =
      Some \<lparr>a_kind = k, a_level = DEBUG, a_formatter = None, a_has_formatter = False\<rparr>"
    using k(1) by (simp add: store_simps)
  then obtain x where "st_appenders st1 ap = Some x" "a_formatter x = None" "\<not> a_has_formatter x"
    "kind_sink (a_kind x) = kind_sink k"
    by (rule log_frame_appender [OF k(2)]) simp
  with k(3) show "\<exists>x. st_appenders st1 ap = Some x \<and> a_formatter x = None \<and> \<not> a_has_formatter x \<and>
       kind_sink (a_kind x) = (if lad_type a = TypeFileLogAppender then File (lad_file a) else Console)"
    by (intro exI [of _ x]) simp
qed

lemma wf_new_appender: "wf_state nulls st \<Longrightarrow> wf_state nulls (snd (new_appender io a st))"
  by (simp add: new_appender_def wf_StdoutLogAppender_new wf_FileLogAppender_new)

lemma addAppender_effect:
  assumes "st_loggers st lg = Some l" and "st_appenders st a = Some x" and "l_formatter l \<noteq> None"
  shows "\<exists>st'. Logger_addAppender lg a st = Inr st' \<and> st_next st' = st_next st \<and> mgr_loggers st' = mgr_loggers st \<and>
    st_loggers st' = (st_loggers st)(lg \<mapsto> l\<lparr>l_appenders := l_appenders l @ [a]\<rparr>) \<and>
    st_appenders st' = (st_appenders st)(a \<mapsto>
      (if a_formatter x = None then x\<lparr>a_formatter := l_formatter l, a_has_formatter := True\<rparr> else x))"
  using assms
  by (auto simp: Logger_addAppender_def LogAppender_setFormatter_def Let_def upd_logger_def upd_appender_def)

lemma add_one_spec:
  assumes wf: "wf_state nulls st" and l: "st_loggers st lg = Some l" and t: "lad_type a \<noteq> TypeUNKNOW"
  shows "\<exists>st'. add_one io lg a st = Inr st' \<and> wf_state nulls st' \<and> only_changes lg st st' \<and>
    st_loggers st' lg = Some (l\<lparr>l_appenders := l_appenders l @ [st_next st]\<rparr>) \<and>
    st_next st' = Suc (st_next st) \<and> appender_view st' (st_next st) = spec_appender (l_formatter l) a"
proof -
  obtain ap st1 where n: "new_appender io a st = (ap, st1)" by fastforce
  note s = new_appender_spec [OF t n]
  from s(6) obtain x where x: "st_appenders st1 ap = Some x" "a_formatter x = None" "\<not> a_has_formatter x"
    "kind_sink (a_kind x) = (if lad_type a = TypeFileLogAppender then File (lad_file a) else Console)" by blast
  define st2 where "st2 = LogAppender_setLevel ap (lad_level a) st1"
  define f where "f = (if lad_formatter a \<noteq> [] then Some (LogFormatter_new (lad_formatter a)) else None)"
  define st3 where "st3 = (case f of None \<Rightarrow> st2 | Some f \<Rightarrow> LogAppender_setFormatter ap (Some f) st2)"
  define y where "y = (case f of None \<Rightarrow> x\<lparr>a_level := lad_level a\<rparr>
    | Some f \<Rightarrow> x\<lparr>a_level := lad_level a, a_formatter := Some f, a_has_formatter := True\<rparr>)"
  have st3: "st_appenders st3 = (st_appenders st1)(ap \<mapsto> y)" "st_loggers st3 = st_loggers st1"
      "st_next st3 = st_next st1" "mgr_loggers st3 = mgr_loggers st1"
    using x(1) by (auto simp: st3_def st2_def y_def LogAppender_setLevel_def LogAppender_setFormatter_def
        upd_appender_def split: option.splits)
  have "wf_state nulls st1" using wf_new_appender [OF wf, of io a] n by simp
  then have wf3: "wf_state nulls st3" by (auto simp: st3_def st2_def intro: wf_setLevel wf_setFormatter split: option.splits)
  have lf: "l_formatter l \<noteq> None" using wf_logger(2) [OF wf_state_objects [OF wf] l] .
  have l3: "st_loggers st3 lg = Some l" using l s(3) st3(2) by simp
  have y3: "st_appenders st3 ap = Some y" using st3(1) by simp
  obtain st' where st': "Logger_addAppender lg ap st3 = Inr st'" "st_next st' = st_next st3"
    "mgr_loggers st' = mgr_loggers st3" "st_loggers st' = (st_loggers st3)(lg \<mapsto> l\<lparr>l_appenders := l_appenders l @ [ap]\<rparr>)"
    "st_appenders st' = (st_appenders st3)(ap \<mapsto>
      (if a_formatter y = None then y\<lparr>a_formatter := l_formatter l, a_has_formatter := True\<rparr> else y))"
    using addAppender_effect [OF l3 y3 lf] by blast
  have "add_one io lg a st = Inr st'"
    using st'(1) n by (cases "lad_formatter a = []") (simp_all add: add_one_def Let_def st3_def st2_def f_def)
  moreover have "wf_state nulls st'" using wf_addAppender [OF wf3 st'(1)] .
  moreover have "only_changes lg st st'"
    using s st' st3 by (auto simp: only_changes_def appender_view_def)
  moreover have "appender_view st' ap = spec_appender (l_formatter l) a"
    using x st'(5) by (simp add: appender_view_def appender_sig_def spec_appender_def y_def f_def)
  ultimately show ?thesis using s(1,2) st' st3 by auto
qed

lemma add_appenders_spec:
  assumes "wf_state nulls st" and "st_loggers st lg = Some l"
  shows "\<exists>st' new. add_appenders io lg as st = Inr st' \<and> wf_state nulls st' \<and> only_changes lg st st' \<and>
    st_loggers st' lg = Some (l\<lparr>l_appenders := l_appenders l @ new\<rparr>) \<and>
    map (appender_view st') new = map (spec_appender (l_formatter l)) (takeWhile (\<lambda>a. lad_type a \<noteq> TypeUNKNOW) as)"
  using assms
proof (induction as arbitrary: st l)
  case Nil
  then show ?case by (intro exI [of _ st] exI [of _ "[]"]) (simp add: only_changes_refl)
next
  case (Cons a as)
  show ?case
  proof (cases "lad_type a = TypeUNKNOW")
    case True
    with Cons.prems show ?thesis
      by (intro exI [of _ "put_stdout _ st"] exI [of _ "[]"])
        (auto simp: store_simps intro: wf_state_frame put_stdout_frame only_changes_frame)
  next
    case False
    from add_one_spec [OF Cons.prems False, of io] obtain st1 where st1: "add_one io lg a st = Inr st1" "wf_state nulls st1"
      "only_changes lg st st1" "st_loggers st1 lg = Some (l\<lparr>l_appenders := l_appenders l @ [st_next st]\<rparr>)"
      "st_next st1 = Suc (st_next st)" "appender_view st1 (st_next st) = spec_appender (l_formatter l) a" by blast
    from Cons.IH [OF st1(2,4)] obtain st' new where st': "add_appenders io lg as st1 = Inr st'" "wf_state nulls st'"
      "only_changes lg st1 st'" "st_loggers st' lg = Some (l\<lparr>l_appenders := l_appenders l @ st_next st # new\<rparr>)"
      "map (appender_view st') new = map (spec_appender (l_formatter l)) (takeWhile (\<lambda>a. lad_type a \<noteq> TypeUNKNOW) as)"
      by auto
    have "appender_view st' (st_next st) = spec_appender (l_formatter l) a"
      using st'(3) st1(5,6) by (simp add: only_changes_def)
    with st1 st' False show ?thesis
      by (intro exI [of _ st'] exI [of _ "st_next st # new"]) (auto intro: only_changes_trans)
  qed
qed

subsection \<open>Refinement\<close>

text \<open>Looking a logger up shows at most one new view: that of a fresh logger.\<close>

definition fresh_view :: logger_view where
  "fresh_view = (DEBUG, Some (LogFormatter_new Logger_default_pattern), [])"

lemma getLogger_view:
  assumes wf: "wf_state nulls st" and g: "LoggerManager_getLogger name st = (lg, st1)"
  shows "wf_state nulls st1" "smap_find (mgr_loggers st1) name = Some lg"
    "n \<noteq> name \<Longrightarrow> logger_view st1 n = logger_view st n"
    "logger_view st1 name = Some (case logger_view st name of None \<Rightarrow> fresh_view | Some v \<Rightarrow> v)"
    "\<exists>l. st_loggers st1 lg = Some l \<and> logger_view st1 name = Some (view_of st1 l)"
proof -
  show wf1: "wf_state nulls st1" using wf_getLogger [OF wf, of name] g by simp
  show find: "smap_find (mgr_loggers st1) name = Some lg" using getLogger_find [OF wf, of name] g by simp
  obtain l where l: "st_loggers st1 lg = Some l" using getLogger_logger [OF wf, of name] g by auto
  with find have v: "logger_view st1 name = Some (view_of st1 l)" by (simp add: logger_view_def)
  with l show "\<exists>l. st_loggers st1 lg = Some l \<and> logger_view st1 name = Some (view_of st1 l)" by blast
  show "n \<noteq> name \<Longrightarrow> logger_view st1 n = logger_view st n"
    "logger_view st1 name = Some (case logger_view st name of None \<Rightarrow> fresh_view | Some v \<Rightarrow> v)"
  proof (atomize (full), cases "smap_find (mgr_loggers st) name")
    case (Some lg')
    with g have "st1 = st" by (simp add: getLogger_found)
    with v show "(n \<noteq> name \<longrightarrow> logger_view st1 n = logger_view st n) \<and>
      logger_view st1 name = Some (case logger_view st name of None \<Rightarrow> fresh_view | Some v \<Rightarrow> v)" by simp
  next
    case None
    note new = getLogger_new [OF wf None, unfolded g, simplified]
    have nx: "g \<noteq> st_next st" if "smap_find (mgr_loggers st) n = Some g" for g
    proof -
      from wf that have "mgr_entry st n g" by (auto simp: wf_state_def wf_mgr_def)
      then show ?thesis using wf_logger(1) [OF wf_state_objects [OF wf]] by (auto simp: mgr_entry_def)
    qed
    have "appender_view st1 = appender_view st" using new by (auto simp: appender_view_def)
    then have "view_of st1 = view_of st" by (auto simp: view_of_def)
    with nx new have "n \<noteq> name \<longrightarrow> logger_view st1 n = logger_view st n"
      by (auto simp: logger_view_def smap_find_set split: option.splits)
    moreover have "logger_view st name = None" using None by (simp add: logger_view_def)
    moreover have "view_of st1 l = fresh_view" using l new by (auto simp: view_of_def fresh_view_def)
    ultimately show "(n \<noteq> name \<longrightarrow> logger_view st1 n = logger_view st n) \<and>
      logger_view st1 name = Some (case logger_view st name of None \<Rightarrow> fresh_view | Some v \<Rightarrow> v)" using v by simp
  qed
qed

lemma setFormatter_str_spec:
  assumes wf: "wf_state nulls st" and l: "st_loggers st lg = Some l"
  shows "\<exists>st'. Logger_setFormatter_str lg p st = Inr st' \<and> wf_state nulls st' \<and> only_changes lg st st' \<and>
    st_loggers st' lg =
      Some (if m_error (LogFormatter_new p) then l else l\<lparr>l_formatter := Some (LogFormatter_new p)\<rparr>)"
proof (cases "m_error (LogFormatter_new p)")
  case True
  let ?st' = "put_stdout (''Logger::setFormatter name='' @ l_name l @ '' value='' @ p @ '' invalid formatter'' @ [CHR 0x0A]) st"
  have "Logger_setFormatter_str lg p st = Inr ?st'"
    using True l by (simp add: Logger_setFormatter_str_def Let_def)
  with True l show ?thesis
    by (intro exI [of _ ?st'])
      (simp add: store_simps wf_state_frame [OF wf put_stdout_frame] only_changes_frame [OF put_stdout_frame])
next
  case False
  let ?st' = "upd_logger lg (\<lambda>l. l\<lparr>l_formatter := Some (LogFormatter_new p)\<rparr>) st"
  have eq: "Logger_setFormatter_str lg p st = Inr ?st'"
    using False setFormatter_eq [OF wf_state_objects [OF wf] l, of "LogFormatter_new p"]
    by (simp add: Logger_setFormatter_str_def Let_def)
  with False l wf_Logger_setFormatter_str [OF wf eq] show ?thesis
    by (intro exI [of _ ?st']) (simp add: store_simps only_changes_upd_logger)
qed

text \<open>The state in which the appenders of an entry are added: level and formatter set, no appenders.\<close>

lemma define_prepared:
  fixes i :: log_define
  assumes wf: "wf_state nulls st1" and l: "st_loggers st1 lg = Some l"
  defines "f \<equiv> (if ld_formatter i \<noteq> [] \<and> \<not> m_error (LogFormatter_new (ld_formatter i))
      then Some (LogFormatter_new (ld_formatter i)) else l_formatter l)"
  shows "\<exists>st3. (if ld_formatter i \<noteq> [] then Logger_setFormatter_str lg (ld_formatter i) (Logger_setLevel lg (ld_level i) st1)
        else Inr (Logger_setLevel lg (ld_level i) st1)) = Inr st3 \<and>
      wf_state nulls (Logger_clearAppenders lg st3) \<and> only_changes lg st1 (Logger_clearAppenders lg st3) \<and>
      st_loggers (Logger_clearAppenders lg st3) lg =
        Some (l\<lparr>l_level := ld_level i, l_formatter := f, l_appenders := []\<rparr>)"
proof -
  let ?st2 = "Logger_setLevel lg (ld_level i) st1"
  have wf2: "wf_state nulls ?st2" using wf by (rule wf_Logger_setLevel)
  have l2: "st_loggers ?st2 lg = Some (l\<lparr>l_level := ld_level i\<rparr>)"
    using l by (simp add: Logger_setLevel_def store_simps)
  have oc2: "only_changes lg st1 ?st2" unfolding Logger_setLevel_def by (rule only_changes_upd_logger)
  obtain st3 where st3: "(if ld_formatter i \<noteq> [] then Logger_setFormatter_str lg (ld_formatter i) ?st2 else Inr ?st2) = Inr st3"
    "wf_state nulls st3" "only_changes lg ?st2 st3" "st_loggers st3 lg = Some (l\<lparr>l_level := ld_level i, l_formatter := f\<rparr>)"
  proof (cases "ld_formatter i = []")
    case True
    with wf2 l2 show ?thesis by (intro that [of ?st2]) (simp_all add: f_def only_changes_refl)
  next
    case False
    from setFormatter_str_spec [OF wf2 l2, of "ld_formatter i"] obtain st3 where
      "Logger_setFormatter_str lg (ld_formatter i) ?st2 = Inr st3" "wf_state nulls st3" "only_changes lg ?st2 st3"
      "st_loggers st3 lg = Some (if m_error (LogFormatter_new (ld_formatter i)) then l\<lparr>l_level := ld_level i\<rparr>
         else l\<lparr>l_level := ld_level i, l_formatter := Some (LogFormatter_new (ld_formatter i))\<rparr>)" by auto
    with False show ?thesis by (intro that [of st3]) (simp_all add: f_def)
  qed
  have "only_changes lg st3 (Logger_clearAppenders lg st3)"
    unfolding Logger_clearAppenders_def by (rule only_changes_upd_logger)
  with oc2 st3(3) have "only_changes lg st1 (Logger_clearAppenders lg st3)" by (blast intro: only_changes_trans)
  with st3 show ?thesis
    by (intro exI [of _ st3]) (simp add: wf_clearAppenders, simp add: Logger_clearAppenders_def store_simps)
qed

lemma apply_define_refines:
  assumes wf: "wf_state nulls st"
  shows "\<exists>st'. apply_define io i st = Inr st' \<and> wf_state nulls st' \<and>
    logger_view st' = (logger_view st)(ld_name i \<mapsto> configured i (logger_view st (ld_name i)))"
proof -
  let ?name = "ld_name i"
  obtain lg st1 where g: "LoggerManager_getLogger ?name st = (lg, st1)" by fastforce
  note gv = getLogger_view [OF wf g]
  from gv(5) obtain l where l: "st_loggers st1 lg = Some l" "logger_view st1 ?name = Some (view_of st1 l)" by blast
  define f where "f = (if ld_formatter i \<noteq> [] \<and> \<not> m_error (LogFormatter_new (ld_formatter i))
      then Some (LogFormatter_new (ld_formatter i)) else l_formatter l)"
  from define_prepared [OF gv(1) l(1), of i] obtain st3 where
    st3: "(if ld_formatter i \<noteq> [] then Logger_setFormatter_str lg (ld_formatter i) (Logger_setLevel lg (ld_level i) st1)
        else Inr (Logger_setLevel lg (ld_level i) st1)) = Inr st3" and
    c: "wf_state nulls (Logger_clearAppenders lg st3)" "only_changes lg st1 (Logger_clearAppenders lg st3)"
      "st_loggers (Logger_clearAppenders lg st3) lg =
        Some (l\<lparr>l_level := ld_level i, l_formatter := f, l_appenders := []\<rparr>)"
    unfolding f_def by blast
  from add_appenders_spec [OF c(1,3), of io "ld_appenders i"] obtain st' new where
    st': "add_appenders io lg (ld_appenders i) (Logger_clearAppenders lg st3) = Inr st'" "wf_state nulls st'"
      "only_changes lg (Logger_clearAppenders lg st3) st'"
      "st_loggers st' lg = Some (l\<lparr>l_level := ld_level i, l_formatter := f, l_appenders := new\<rparr>)"
      "map (appender_view st') new = map (spec_appender f) (takeWhile (\<lambda>a. lad_type a \<noteq> TypeUNKNOW) (ld_appenders i))"
    by auto
  have "apply_define io i st = Inr st'" using g st3 st'(1) by (simp add: apply_define_def Let_def)
  moreover have oc: "only_changes lg st1 st'" using c(2) st'(3) by (rule only_changes_trans)
  have "f = define_formatter i (logger_view st ?name)"
    using gv(4) l(2)
    by (auto simp: f_def define_formatter_def view_of_def fresh_view_def split: option.splits prod.splits)
  then have "logger_view st' ?name = Some (configured i (logger_view st ?name))"
    using oc gv(2) st'(4,5) by (simp add: logger_view_def only_changes_def view_of_def configured_def Let_def)
  moreover have "logger_view st' n = logger_view st n" if "n \<noteq> ?name" for n
    using view_other [OF gv(1) oc gv(2) that] gv(3) [OF that] by simp
  ultimately show ?thesis using st'(2) by (intro exI [of _ st']) (auto simp: fun_eq_iff)
qed

lemma remove_define_refines:
  assumes wf: "wf_state nulls st"
  shows "wf_state nulls (remove_define i st) \<and>
    logger_view (remove_define i st) = (logger_view st)(ld_name i \<mapsto> removed (logger_view st (ld_name i)))"
proof -
  let ?name = "ld_name i"
  obtain lg st1 where g: "LoggerManager_getLogger ?name st = (lg, st1)" by fastforce
  note gv = getLogger_view [OF wf g]
  from gv(5) obtain l where l: "st_loggers st1 lg = Some l" "logger_view st1 ?name = Some (view_of st1 l)" by blast
  let ?st' = "remove_define i st"
  have eq: "?st' = upd_logger lg (\<lambda>l. l\<lparr>l_appenders := []\<rparr>) (upd_logger lg (\<lambda>l. l\<lparr>l_level := DISABLED\<rparr>) st1)"
    using g by (simp add: remove_define_def Logger_clearAppenders_def Logger_setLevel_def)
  have oc: "only_changes lg st1 ?st'"
    unfolding eq by (rule only_changes_trans [OF only_changes_upd_logger only_changes_upd_logger])
  have "l_formatter l = (case logger_view st ?name of None \<Rightarrow> Some (LogFormatter_new Logger_default_pattern) | Some (_, f, _) \<Rightarrow> f)"
    using gv(4) l(2) by (auto simp: view_of_def fresh_view_def split: option.splits prod.splits)
  then have "logger_view ?st' ?name = Some (removed (logger_view st ?name))"
    using l(1) gv(2) by (simp add: eq logger_view_def view_of_def removed_def store_simps)
  moreover have "logger_view ?st' n = logger_view st n" if "n \<noteq> ?name" for n
    using view_other [OF gv(1) oc gv(2) that] gv(3) [OF that] by simp
  moreover have "wf_state nulls ?st'"
    using gv(1) g by (simp add: remove_define_def wf_clearAppenders wf_Logger_setLevel)
  ultimately show ?thesis by (auto simp: fun_eq_iff)
qed

subsection \<open>The two loops\<close>

lemma update_loop_refines:
  assumes "wf_state nulls st" and "distinct (map ld_name new)"
  shows "\<exists>st'. fold_res (update_one io old) new st = Inr st' \<and> wf_state nulls st' \<and>
    (\<forall>n. logger_view st' n =
      (case sset_find ld_name new n of
         None \<Rightarrow> logger_view st n
       | Some i \<Rightarrow> if sset_find ld_name old n = Some i then logger_view st n
                   else Some (configured i (logger_view st n))))"
  using assms
proof (induction new arbitrary: st)
  case (Cons i new)
  let ?v = "\<lambda>n. if n = ld_name i \<and> sset_find ld_name old n \<noteq> Some i
      then Some (configured i (logger_view st n)) else logger_view st n"
  obtain st1 where st1: "update_one io old i st = Inr st1" "wf_state nulls st1" "\<forall>n. logger_view st1 n = ?v n"
  proof (cases "sset_find ld_name old (ld_name i) = Some i")
    case True
    with Cons.prems(1) show ?thesis by (intro that [of st]) (auto simp: update_one_def)
  next
    case False
    from apply_define_refines [OF Cons.prems(1), of io i] obtain st1 where "apply_define io i st = Inr st1" "wf_state nulls st1"
      "logger_view st1 = (logger_view st)(ld_name i \<mapsto> configured i (logger_view st (ld_name i)))" by blast
    with False show ?thesis by (intro that [of st1]) (auto simp: update_one_def split: option.splits)
  qed
  have none: "sset_find ld_name new (ld_name i) = None" using Cons.prems(2) by (simp add: sset_find_None)
  from Cons.IH [OF st1(2)] Cons.prems(2) obtain st' where st': "fold_res (update_one io old) new st1 = Inr st'"
    "wf_state nulls st'" "\<forall>n. logger_view st' n =
      (case sset_find ld_name new n of
         None \<Rightarrow> logger_view st1 n
       | Some i \<Rightarrow> if sset_find ld_name old n = Some i then logger_view st1 n
                   else Some (configured i (logger_view st1 n)))" by auto
  have "logger_view st' n =
      (case sset_find ld_name (i # new) n of
         None \<Rightarrow> logger_view st n
       | Some i \<Rightarrow> if sset_find ld_name old n = Some i then logger_view st n
                   else Some (configured i (logger_view st n)))" for n
    using st1(3) st'(3) none by (cases "n = ld_name i") (auto simp: sset_find_Cons split: option.splits)
  with st1(1) st' show ?case by (intro exI [of _ st']) simp
qed simp

lemma remove_loop_refines:
  assumes "wf_state nulls st" and "distinct (map ld_name old)"
  shows "wf_state nulls (fold (remove_one new) old st) \<and>
    (\<forall>n. logger_view (fold (remove_one new) old st) n =
      (if sset_find ld_name old n \<noteq> None \<and> sset_find ld_name new n = None
       then Some (removed (logger_view st n)) else logger_view st n))"
  using assms
proof (induction old arbitrary: st)
  case (Cons i old)
  let ?st1 = "remove_one new i st"
  have st1: "wf_state nulls ?st1" "logger_view ?st1 = (if sset_find ld_name new (ld_name i) = None
      then (logger_view st)(ld_name i \<mapsto> removed (logger_view st (ld_name i))) else logger_view st)"
    using remove_define_refines [OF Cons.prems(1), of i] Cons.prems(1)
    by (auto simp: remove_one_def split: option.splits)
  have none: "sset_find ld_name old (ld_name i) = None" using Cons.prems(2) by (simp add: sset_find_None)
  from Cons.IH [OF st1(1)] Cons.prems(2) none show ?case
    by (auto simp: st1(2) sset_find_Cons)
qed simp

text \<open>The specification of the whole change.\<close>

definition reconfigured :: "log_define list \<Rightarrow> log_define list \<Rightarrow> string \<Rightarrow> logger_view option \<Rightarrow> logger_view option" where
  "reconfigured old new n v =
     (case sset_find ld_name new n of
        Some i \<Rightarrow> if sset_find ld_name old n = Some i then v else Some (configured i v)
      | None \<Rightarrow> if sset_find ld_name old n = None then v else Some (removed v))"

lemma log_stmt_frame:
  assumes "wf_state nulls st" and "log_stmt io site lg level text st = Inr st'"
  shows "log_frame st st'"
proof -
  from assms(2) have s: "SYLAR_LOG_LEVEL 2 io site lg level text st = Some (Inr st')"
    by (auto simp: log_stmt_def split: option.splits)
  then obtain l where l: "st_loggers st lg = Some l" by (auto simp: SYLAR_LOG_LEVEL_def split: option.splits)
  let ?ev = "LogEvent_put text (LogEvent_new lg level (site_file site) (site_line site) 0 (site_thread site)
      (site_fiber site) (io_now io) (site_threadName site))"
  have lg: "ev_logger ?ev = lg" by (simp add: LogEvent_put_def LogEvent_new_def)
  show ?thesis
  proof (cases "l_level l \<le> level")
    case True
    with s l have "LogEventWrap_dtor 2 io ?ev st = Some (Inr st')" by (simp add: SYLAR_LOG_LEVEL_def)
    then have "Logger_log 2 io lg ?ev st = Some (Inr st')" using LogEventWrap_dtor_Inr lg by metis
    then show ?thesis using Logger_log_frame [OF assms(1) l order_refl] by blast
  next
    case False
    with s l show ?thesis by (auto simp: SYLAR_LOG_LEVEL_def)
  qed
qed

lemma conf_changed_refines:
  assumes wf: "wf_state nulls st" and old: "sset_inv ld_name old" and new: "sset_inv ld_name new"
    and log: "log_stmt io site (mgr_root st) DEBUG ''on_logger_conf_changed!'' st = Inr st1"
  shows "\<exists>st'. on_logger_conf_changed io site old new st = Inr st' \<and> wf_state nulls st' \<and>
    (\<forall>n. logger_view st' n = reconfigured old new n (logger_view st n))"
proof -
  have fr: "log_frame st st1" using log_stmt_frame [OF wf log] .
  have wf1: "wf_state nulls st1" using wf fr by (rule wf_state_frame)
  from update_loop_refines [OF wf1 sset_inv_distinct [OF new], of io old] obtain st2 where
    st2: "fold_res (update_one io old) new st1 = Inr st2" "wf_state nulls st2" "\<forall>n. logger_view st2 n =
      (case sset_find ld_name new n of
         None \<Rightarrow> logger_view st1 n
       | Some i \<Rightarrow> if sset_find ld_name old n = Some i then logger_view st1 n
                   else Some (configured i (logger_view st1 n)))" by blast
  note rm = remove_loop_refines [OF st2(2) sset_inv_distinct [OF old], of new]
  have "logger_view (fold (remove_one new) old st2) n = reconfigured old new n (logger_view st n)" for n
    using rm st2(3) view_frame [OF fr] by (auto simp: reconfigured_def split: option.splits)
  with rm log st2(1) show ?thesis by (simp add: on_logger_conf_changed_def)
qed

end
