(* ===== verification/Log_Config_Claims.thy ===== *)
theory Log_Config_Claims
  imports Log_Config_Spec Yaml_Tree
begin

text \<open>
  The properties of the configuration of the logging system: the round trip of its entries, what
  a change of the variable \<open>logs\<close> does to the loggers, and the two together from the text of a
  configuration to the loggers.
\<close>

subsection \<open>Concrete data for the witnesses\<close>

definition demo_file_app :: log_appender_define where
  "demo_file_app = \<lparr>lad_type = TypeFileLogAppender, lad_level = WARN, lad_formatter = ''%m'', lad_file = ''f''\<rparr>"

definition demo_def :: log_define where
  "demo_def = \<lparr>ld_name = ''b'', ld_level = INFO, ld_formatter = ''%p'', ld_appenders = [demo_file_app]\<rparr>"

definition demo_gone :: log_define where
  "demo_gone = \<lparr>ld_name = ''a'', ld_level = INFO, ld_formatter = [], ld_appenders = []\<rparr>"

definition demo_site :: log_site where
  "demo_site = \<lparr>site_file = ''log.cc'', site_line = 1, site_thread = 1, site_fiber = 0, site_threadName = ''m''\<rparr>"

definition demo_st1 :: log_state where
  "demo_st1 = (case log_stmt demo_io demo_site 0 DEBUG ''on_logger_conf_changed!'' demo_st of Inr st \<Rightarrow> st | Inl _ \<Rightarrow> demo_st)"

lemma demo_st_root: "mgr_root demo_st = 0"
  by code_simp

lemma demo_st_ready: "case log_stmt demo_io demo_site 0 DEBUG ''on_logger_conf_changed!'' demo_st of Inr _ \<Rightarrow> True | Inl _ \<Rightarrow> False"
  by code_simp

lemma demo_stmt: "log_stmt demo_io demo_site (mgr_root demo_st) DEBUG ''on_logger_conf_changed!'' demo_st = Inr demo_st1"
  using demo_st_ready by (simp add: demo_st_root demo_st1_def split: sum.splits)

lemma demo_defs_inv: "sset_inv ld_name [demo_def]" "sset_inv ld_name [demo_gone]"
  by (simp_all add: sset_inv_def)

definition demo_text :: string where
  "demo_text = (case ToStr (logs_type tree_yaml ''t'') [demo_def] of Inr s \<Rightarrow> s | Inl _ \<Rightarrow> [])"

definition demo_logs :: "(log_define list, log_world) config_var" where
  "demo_logs = \<lparr>cv_name = ''logs'', cv_description = ''logs config'', cv_type = logs_type tree_yaml ''t'',
     cv_val = [demo_gone], cv_cbs = [(1, logs_listener)]\<rparr>"

definition demo_world :: log_world where
  "demo_world = \<lparr>lw_io = demo_io, lw_site = demo_site, lw_state = demo_st\<rparr>"

definition demo_w0 :: log_state where
  "demo_w0 = put_stdout (snd (FromStr (logs_type tree_yaml ''t'') demo_text)) demo_st"

lemma demo_w0_ready:
  "case log_stmt demo_io demo_site (mgr_root demo_w0) DEBUG ''on_logger_conf_changed!'' demo_w0 of Inr _ \<Rightarrow> True | Inl _ \<Rightarrow> False"
  by code_simp

interpretation log_defines: yaml_codec tree_yaml printable_define
    "LexicalCast_string_LogDefine tree_yaml" "LexicalCast_LogDefine_string tree_yaml"
  by (rule yaml_laws.log_define_is_codec [OF tree.yaml_laws_axioms])

subsection \<open>Properties\<close>

text \<open>C10. A configuration of loggers survives printing and parsing: for a set of entries ordered by name, with
  levels of the enumeration, appenders of a known type and a file name exactly for the file
  appenders, the text written for the variable \<open>logs\<close> reads back as the same set.\<close>

theorem logs_roundtrip:
  assumes "yaml_laws Y" and "sset_inv ld_name lds" and "list_all printable_define lds"
  shows "\<exists>s. ToStr (logs_type Y t) lds = Inr s \<and> fst (FromStr (logs_type Y t) s) = Inr lds"
proof -
  have "bind_res (LexicalCast_set_string Y (LexicalCast_LogDefine_string Y) lds)
      (\<lambda>s. fst (LexicalCast_string_set Y ld_name (LexicalCast_string_LogDefine Y) s)) = Inr lds"
    by (rule yaml_codec.set_codec [OF yaml_laws.log_define_is_codec [OF assms(1)] assms(3,2)])
  then show ?thesis by (auto simp: bind_res_Inr_conv logs_type_def)
qed

theorem logs_roundtrip_witness:
  "\<exists>s. ToStr (logs_type tree_yaml ''t'') [demo_gone, demo_def] = Inr s \<and>
     fst (FromStr (logs_type tree_yaml ''t'') s) = Inr [demo_gone, demo_def]"
proof (rule logs_roundtrip)
  show "yaml_laws tree_yaml" by (rule tree.yaml_laws_axioms)
  show "sset_inv ld_name [demo_gone, demo_def]" by (simp add: sset_inv_def demo_gone_def demo_def_def)
  show "list_all printable_define [demo_gone, demo_def]"
    by (simp add: printable_define_def printable_appender_def demo_gone_def demo_def_def demo_file_app_def)
qed

text \<open>C4. When the variable \<open>logs\<close> changes and the first debug message can be written, the listener returns
  and every logger ends as the specification says: an entry that is new or differs from the old
  one of its name gives its logger the entry's level, formatter (if valid) and appenders, each with
  its level, destination, and its own formatter or else the logger's; a logger whose entry
  disappeared is disabled and has no appenders; every other logger is as before.\<close>

theorem reconfigure_spec:
  assumes "wf_state nulls st" and "sset_inv ld_name old" and "sset_inv ld_name new"
    and "log_stmt io site (mgr_root st) DEBUG ''on_logger_conf_changed!'' st = Inr st1"
  shows "\<exists>st'. on_logger_conf_changed io site old new st = Inr st' \<and> wf_state nulls st' \<and>
    (\<forall>n. logger_view st' n = reconfigured old new n (logger_view st n))"
  using assms by (rule conf_changed_refines)

theorem reconfigure_spec_witness:
  "\<exists>st'. on_logger_conf_changed demo_io demo_site [demo_gone] [demo_def] demo_st = Inr st' \<and>
     logger_view st' ''a'' = Some (DISABLED, Some (LogFormatter_new Logger_default_pattern), []) \<and>
     logger_view st' ''b'' = Some (INFO, Some (LogFormatter_new ''%p''),
       [Some (WARN, Some (LogFormatter_new ''%m''), True, File ''f'')])"
proof -
  have none: "logger_view demo_st ''a'' = None" "logger_view demo_st ''b'' = None" by code_simp+
  have ok: "\<not> m_error (LogFormatter_new ''%p'')" by code_simp
  from reconfigure_spec [OF demo_st_wf demo_defs_inv(2,1) demo_stmt] obtain st' where
    st': "on_logger_conf_changed demo_io demo_site [demo_gone] [demo_def] demo_st = Inr st'"
      "\<forall>n. logger_view st' n = reconfigured [demo_gone] [demo_def] n (logger_view demo_st n)" by blast
  have "logger_view st' ''a'' = Some (DISABLED, Some (LogFormatter_new Logger_default_pattern), [])"
    using st'(2) none by (simp add: reconfigured_def removed_def sset_find_def demo_def_def demo_gone_def)
  moreover have "logger_view st' ''b'' = Some (INFO, Some (LogFormatter_new ''%p''),
       [Some (WARN, Some (LogFormatter_new ''%m''), True, File ''f'')])"
    using st'(2) none ok by (simp add: reconfigured_def configured_def define_formatter_def spec_appender_def
        sset_find_def demo_def_def demo_gone_def demo_file_app_def Let_def)
  ultimately show ?thesis using st'(1) by blast
qed

text \<open>A logger whose entry was removed is silent: any later logging statement on it, at any level of
  the enumeration, leaves the whole state as it is.\<close>

lemma removed_logger_silent:
  assumes "wf_state nulls st" and "LoggerManager_getLogger (ld_name i) (remove_define i st) = (lg, st')"
    and "level \<noteq> DISABLED"
  shows "st' = remove_define i st \<and> SYLAR_LOG_LEVEL fuel io site lg level text st' = Some (Inr st')"
proof -
  let ?st = "remove_define i st"
  note rm = remove_define_refines [OF assms(1), of i]
  then have "logger_view ?st (ld_name i) = Some (removed (logger_view st (ld_name i)))" by simp
  then obtain g l where g: "smap_find (mgr_loggers ?st) (ld_name i) = Some g" "st_loggers ?st g = Some l"
    "l_level l = DISABLED"
    by (auto simp: logger_view_def view_of_def removed_def split: option.splits)
  then have "lg = g" "st' = ?st" using assms(2) by (simp_all add: getLogger_found)
  moreover have "\<not> DISABLED \<le> level" using assms(3) by (cases level) (simp_all add: level_simps)
  ultimately show ?thesis using g by (simp add: SYLAR_LOG_LEVEL_def)
qed

lemma removed_logger_silent_example:
  "SYLAR_LOG_LEVEL 2 demo_io demo_site (fst (LoggerManager_getLogger ''a'' (remove_define demo_gone demo_st))) FATAL ''x''
     (remove_define demo_gone demo_st) = Some (Inr (remove_define demo_gone demo_st))"
proof -
  obtain lg st' where g: "LoggerManager_getLogger (ld_name demo_gone) (remove_define demo_gone demo_st) = (lg, st')"
    by fastforce
  have "st' = remove_define demo_gone demo_st \<and>
      SYLAR_LOG_LEVEL 2 demo_io demo_site lg FATAL ''x'' st' = Some (Inr st')"
    using demo_st_wf g by (rule removed_logger_silent) simp
  moreover have "lg = fst (LoggerManager_getLogger ''a'' (remove_define demo_gone demo_st))"
    using g by (simp add: demo_gone_def)
  ultimately show ?thesis by metis
qed

text \<open>C9. From configuration text to loggers: after the initialiser has put its listener on the variable
  \<open>logs\<close>, giving the variable the text printed for another valid configuration sets it to that
  configuration, returns \<open>true\<close>, and leaves every logger as the specification of the change from
  the old to the new configuration says.\<close>

theorem logs_text_to_loggers:
  assumes "yaml_laws Y" and "sset_inv ld_name lds" and "list_all printable_define lds"
    and "ToStr (logs_type Y t) lds = Inr s"
    and var: "cv_type var = logs_type Y t" "cv_cbs var = [(k, logs_listener)]"
    and old: "sset_inv ld_name (cv_val var)" "cv_val var \<noteq> lds" and wf: "wf_state nulls (lw_state w)"
    and w0: "w0 = put_stdout (snd (FromStr (logs_type Y t) s)) (lw_state w)"
    and log: "log_stmt (lw_io w) (lw_site w) (mgr_root w0) DEBUG ''on_logger_conf_changed!'' w0 = Inr st1"
  shows "\<exists>w'. ConfigVar_fromString root_diag s var w = (Inr True, var\<lparr>cv_val := lds\<rparr>, w') \<and>
    wf_state nulls (lw_state w') \<and>
    (\<forall>n. logger_view (lw_state w') n = reconfigured (cv_val var) lds n (logger_view (lw_state w) n))"
proof -
  have "bind_res (LexicalCast_set_string Y (LexicalCast_LogDefine_string Y) lds)
      (\<lambda>s. fst (LexicalCast_string_set Y ld_name (LexicalCast_string_LogDefine Y) s)) = Inr lds"
    by (rule yaml_codec.set_codec [OF yaml_laws.log_define_is_codec [OF assms(1)] assms(3,2)])
  then obtain out where parsed: "FromStr (logs_type Y t) s = (Inr lds, out)"
    using assms(4) by (cases "FromStr (logs_type Y t) s") (auto simp: logs_type_def)
  have fr: "log_frame (lw_state w) w0" unfolding w0 by (rule put_stdout_frame)
  have "wf_state nulls w0" using wf fr by (rule wf_state_frame)
  from conf_changed_refines [OF this old(1) assms(2) log] obtain st' where
    st': "on_logger_conf_changed (lw_io w) (lw_site w) (cv_val var) lds w0 = Inr st'" "wf_state nulls st'"
      "\<forall>n. logger_view st' n = reconfigured (cv_val var) lds n (logger_view w0 n)" by blast
  have "put_cout root_diag out w = w\<lparr>lw_state := w0\<rparr>" using parsed by (simp add: root_diag_def w0)
  then have "ConfigVar_fromString root_diag s var w = (Inr True, var\<lparr>cv_val := lds\<rparr>, w\<lparr>lw_state := st'\<rparr>)"
    using parsed var old(2) st'(1)
    by (auto simp: ConfigVar_fromString_def ConfigVar_setValue_def logs_listener_def)
  with st'(2,3) view_frame [OF fr] show ?thesis by (intro exI [of _ "w\<lparr>lw_state := st'\<rparr>"]) simp
qed

theorem logs_text_to_loggers_witness:
  "\<exists>w'. ConfigVar_fromString root_diag demo_text demo_logs demo_world = (Inr True, demo_logs\<lparr>cv_val := [demo_def]\<rparr>, w') \<and>
     (\<exists>v. logger_view (lw_state w') ''a'' = Some (removed v))"
proof -
  have s: "ToStr (logs_type tree_yaml ''t'') [demo_def] = Inr demo_text"
    by (simp add: demo_text_def logs_type_def LexicalCast_set_string_def LexicalCast_LogDefine_string_def
        tree.load_emit [OF yaml_laws.doc_define [OF tree.yaml_laws_axioms]])
  obtain st1 where st1: "log_stmt demo_io demo_site (mgr_root demo_w0) DEBUG ''on_logger_conf_changed!'' demo_w0 = Inr st1"
    using demo_w0_ready by (auto split: sum.splits)
  have p: "list_all printable_define [demo_def]"
    by (simp add: printable_define_def printable_appender_def demo_def_def demo_file_app_def)
  have "\<exists>w'. ConfigVar_fromString root_diag demo_text demo_logs demo_world = (Inr True, demo_logs\<lparr>cv_val := [demo_def]\<rparr>, w') \<and>
    wf_state nulls (lw_state w') \<and>
    (\<forall>n. logger_view (lw_state w') n = reconfigured (cv_val demo_logs) [demo_def] n (logger_view (lw_state demo_world) n))"
    by (rule logs_text_to_loggers [OF tree.yaml_laws_axioms demo_defs_inv(1) p s, where k = 1 and ?w0.0 = demo_w0 and ?st1.0 = st1])
      (simp_all add: demo_logs_def demo_world_def sset_inv_def demo_def_def demo_gone_def demo_w0_def demo_st_wf
        st1 [unfolded demo_w0_def])
  then obtain w' where "ConfigVar_fromString root_diag demo_text demo_logs demo_world =
      (Inr True, demo_logs\<lparr>cv_val := [demo_def]\<rparr>, w')"
    "logger_view (lw_state w') ''a'' = reconfigured [demo_gone] [demo_def] ''a'' (logger_view demo_st ''a'')"
    by (auto simp: demo_logs_def demo_world_def)
  then show ?thesis by (auto simp: reconfigured_def sset_find_def demo_def_def demo_gone_def)
qed

end
