(* ===== verification/Log_Yaml.thy ===== *)
theory Log_Yaml
  imports Log_Config Yaml_Tree
begin

text \<open>
  The text \<open>toYamlString\<close> writes for the loggers is a configuration: read as the value of the variable
  \<open>logs\<close>, it gives the entries that describe the loggers.
\<close>

subsection \<open>Specification\<close>

text \<open>
  The entry that describes an appender, and the one that describes a logger. The level of a removed
  logger has no name, so it is shown as \<open>UNKNOW\<close>.
\<close>

definition shown_level :: "log_level \<Rightarrow> log_level" where
  "shown_level l = (if l = DISABLED then UNKNOW else l)"

definition pattern_of :: "log_formatter option \<Rightarrow> string" where
  "pattern_of f = (case f of None \<Rightarrow> [] | Some f \<Rightarrow> m_pattern f)"

definition appender_define_of :: "log_appender \<Rightarrow> log_appender_define" where
  "appender_define_of ap =
     (case a_kind ap of
        StdoutLogAppender \<Rightarrow> \<lparr>lad_type = TypeStdoutLogAppender, lad_level = shown_level (a_level ap),
          lad_formatter = pattern_of (a_formatter ap), lad_file = []\<rparr>
      | FileLogAppender filename _ _ \<Rightarrow> \<lparr>lad_type = TypeFileLogAppender, lad_level = shown_level (a_level ap),
          lad_formatter = pattern_of (a_formatter ap), lad_file = filename\<rparr>)"

definition define_of :: "log_state \<Rightarrow> logger \<Rightarrow> log_define" where
  "define_of st l =
     \<lparr>ld_name = l_name l, ld_level = shown_level (l_level l), ld_formatter = pattern_of (l_formatter l),
      ld_appenders = map (\<lambda>a. appender_define_of (the (st_appenders st a))) (l_appenders l)\<rparr>"

subsection \<open>The nodes that are written\<close>

definition formatter_keys :: "'n yaml \<Rightarrow> log_formatter option \<Rightarrow> (string \<times> 'n) list" where
  "formatter_keys Y f = (case f of None \<Rightarrow> [] | Some f \<Rightarrow> [(''formatter'', y_of Y (m_pattern f))])"

definition level_keys :: "'n yaml \<Rightarrow> log_level \<Rightarrow> (string \<times> 'n) list" where
  "level_keys Y l = (if l \<noteq> UNKNOW then [(''level'', y_of Y (LogLevel_ToString l))] else [])"

definition appender_yaml :: "'n yaml \<Rightarrow> log_appender \<Rightarrow> (string \<times> 'n) list" where
  "appender_yaml Y ap =
     (''type'', y_of Y (TypeToString (lad_type (appender_define_of ap)))) # level_keys Y (a_level ap) @
     (case a_kind ap of StdoutLogAppender \<Rightarrow> [] | FileLogAppender f _ _ \<Rightarrow> [(''file'', y_of Y f)]) @
     formatter_keys Y (a_formatter ap)"

definition logger_yaml :: "'n yaml \<Rightarrow> log_state \<Rightarrow> logger \<Rightarrow> (string \<times> 'n) list" where
  "logger_yaml Y st l =
     [(''name'', y_of Y (l_name l)), (''level'', y_of Y (LogLevel_ToString (l_level l)))] @
     formatter_keys Y (l_formatter l) @
     (if l_appenders l = [] then []
      else [(''appenders'', seq_node Y (map (\<lambda>a. map_node Y (appender_yaml Y (the (st_appenders st a)))) (l_appenders l)))])"

lemma appender_text_node: "LogAppender_toYamlString Y ap = y_Emit Y (map_node Y (appender_yaml Y ap))"
  by (cases "a_kind ap"; cases "a_formatter ap")
    (simp_all add: LogAppender_toYamlString_def StdoutLogAppender_toYamlString_def FileLogAppender_toYamlString_def
      set_formatter_node_def set_if_def appender_yaml_def level_keys_def formatter_keys_def appender_define_of_def
      TypeToString_def map_node_def)

lemma shows_appender_yaml: "shows_appender Y (appender_define_of ap) (appender_yaml Y ap)"
  using shows_level_ToString [of "appender_yaml Y ap" Y "a_level ap" True]
  by (cases "a_kind ap"; cases "a_formatter ap")
    (auto simp: shows_appender_def shows_text_def appender_yaml_def level_keys_def formatter_keys_def
      appender_define_of_def pattern_of_def shown_level_def split: if_splits)

context yaml_laws
begin

lemma doc_appender_yaml: "doc Y (map_node Y (appender_yaml Y ap))"
  by (rule doc_map; cases "a_kind ap"; cases "a_formatter ap")
    (auto simp: appender_yaml_def level_keys_def formatter_keys_def intro: doc_of)

text \<open>Loading the texts of documents and pushing them builds the sequence of the documents.\<close>

lemma push_loaded_docs:
  "list_all2 (\<lambda>r n. r = Inr (y_Emit Y n) \<and> doc Y n) rs ns \<Longrightarrow>
     push_loaded Y rs (seq_node Y ms) = Inr (seq_node Y (ms @ ns))"
proof (induction rs ns arbitrary: ms rule: list_all2_induct)
  case (Cons r rs n ns)
  from Cons.IH [of "ms @ [n]"] Cons.hyps show ?case by (simp add: load_emit seq_node_snoc)
qed simp

lemma push_loaded_null:
  "list_all2 (\<lambda>r n. r = Inr (y_Emit Y n) \<and> doc Y n) rs ns \<Longrightarrow> push_loaded Y rs (y_null Y) = Inr (seq_node Y ns)"
  using push_loaded_docs [of rs ns "[]"] by (simp add: seq_node_def)

lemma logger_text_node:
  assumes "wf_objects nulls st" and "st_loggers st lg = Some l"
  shows "Logger_toYamlString Y st lg = Inr (y_Emit Y (map_node Y (logger_yaml Y st l)))"
proof -
  let ?ns = "map (\<lambda>a. map_node Y (appender_yaml Y (the (st_appenders st a)))) (l_appenders l)"
  have "list_all2 (\<lambda>r n. r = Inr (y_Emit Y n) \<and> doc Y n) (map (appender_text Y st) (l_appenders l)) ?ns"
    using wf_logger(4) [OF assms]
    by (auto simp: list_all2_conv_all_nth appender_text_def attached_def appender_text_node doc_appender_yaml
        dest!: bspec [OF _ nth_mem])
  from push_loaded_null [OF this] assms(2) show ?thesis
    by (cases "l_formatter l")
      (auto simp: Logger_toYamlString_def logger_yaml_def formatter_keys_def set_formatter_node_def map_node_def Let_def)
qed

lemma doc_logger_yaml: "doc Y (map_node Y (logger_yaml Y st l))"
proof (rule doc_map)
  have "doc Y (seq_node Y (map (\<lambda>a. map_node Y (appender_yaml Y (the (st_appenders st a)))) (l_appenders l)))"
    by (rule doc_seq) (simp add: doc_appender_yaml)
  then show "\<forall>(k, n) \<in> set (logger_yaml Y st l). doc Y n"
    by (cases "l_formatter l") (auto simp: logger_yaml_def formatter_keys_def intro: doc_of)
qed (cases "l_formatter l"; simp add: logger_yaml_def formatter_keys_def)

lemma shows_logger_yaml:
  "shows_define Y (define_of st l) (logger_yaml Y st l)
    (map (\<lambda>a. map_node Y (appender_yaml Y (the (st_appenders st a)))) (l_appenders l))"
proof -
  have "shows_appenders Y (ld_appenders (define_of st l))
      (map (\<lambda>a. map_node Y (appender_yaml Y (the (st_appenders st a)))) (l_appenders l))"
    using shows_appender_yaml by (fastforce simp: shows_appenders_def define_of_def list_all2_conv_all_nth)
  moreover have "shows_level Y (logger_yaml Y st l) (ld_level (define_of st l)) False"
    using shows_level_ToString [of "logger_yaml Y st l" Y "l_level l" False]
    by (simp add: logger_yaml_def define_of_def shown_level_def)
  ultimately show ?thesis
    by (cases "l_formatter l")
      (auto simp: shows_define_def shows_text_def logger_yaml_def formatter_keys_def define_of_def pattern_of_def)
qed

lemma read_logger_text:
  "fst (LexicalCast_string_LogDefine Y (y_Emit Y (map_node Y (logger_yaml Y st l)))) = Inr (define_of st l)"
  by (rule read_shown_define [OF shows_logger_yaml doc_logger_yaml])

end

subsection \<open>Properties\<close>

text \<open>The entries that describe the loggers of the manager, in the order of their names.\<close>

definition defines_of :: "log_state \<Rightarrow> log_define list" where
  "defines_of st = map (\<lambda>(name, lg). define_of st (the (st_loggers st lg))) (mgr_loggers st)"

lemma mgr_logger:
  assumes "wf_state nulls st" and "(name, lg) \<in> set (mgr_loggers st)"
  obtains l where "st_loggers st lg = Some l" "l_name l = name"
proof -
  have "smap_find (mgr_loggers st) name = Some lg" using assms by (simp add: wf_state_def wf_mgr_def smap_find_iff)
  then have "mgr_entry st name lg" using assms(1) by (simp add: wf_state_def wf_mgr_def)
  with that show thesis by (auto simp: mgr_entry_def)
qed

lemma defines_of_inv:
  assumes "wf_state nulls st"
  shows "sset_inv ld_name (defines_of st)"
proof -
  have "map ld_name (defines_of st) = map fst (mgr_loggers st)"
    by (auto simp: defines_of_def define_of_def elim!: mgr_logger [OF assms])
  then show ?thesis using assms by (simp add: sset_inv_def smap_inv_def wf_state_def wf_mgr_def)
qed

text \<open>C11. The manager prints its loggers as a configuration: \<open>LoggerManager::toYamlString\<close> returns, and its text,
  read as a value of the variable \<open>logs\<close>, is the set of entries that describe the loggers, one for
  each name: level, formatter pattern, and the appenders in order, each with its type, file, level
  and pattern. A removed logger loses its special level on the way: it reads back as \<open>UNKNOW\<close>, the level
  at which everything is logged.\<close>

theorem manager_yaml_roundtrip:
  assumes "yaml_laws Y" and "wf_state nulls st"
  shows "\<exists>s. LoggerManager_toYamlString Y st = Inr s \<and>
    fst (FromStr (logs_type Y t) s) = Inr (defines_of st)"
proof -
  let ?node = "\<lambda>(name, lg). map_node Y (logger_yaml Y st (the (st_loggers st lg)))"
  let ?ns = "map ?node (mgr_loggers st)"
  have texts: "list_all2 (\<lambda>r n. r = Inr (y_Emit Y n) \<and> doc Y n)
      (map (\<lambda>(name, lg). Logger_toYamlString Y st lg) (mgr_loggers st)) ?ns"
  proof -
    have "Logger_toYamlString Y st lg = Inr (y_Emit Y (?node (name, lg))) \<and> doc Y (?node (name, lg))"
      if entry: "(name, lg) \<in> set (mgr_loggers st)" for name lg
    proof -
      obtain l where "st_loggers st lg = Some l" by (rule mgr_logger [OF assms(2) entry])
      then show ?thesis
        using yaml_laws.logger_text_node [OF assms(1) wf_state_objects [OF assms(2)]]
          yaml_laws.doc_logger_yaml [OF assms(1)] by simp
    qed
    then show ?thesis by (auto simp: list_all2_map1 list_all2_map2 intro!: list.rel_refl_strong)
  qed
  have reads: "list_all2 (\<lambda>x n. fst (LexicalCast_string_LogDefine Y (y_Emit Y n)) = Inr x) (defines_of st) ?ns"
    using yaml_laws.read_logger_text [OF assms(1)]
    by (auto simp: defines_of_def list_all2_map1 list_all2_map2 intro!: list.rel_refl_strong)
  have "doc Y (seq_node Y ?ns)"
    by (rule doc_seq) (auto intro: yaml_laws.doc_logger_yaml [OF assms(1)])
  then have "fst (FromStr (logs_type Y t) (y_Emit Y (seq_node Y ?ns))) = Inr (defines_of st)"
    using yaml_laws.cast_elems_seq [OF assms(1) reads] sset_fold_insert [of ld_name "[]" "defines_of st"]
      defines_of_inv [OF assms(2)] yaml_laws.load_emit [OF assms(1)]
    by (simp add: logs_type_def LexicalCast_string_set_def)
  with yaml_laws.push_loaded_null [OF assms(1) texts] show ?thesis
    by (simp add: LoggerManager_toYamlString_def)
qed

theorem manager_yaml_roundtrip_witness:
  "\<exists>s d. LoggerManager_toYamlString tree_yaml demo_st = Inr s \<and>
     fst (FromStr (logs_type tree_yaml ''t'') s) = Inr (defines_of demo_st) \<and>
     d \<in> set (defines_of demo_st) \<and> ld_name d = ''root''"
proof -
  obtain s where "LoggerManager_toYamlString tree_yaml demo_st = Inr s"
    "fst (FromStr (logs_type tree_yaml ''t'') s) = Inr (defines_of demo_st)"
    using manager_yaml_roundtrip [OF tree.yaml_laws_axioms demo_st_wf, of "''t''"] by blast
  moreover have "''root'' \<in> set (map ld_name (defines_of demo_st))" by code_simp
  then obtain d where "d \<in> set (defines_of demo_st)" "ld_name d = ''root''" by auto
  ultimately show ?thesis by blast
qed

end
