(* ===== verification/Fiber.thy ===== *)
theory Fiber
  imports Sylar_Prelude
begin

text \<open>
  Coroutines: the class \<open>Fiber\<close> of \<^verbatim>\<open>sylar/fiber.h\<close> and \<^verbatim>\<open>sylar/fiber.cc\<close>, for one thread. A callback
  is a resumable program; the context saved in \<open>m_ctx\<close> is where that program continues. A context
  switch is synchronous: \<open>swapIn\<close> runs the fiber up to its next yield or its end, and then
  continues in the thread's main fiber. Fibers are shared objects and live in a store with their
  reference counts. The build defines \<open>SYLAR_FIBER_RETURN_USE_UCLINK\<close>, so a callback that ends
  goes back to the main fiber through \<open>uc_link\<close>.
\<close>

subsection \<open>Data\<close>

datatype fiber_state = INIT | HOLD | EXEC | TERM_STATE | READY | EXCEP

text \<open>
  What a callback does: output, yields in either of the two ways, and at the end a return or an
  exception. A callback that itself creates, resets, resumes or releases fibers is not modelled.
\<close>

datatype fiber_prog =
    Return
  | Throw exn
  | Out string fiber_prog
  | YieldToHold fiber_prog
  | YieldToReady fiber_prog

text \<open>A context: none saved, the entry of \<open>MainFunc\<close>, the point after a yield, or one whose function
  has returned, which must not be entered again.\<close>

datatype ucontext = NoContext | AtMainFunc | AfterYield fiber_prog | AfterMainFunc

text \<open>
  \<open>f_refs\<close> counts the \<open>shared_ptr\<close>s the rest of the program holds, \<open>f_self\<close> those on the stack of
  the fiber itself: \<open>cur\<close> of \<open>MainFunc\<close>, and \<open>cur\<close> of the function that yields.
\<close>

record fiber =
  f_id :: "64 word"
  f_stacksize :: "32 word"
  f_state :: fiber_state
  f_ctx :: ucontext
  f_stack :: bool
  f_cb :: "fiber_prog option"
  f_refs :: nat
  f_self :: nat

record fiber_sys =
  fs_fibers :: "nat \<Rightarrow> fiber option"
  fs_next :: nat
  t_fiber :: "nat option"
  t_threadFiber :: "nat option"
  s_fiber_id :: "64 word"
  s_fiber_count :: "64 word"
  fs_out :: "string list"
  fs_log :: "string list"
  fs_asserts :: "string list"

text \<open>
  The environment: whether \<open>assert\<close> is compiled out, the value of \<open>fiber.stack_size\<close>, and whether
  \<open>malloc\<close> and the context functions succeed.
\<close>

record fiber_env =
  NDEBUG :: bool
  g_fiber_stack_size :: "32 word"
  malloc_ok :: "32 word \<Rightarrow> bool"
  ctx_ok :: bool

definition no_fibers :: fiber_sys where
  "no_fibers = \<lparr>fs_fibers = Map.empty, fs_next = 0, t_fiber = None, t_threadFiber = None, s_fiber_id = 0,
     s_fiber_count = 0, fs_out = [], fs_log = [], fs_asserts = []\<rparr>"

subsection \<open>Helpers\<close>

definition upd_fiber :: "nat \<Rightarrow> (fiber \<Rightarrow> fiber) \<Rightarrow> fiber_sys \<Rightarrow> fiber_sys" where
  "upd_fiber p g s = s\<lparr>fs_fibers := (fs_fibers s)(p := map_option g (fs_fibers s p))\<rparr>"

definition log_fiber :: "string \<Rightarrow> fiber_sys \<Rightarrow> fiber_sys" where
  "log_fiber text s = s\<lparr>fs_log := fs_log s @ [text]\<rparr>"

text \<open>\<open>SYLAR_ASSERT\<close>: a failure is logged, and ends the program unless \<open>assert\<close> is compiled out.\<close>

definition SYLAR_ASSERT :: "fiber_env \<Rightarrow> bool \<Rightarrow> string \<Rightarrow> fiber_sys \<Rightarrow> fiber_sys res" where
  "SYLAR_ASSERT E x text s =
     (if x then Inr s
      else if NDEBUG E then Inr (s\<lparr>fs_asserts := fs_asserts s @ [text]\<rparr>)
      else Inl (AssertFail text))"

subsection \<open>Operations\<close>

definition SetThis :: "nat option \<Rightarrow> fiber_sys \<Rightarrow> fiber_sys" where
  "SetThis f s = s\<lparr>t_fiber := f\<rparr>"

text \<open>The private constructor of the main fiber; its address is the result.\<close>

definition Fiber_new_main :: "fiber_env \<Rightarrow> fiber_sys \<Rightarrow> (nat \<times> fiber_sys) res" where
  "Fiber_new_main E s =
     (let p = fs_next s;
          f = \<lparr>f_id = 0, f_stacksize = 0, f_state = EXEC, f_ctx = NoContext, f_stack = False, f_cb = None,
               f_refs = 1, f_self = 0\<rparr>;
          s1 = SetThis (Some p) (s\<lparr>fs_fibers := (fs_fibers s)(p \<mapsto> f), fs_next := Suc p\<rparr>)
      in bind_res (SYLAR_ASSERT E (ctx_ok E) ''getcontext'' s1) (\<lambda>s2.
           Inr (p, log_fiber (''Fiber::Fiber main_fiber id='' @ dec_unsigned (0 :: 64 word))
             (s2\<lparr>s_fiber_count := s_fiber_count s2 + 1\<rparr>))))"

text \<open>
  \<open>GetThis\<close>. The main fiber it creates is kept alive by \<open>t_threadFiber\<close>; the pointer returned is a
  temporary of the caller and is not counted.
\<close>

definition GetThis :: "fiber_env \<Rightarrow> fiber_sys \<Rightarrow> (nat \<times> fiber_sys) res" where
  "GetThis E s =
     (case t_fiber s of
        Some p \<Rightarrow> Inr (p, s)
      | None \<Rightarrow>
          bind_res (Fiber_new_main E s) (\<lambda>(p, s1).
          bind_res (SYLAR_ASSERT E (t_fiber s1 = Some p) ''t_fiber == main_fiber.get()'' s1) (\<lambda>s2.
            Inr (p, s2\<lparr>t_threadFiber := Some p\<rparr>))))"

text \<open>The public constructor, called by \<open>make_shared\<close> or \<open>new\<close>: one owner. The result of \<open>malloc\<close> is not
  tested, and \<open>makecontext\<close> needs the stack.\<close>

definition Fiber_new :: "fiber_env \<Rightarrow> fiber_prog option \<Rightarrow> 64 word \<Rightarrow> fiber_sys \<Rightarrow> (nat \<times> fiber_sys) res" where
  "Fiber_new E cb stacksize s =
     (let s0 = s\<lparr>s_fiber_id := s_fiber_id s + 1\<rparr>; i = s_fiber_id s0
      in bind_res (if t_threadFiber s0 = None then bind_res (GetThis E s0) (\<lambda>(_, s'). Inr s') else Inr s0) (\<lambda>s1.
         bind_res (SYLAR_ASSERT E (t_threadFiber s1 \<noteq> None) ''t_threadFiber'' s1) (\<lambda>s2.
         bind_res (SYLAR_ASSERT E (t_fiber s2 = t_threadFiber s2)
                     ''child fiber should be constructed in main fiber'' s2) (\<lambda>s3.
           let s4 = s3\<lparr>s_fiber_count := s_fiber_count s3 + 1\<rparr>;
               size = (if stacksize \<noteq> 0 then ucast stacksize else g_fiber_stack_size E);
               p = fs_next s4;
               f = \<lparr>f_id = i, f_stacksize = size, f_state = INIT, f_ctx = AtMainFunc,
                    f_stack = malloc_ok E size, f_cb = cb, f_refs = 1, f_self = 0\<rparr>
           in bind_res (SYLAR_ASSERT E (ctx_ok E) ''getcontext'' s4) (\<lambda>s5.
                if \<not> f_stack f then Inl (UndefinedBehaviour ''no stack'')
                else Inr (p, log_fiber (''Fiber::Fiber id='' @ dec_unsigned i)
                  (s5\<lparr>fs_fibers := (fs_fibers s5)(p \<mapsto> f), fs_next := Suc p\<rparr>)))))))"

definition may_restart :: "fiber_state \<Rightarrow> bool" where
  "may_restart st \<longleftrightarrow> st = TERM_STATE \<or> st = INIT \<or> st = EXCEP"

text \<open>The destructor, which runs when the last reference goes.\<close>

definition Fiber_dtor :: "fiber_env \<Rightarrow> nat \<Rightarrow> fiber_sys \<Rightarrow> fiber_sys res" where
  "Fiber_dtor E p s =
     (case fs_fibers s p of
        None \<Rightarrow> Inl NullDeref
      | Some f \<Rightarrow>
          (let s1 = s\<lparr>s_fiber_count := s_fiber_count s - 1\<rparr>
           in bind_res
                (if f_stack f
                 then SYLAR_ASSERT E (may_restart (f_state f)) ''m_state == TERM || INIT || EXCEP'' s1
                 else bind_res (SYLAR_ASSERT E (f_cb f = None) ''!m_cb'' s1) (\<lambda>s2.
                      bind_res (SYLAR_ASSERT E (f_state f = EXEC) ''m_state == State::EXEC'' s2) (\<lambda>s3.
                        Inr (if t_fiber s3 = Some p then SetThis None s3 else s3))))
                (\<lambda>s4. Inr (log_fiber (''Fiber::~Fiber id='' @ dec_unsigned (f_id f))
                   (s4\<lparr>fs_fibers := (fs_fibers s4)(p := None)\<rparr>)))))"

text \<open>Copying and releasing a \<open>Fiber::ptr\<close>.\<close>

definition ptr_copy :: "nat \<Rightarrow> fiber_sys \<Rightarrow> fiber_sys" where
  "ptr_copy p = upd_fiber p (\<lambda>f. f\<lparr>f_refs := Suc (f_refs f)\<rparr>)"

definition ptr_release :: "fiber_env \<Rightarrow> nat \<Rightarrow> fiber_sys \<Rightarrow> fiber_sys res" where
  "ptr_release E p s =
     (case fs_fibers s p of
        None \<Rightarrow> Inl NullDeref
      | Some f \<Rightarrow>
          (let s1 = upd_fiber p (\<lambda>f. f\<lparr>f_refs := f_refs f - 1\<rparr>) s
           in if f_refs f = 1 \<and> f_self f = 0 then Fiber_dtor E p s1 else Inr s1))"

definition Fiber_reset :: "fiber_env \<Rightarrow> nat \<Rightarrow> fiber_prog option \<Rightarrow> fiber_sys \<Rightarrow> fiber_sys res" where
  "Fiber_reset E p cb s =
     (case fs_fibers s p of
        None \<Rightarrow> Inl NullDeref
      | Some f \<Rightarrow>
          bind_res (SYLAR_ASSERT E (f_stack f) ''m_stack'' s) (\<lambda>s1.
          bind_res (SYLAR_ASSERT E (may_restart (f_state f)) ''m_state == TERM || INIT || EXCEP'' s1) (\<lambda>s2.
          bind_res (SYLAR_ASSERT E (ctx_ok E) ''getcontext'' s2) (\<lambda>s3.
            if t_threadFiber s3 = None then Inl NullDeref
            else if \<not> f_stack f then Inl (UndefinedBehaviour ''no stack'')
            else Inr (upd_fiber p (\<lambda>f. f\<lparr>f_cb := cb, f_ctx := AtMainFunc, f_state := INIT\<rparr>) s3)))))"

subsection \<open>Execution\<close>

text \<open>Running a program up to its next yield or its end.\<close>

datatype segment_end = Yielded fiber_state fiber_prog | Finished | Threw exn

fun run_segment :: "fiber_prog \<Rightarrow> string list \<times> segment_end" where
  "run_segment Return = ([], Finished)"
| "run_segment (Throw e) = ([], Threw e)"
| "run_segment (Out text p) = (case run_segment p of (out, end) \<Rightarrow> (text # out, end))"
| "run_segment (YieldToHold p) = ([], Yielded HOLD p)"
| "run_segment (YieldToReady p) = ([], Yielded READY p)"

text \<open>
  At the end of \<open>MainFunc\<close> its pointer \<open>cur\<close> goes, and the context has returned. Were \<open>cur\<close> the last
  pointer, the destructor would free the stack it is running on.
\<close>

definition drop_cur :: "nat \<Rightarrow> fiber_sys \<Rightarrow> fiber_sys res" where
  "drop_cur p s =
     (case fs_fibers s p of
        None \<Rightarrow> Inl NullDeref
      | Some f \<Rightarrow>
          if f_refs f = 0 then Inl (UndefinedBehaviour ''stack freed while in use'')
          else Inr (upd_fiber p (\<lambda>f. f\<lparr>f_self := 0, f_ctx := AfterMainFunc\<rparr>) s))"

text \<open>
  \<open>swapOut\<close>: the main fiber of the thread is the current one again. Where the fiber that leaves is to go on is what its
  caller saves.
\<close>

definition swapOut :: "fiber_sys \<Rightarrow> fiber_sys" where
  "swapOut s = SetThis (t_threadFiber s) s"

text \<open>
  What follows a segment in fiber \<open>p\<close>: the yield with its \<open>swapOut\<close>, or the rest of \<open>MainFunc\<close> after the
  callback, which ends by giving the thread back to the main fiber. Exceptions outside
  \<open>std::exception\<close> are caught as well; other errors are not exceptions and end the program.
\<close>

definition end_segment :: "nat \<Rightarrow> segment_end \<Rightarrow> fiber_sys \<Rightarrow> fiber_sys res" where
  "end_segment p e s =
     (case e of
        Yielded st rest \<Rightarrow>
          Inr (swapOut
            (upd_fiber p (\<lambda>f. f\<lparr>f_state := st, f_ctx := AfterYield rest, f_self := 2\<rparr>) s))
      | Finished \<Rightarrow>
          drop_cur p (SetThis (t_threadFiber s) (upd_fiber p (\<lambda>f. f\<lparr>f_cb := None, f_state := TERM_STATE\<rparr>) s))
      | Threw (StdException what) \<Rightarrow>
          drop_cur p (SetThis (t_threadFiber s) (log_fiber (''Fiber Except: '' @ what)
            (upd_fiber p (\<lambda>f. f\<lparr>f_state := EXCEP\<rparr>) s)))
      | Threw OtherException \<Rightarrow>
          drop_cur p (SetThis (t_threadFiber s) (log_fiber ''Fiber Except''
            (upd_fiber p (\<lambda>f. f\<lparr>f_state := EXCEP\<rparr>) s)))
      | Threw other \<Rightarrow> Inl other)"

definition run_from :: "nat \<Rightarrow> fiber_prog \<Rightarrow> fiber_sys \<Rightarrow> fiber_sys res" where
  "run_from p prog s = (case run_segment prog of (out, e) \<Rightarrow> end_segment p e (s\<lparr>fs_out := fs_out s @ out\<rparr>))"

text \<open>\<open>MainFunc\<close> from its start: calling an empty \<open>std::function\<close> throws \<open>std::bad_function_call\<close>.\<close>

definition MainFunc :: "nat \<Rightarrow> fiber_sys \<Rightarrow> fiber_sys res" where
  "MainFunc p s =
     (case fs_fibers s p of
        None \<Rightarrow> Inl NullDeref
      | Some f \<Rightarrow>
          run_from p (case f_cb f of None \<Rightarrow> Throw (StdException ''bad_function_call'') | Some prog \<Rightarrow> prog) s)"

text \<open>
  \<open>swapIn\<close>. Switching to the context the thread is running in already does nothing. Entering a
  context whose function has returned is undefined.
\<close>

definition swapIn :: "fiber_env \<Rightarrow> nat \<Rightarrow> fiber_sys \<Rightarrow> fiber_sys res" where
  "swapIn E p s =
     (case fs_fibers s p of
        None \<Rightarrow> Inl NullDeref
      | Some f \<Rightarrow>
          bind_res (SYLAR_ASSERT E (f_state f \<noteq> EXEC) ''m_state != State::EXEC'' (SetThis (Some p) s)) (\<lambda>s1.
            let s2 = upd_fiber p (\<lambda>f. f\<lparr>f_state := EXEC\<rparr>) s1
            in if t_threadFiber s2 = None then Inl NullDeref
               else if t_threadFiber s2 = Some p then Inr s2
               else if \<not> ctx_ok E then SYLAR_ASSERT E False ''swapcontext'' s2
               else if \<not> f_stack f then Inl (UndefinedBehaviour ''no stack'')
               else case f_ctx f of
                 NoContext \<Rightarrow> Inl (UndefinedBehaviour ''uninitialised context'')
               | AtMainFunc \<Rightarrow> MainFunc p s2
               | AfterYield rest \<Rightarrow> run_from p rest s2
               | AfterMainFunc \<Rightarrow> Inl (UndefinedBehaviour ''context that has returned'')))"

text \<open>
  \<open>YieldToReady\<close> and \<open>YieldToHold\<close> called outside any child fiber: the main fiber switches to its
  own context.
\<close>

definition yield_in_main :: "fiber_env \<Rightarrow> fiber_state \<Rightarrow> fiber_sys \<Rightarrow> fiber_sys res" where
  "yield_in_main E st s =
     bind_res (GetThis E s) (\<lambda>(p, s1).
       let s2 = swapOut (upd_fiber p (\<lambda>f. f\<lparr>f_state := st\<rparr>) s1)
       in SYLAR_ASSERT E (ctx_ok E) ''swapcontext'' s2)"

text \<open>The end of the thread: the thread-local pointer \<open>t_threadFiber\<close> is destroyed.\<close>

definition thread_exit :: "fiber_env \<Rightarrow> fiber_sys \<Rightarrow> fiber_sys res" where
  "thread_exit E s =
     (case t_threadFiber s of
        None \<Rightarrow> Inr s
      | Some m \<Rightarrow> bind_res (ptr_release E m s) (\<lambda>s'. Inr (s'\<lparr>t_threadFiber := None\<rparr>)))"

definition TotalFibers :: "fiber_sys \<Rightarrow> 64 word" where
  "TotalFibers s = s_fiber_count s"

definition GetFiberId :: "fiber_sys \<Rightarrow> 64 word res" where
  "GetFiberId s =
     (case t_fiber s of
        None \<Rightarrow> Inr 0
      | Some p \<Rightarrow>
          (case fs_fibers s p of
             None \<Rightarrow> Inl (UndefinedBehaviour ''dangling pointer'')
           | Some f \<Rightarrow> Inr (f_id f)))"

end
