(* ===== verification/Fiber_Props.thy ===== *)
theory Fiber_Props
  imports Fiber
begin

text \<open>
  The invariant of the fibers of a thread, its preservation by every operation, and what the
  operations guarantee.
\<close>

subsection \<open>Invariant\<close>

text \<open>A child fiber between operations of the main fiber: its state tells what its context is.\<close>

definition wf_child :: "fiber \<Rightarrow> bool" where
  "wf_child f \<longleftrightarrow> f_stack f \<and> 0 < f_refs f + f_self f \<and>
     (case f_state f of
        INIT \<Rightarrow> f_ctx f = AtMainFunc \<and> f_self f = 0
      | HOLD \<Rightarrow> (\<exists>rest. f_ctx f = AfterYield rest) \<and> f_self f = 2
      | READY \<Rightarrow> (\<exists>rest. f_ctx f = AfterYield rest) \<and> f_self f = 2
      | TERM_STATE \<Rightarrow> f_ctx f = AfterMainFunc \<and> f_cb f = None \<and> f_self f = 0
      | EXCEP \<Rightarrow> f_ctx f = AfterMainFunc \<and> f_self f = 0
      | EXEC \<Rightarrow> False)"

text \<open>The main fiber; a yield outside any child leaves its state at \<open>HOLD\<close> or \<open>READY\<close>.\<close>

definition wf_main :: "fiber \<Rightarrow> bool" where
  "wf_main f \<longleftrightarrow> \<not> f_stack f \<and> f_cb f = None \<and> f_id f = 0 \<and>
     (f_state f = EXEC \<or> f_state f = HOLD \<or> f_state f = READY) \<and> 0 < f_refs f \<and> f_self f = 0"

definition wf_store :: "fiber_sys \<Rightarrow> bool" where
  "wf_store s \<longleftrightarrow> (\<forall>p f. fs_fibers s p = Some f \<longrightarrow>
     p < fs_next s \<and> (if t_threadFiber s = Some p then wf_main f else wf_child f))"

definition wf_thread :: "fiber_sys \<Rightarrow> bool" where
  "wf_thread s \<longleftrightarrow> t_fiber s = t_threadFiber s \<and>
     (case t_threadFiber s of None \<Rightarrow> fs_fibers s = Map.empty | Some p \<Rightarrow> fs_fibers s p \<noteq> None)"

definition wf_count :: "fiber_sys \<Rightarrow> bool" where
  "wf_count s \<longleftrightarrow> finite (dom (fs_fibers s)) \<and> s_fiber_count s = of_nat (card (dom (fs_fibers s)))"

text \<open>The ids of the children are the ones handed out, each at most once.\<close>

definition wf_ids :: "fiber_sys \<Rightarrow> bool" where
  "wf_ids s \<longleftrightarrow>
     (\<forall>p f. fs_fibers s p = Some f \<longrightarrow> f_id f \<le> s_fiber_id s \<and> (t_threadFiber s \<noteq> Some p \<longrightarrow> f_id f \<noteq> 0)) \<and>
     (\<forall>p q f g. fs_fibers s p = Some f \<longrightarrow> fs_fibers s q = Some g \<longrightarrow> f_id f = f_id g \<longrightarrow> p = q)"

definition wf_sys :: "fiber_sys \<Rightarrow> bool" where
  "wf_sys s \<longleftrightarrow> wf_store s \<and> wf_thread s \<and> wf_count s \<and> wf_ids s \<and> fs_asserts s = []"

lemmas wf_sys_defs = wf_sys_def wf_store_def wf_thread_def wf_count_def wf_ids_def

text \<open>An environment in which allocation and the context functions succeed.\<close>

definition good_env :: "fiber_env \<Rightarrow> bool" where
  "good_env E \<longleftrightarrow> ctx_ok E \<and> (\<forall>size. malloc_ok E size)"

lemma SYLAR_ASSERT_True [simp]: "SYLAR_ASSERT E True text s = Inr s"
  by (simp add: SYLAR_ASSERT_def)

lemma wf_sys_child:
  assumes "wf_sys s" and "fs_fibers s p = Some f" and "t_threadFiber s \<noteq> Some p"
  shows "wf_child f"
  using assms by (auto simp: wf_sys_def wf_store_def)

lemma wf_sys_main:
  assumes "wf_sys s" and "t_threadFiber s = Some p"
  obtains f where "fs_fibers s p = Some f" "wf_main f"
  using assms by (fastforce simp: wf_sys_def wf_store_def wf_thread_def)

lemma wf_sys_thread: "wf_sys s \<Longrightarrow> fs_fibers s p = Some f \<Longrightarrow> t_threadFiber s \<noteq> None"
  by (auto simp: wf_sys_def wf_thread_def split: option.splits)

lemma wf_no_fibers: "wf_sys no_fibers"
  by (simp add: wf_sys_defs no_fibers_def)

text \<open>Replacing one fiber by another with the same id, in the same role.\<close>

lemma wf_sys_update:
  assumes wf: "wf_sys s" and p: "fs_fibers s p = Some f"
    and s': "fs_fibers s' = (fs_fibers s)(p \<mapsto> g)" "fs_next s' = fs_next s" "t_fiber s' = t_fiber s"
      "t_threadFiber s' = t_threadFiber s" "s_fiber_id s' = s_fiber_id s" "s_fiber_count s' = s_fiber_count s"
      "fs_asserts s' = fs_asserts s"
    and g: "f_id g = f_id f" "if t_threadFiber s = Some p then wf_main g else wf_child g"
  shows "wf_sys s'"
proof -
  have "wf_store s'" using wf p g s' by (auto simp: wf_sys_def wf_store_def)
  moreover have "wf_thread s'" using wf p s' by (auto simp: wf_sys_def wf_thread_def split: option.splits)
  moreover have "dom (fs_fibers s') = dom (fs_fibers s)" using p s'(1) by auto
  then have "wf_count s'" using wf s' by (simp add: wf_sys_def wf_count_def)
  moreover have "wf_ids s'" using wf p g(1) s' by (simp add: wf_sys_def wf_ids_def) metis
  ultimately show ?thesis using wf s' by (simp add: wf_sys_def)
qed

lemma GetFiberId_main: "wf_sys s \<Longrightarrow> GetFiberId s = Inr 0"
proof (cases "t_threadFiber s")
  case (Some p)
  moreover assume wf: "wf_sys s"
  moreover obtain f where "fs_fibers s p = Some f" "wf_main f" by (rule wf_sys_main [OF wf Some])
  ultimately show ?thesis by (simp add: GetFiberId_def wf_sys_def wf_thread_def wf_main_def)
qed (auto simp: GetFiberId_def wf_sys_def wf_thread_def)

subsection \<open>Creation\<close>

lemma GetThis_spec:
  assumes wf: "wf_sys s" and E: "good_env E"
  shows "\<exists>p s'. GetThis E s = Inr (p, s') \<and> wf_sys s' \<and> t_fiber s' = Some p \<and> t_threadFiber s' = Some p \<and>
    s_fiber_id s' = s_fiber_id s \<and> (t_threadFiber s \<noteq> None \<longrightarrow> s' = s)"
proof (cases "t_threadFiber s")
  case None
  with wf have e: "t_fiber s = None" "fs_fibers s = Map.empty" by (auto simp: wf_sys_def wf_thread_def)
  with E None show ?thesis using wf
    by (auto simp: GetThis_def Fiber_new_main_def SetThis_def log_fiber_def good_env_def Let_def wf_sys_defs wf_main_def)
next
  case (Some p)
  with wf show ?thesis by (auto simp: GetThis_def wf_sys_def wf_thread_def)
qed

lemma Fiber_new_spec:
  assumes wf: "wf_sys s" and E: "good_env E" and i: "s_fiber_id s \<noteq> - 1"
  shows "\<exists>p s'. Fiber_new E cb sz s = Inr (p, s') \<and> wf_sys s' \<and> t_threadFiber s' \<noteq> Some p \<and>
    fs_fibers s' p = Some \<lparr>f_id = s_fiber_id s + 1,
      f_stacksize = (if sz \<noteq> 0 then ucast sz else g_fiber_stack_size E), f_state = INIT, f_ctx = AtMainFunc,
      f_stack = True, f_cb = cb, f_refs = 1, f_self = 0\<rparr>"
proof -
  let ?s0 = "s\<lparr>s_fiber_id := s_fiber_id s + 1\<rparr>"
  have less: "s_fiber_id s < s_fiber_id s + 1" using i by (rule word_inc_greater)
  then have ne0: "s_fiber_id s + 1 \<noteq> 0" by auto
  have mono: "x \<le> s_fiber_id s \<Longrightarrow> x \<le> s_fiber_id s + 1" for x
    by (rule order_trans [OF _ less_imp_le [OF less]])
  have ids: "wf_ids ?s0" using wf mono unfolding wf_sys_def wf_ids_def by simp
  have wf0: "wf_sys ?s0"
    using wf ids by (simp add: wf_sys_def wf_store_def wf_thread_def wf_count_def split: option.splits)
  obtain m s1 where s1: "(if t_threadFiber ?s0 = None then bind_res (GetThis E ?s0) (\<lambda>(_, s'). Inr s') else Inr ?s0) = Inr s1"
    "wf_sys s1" "t_threadFiber s1 = Some m" "s_fiber_id s1 = s_fiber_id s + 1"
    "\<forall>p f. fs_fibers s1 p = Some f \<longrightarrow> f_id f < s_fiber_id s + 1"
  proof (cases "t_threadFiber s")
    case None
    from GetThis_spec [OF wf0 E] obtain m s1 where g: "GetThis E ?s0 = Inr (m, s1)" "wf_sys s1"
      "t_threadFiber s1 = Some m" "s_fiber_id s1 = s_fiber_id s + 1" by auto
    from wf None have "fs_fibers s = Map.empty" "t_fiber s = None" by (auto simp: wf_sys_def wf_thread_def)
    with g(1) E None have "fs_fibers s1 p = Some f \<Longrightarrow> f_id f = 0" for p f
      by (auto simp: GetThis_def Fiber_new_main_def SetThis_def log_fiber_def good_env_def Let_def split: if_splits)
    with g None ne0 show ?thesis by (intro that [of s1 m]) (auto simp: word_neq_0_conv)
  next
    case (Some m)
    have "f_id f < s_fiber_id s + 1" if "fs_fibers s p = Some f" for p f
    proof -
      have "f_id f \<le> s_fiber_id s" using wf that by (auto simp: wf_sys_def wf_ids_def)
      then show ?thesis using less by (rule le_less_trans)
    qed
    with Some wf0 show ?thesis by (intro that [of ?s0 m]) auto
  qed
  let ?f = "\<lparr>f_id = s_fiber_id s + 1, f_stacksize = (if sz \<noteq> 0 then ucast sz else g_fiber_stack_size E),
      f_state = INIT, f_ctx = AtMainFunc, f_stack = True, f_cb = cb, f_refs = 1, f_self = 0\<rparr>"
  let ?s' = "log_fiber (''Fiber::Fiber id='' @ dec_unsigned (s_fiber_id s + 1))
      (s1\<lparr>s_fiber_count := s_fiber_count s1 + 1, fs_fibers := (fs_fibers s1)(fs_next s1 \<mapsto> ?f), fs_next := Suc (fs_next s1)\<rparr>)"
  have th: "t_fiber s1 = Some m" using s1(2,3) by (simp add: wf_sys_def wf_thread_def)
  have new: "fs_fibers s1 (fs_next s1) = None"
    using s1(2) by (cases "fs_fibers s1 (fs_next s1)") (auto simp: wf_sys_def wf_store_def)
  obtain f0 where "fs_fibers s1 m = Some f0" by (rule wf_sys_main [OF s1(2,3)])
  with new have m: "m \<noteq> fs_next s1" by auto
  have "Fiber_new E cb sz s = Inr (fs_next s1, ?s')"
    using s1 th E by (simp add: Fiber_new_def Let_def good_env_def log_fiber_def)
  moreover have child: "wf_child ?f" by (simp add: wf_child_def)
  have "wf_store ?s'" "wf_thread ?s'"
    using s1(2,3) m child by (auto simp: wf_sys_def wf_store_def wf_thread_def log_fiber_def less_SucI)
  moreover note this
  moreover have "wf_count ?s'"
  proof -
    have "fs_next s1 \<notin> dom (fs_fibers s1)" using new by auto
    then show ?thesis using s1(2) by (simp add: wf_sys_def wf_count_def log_fiber_def)
  qed
  moreover have "wf_ids ?s'"
    using s1(2,4,5) ne0 less by (fastforce simp: wf_sys_def wf_ids_def log_fiber_def)
  moreover have "fs_asserts ?s' = []" using s1(2) by (simp add: wf_sys_def log_fiber_def)
  ultimately show ?thesis using m s1(3) by (intro exI [of _ "fs_next s1"] exI [of _ ?s']) (simp add: wf_sys_def log_fiber_def)
qed

text \<open>The constructor leaves the fibers there are as they were.\<close>

lemma Fiber_new_frame:
  assumes wf: "wf_sys s" and E: "good_env E" and new: "Fiber_new E cb sz s = Inr (q, s')" and p: "fs_fibers s p = Some f"
  shows "fs_fibers s' p = Some f"
proof -
  obtain m where m: "t_threadFiber s = Some m" using wf_sys_thread [OF wf p] by auto
  moreover from wf m have "t_fiber s = Some m" by (simp add: wf_sys_def wf_thread_def)
  moreover from wf p have "p \<noteq> fs_next s" by (auto simp: wf_sys_def wf_store_def)
  ultimately show ?thesis using new E p by (auto simp: Fiber_new_def Let_def good_env_def log_fiber_def)
qed

subsection \<open>Pointers and reset\<close>

lemma upd_fiber_simps:
  "fs_fibers (upd_fiber p g s) = (fs_fibers s)(p := map_option g (fs_fibers s p))"
  "fs_next (upd_fiber p g s) = fs_next s" "t_fiber (upd_fiber p g s) = t_fiber s"
  "t_threadFiber (upd_fiber p g s) = t_threadFiber s" "s_fiber_id (upd_fiber p g s) = s_fiber_id s"
  "s_fiber_count (upd_fiber p g s) = s_fiber_count s" "fs_out (upd_fiber p g s) = fs_out s"
  "fs_log (upd_fiber p g s) = fs_log s" "fs_asserts (upd_fiber p g s) = fs_asserts s"
  by (simp_all add: upd_fiber_def)

lemma wf_upd_fiber:
  assumes "wf_sys s" and "fs_fibers s p = Some f" and "f_id (g f) = f_id f"
    and "if t_threadFiber s = Some p then wf_main (g f) else wf_child (g f)"
  shows "wf_sys (upd_fiber p g s)"
  using assms by (intro wf_sys_update [OF assms(1,2), of _ "g f"]) (simp_all add: upd_fiber_simps)

lemma wf_ptr_copy:
  assumes "wf_sys s" and "fs_fibers s p = Some f"
  shows "wf_sys (ptr_copy p s)"
  unfolding ptr_copy_def
proof (rule wf_upd_fiber [OF assms])
  show "if t_threadFiber s = Some p then wf_main (f\<lparr>f_refs := Suc (f_refs f)\<rparr>) else wf_child (f\<lparr>f_refs := Suc (f_refs f)\<rparr>)"
  proof -
    have "if t_threadFiber s = Some p then wf_main f else wf_child f"
      using assms by (auto simp: wf_sys_def wf_store_def)
    then show ?thesis by (auto simp: wf_main_def wf_child_def split: fiber_state.splits if_splits)
  qed
qed simp

text \<open>Removing a child.\<close>

lemma wf_remove:
  assumes wf: "wf_sys s" and p: "fs_fibers s p = Some f" "t_threadFiber s \<noteq> Some p"
    and s': "fs_fibers s' = (fs_fibers s)(p := None)" "fs_next s' = fs_next s" "t_fiber s' = t_fiber s"
      "t_threadFiber s' = t_threadFiber s" "s_fiber_id s' = s_fiber_id s"
      "s_fiber_count s' = s_fiber_count s - 1" "fs_asserts s' = fs_asserts s"
  shows "wf_sys s'"
proof -
  have "wf_store s'" "wf_thread s'" using wf p s' wf_sys_thread [OF wf p(1)]
    by (auto simp: wf_sys_def wf_store_def wf_thread_def split: if_splits)
  moreover have "wf_ids s'" using wf s' unfolding wf_sys_def wf_ids_def by (simp split: if_splits)
  moreover have "wf_count s'"
  proof -
    let ?d = "dom (fs_fibers s)"
    have fin: "finite ?d" and cnt: "s_fiber_count s = of_nat (card ?d)" using wf by (auto simp: wf_sys_def wf_count_def)
    have "dom (fs_fibers s') = ?d - {p}" using s'(1) by auto
    moreover have "card ?d = Suc (card (?d - {p}))" using p(1) fin by (intro card.remove) auto
    ultimately show ?thesis using fin cnt s'(6) by (simp add: wf_count_def)
  qed
  ultimately show ?thesis using wf s' by (simp add: wf_sys_def)
qed

lemma ptr_release_spec:
  assumes wf: "wf_sys s" and p: "fs_fibers s p = Some f" "t_threadFiber s \<noteq> Some p" and r: "0 < f_refs f"
  shows "\<exists>s'. ptr_release E p s = Inr s' \<and> wf_sys s' \<and>
    fs_fibers s' = (fs_fibers s)(p := if f_refs f = 1 \<and> f_self f = 0 then None else Some (f\<lparr>f_refs := f_refs f - 1\<rparr>))"
proof (cases "f_refs f = 1 \<and> f_self f = 0")
  case True
  let ?s1 = "upd_fiber p (\<lambda>f. f\<lparr>f_refs := f_refs f - 1\<rparr>) s"
  let ?s' = "log_fiber (''Fiber::~Fiber id='' @ dec_unsigned (f_id f))
      (?s1\<lparr>s_fiber_count := s_fiber_count s - 1, fs_fibers := (fs_fibers ?s1)(p := None)\<rparr>)"
  have child: "wf_child f" using wf p by (rule wf_sys_child)
  then have st: "may_restart (f_state f)" "f_stack f"
    using True by (auto simp: wf_child_def may_restart_def split: fiber_state.splits)
  have "ptr_release E p s = Inr ?s'"
    using True st p(1) by (simp add: ptr_release_def Fiber_dtor_def upd_fiber_simps Let_def)
  moreover have "wf_sys ?s'" by (rule wf_remove [OF wf p]) (simp_all add: log_fiber_def upd_fiber_simps)
  ultimately show ?thesis using True by (intro exI [of _ ?s']) (simp add: log_fiber_def upd_fiber_simps)
next
  case False
  let ?s' = "upd_fiber p (\<lambda>f. f\<lparr>f_refs := f_refs f - 1\<rparr>) s"
  have "wf_child f" using wf p by (rule wf_sys_child)
  then have "wf_child (f\<lparr>f_refs := f_refs f - 1\<rparr>)"
    using False r by (auto simp: wf_child_def split: fiber_state.splits)
  then have "wf_sys ?s'" using p by (intro wf_upd_fiber [OF wf p(1)]) simp_all
  with False p show ?thesis by (intro exI [of _ ?s']) (auto simp: ptr_release_def Let_def upd_fiber_simps)
qed

lemma reset_spec:
  assumes wf: "wf_sys s" and E: "good_env E" and p: "fs_fibers s p = Some f" "t_threadFiber s \<noteq> Some p"
    and st: "may_restart (f_state f)"
  shows "\<exists>s'. Fiber_reset E p cb s = Inr s' \<and> wf_sys s' \<and> t_threadFiber s' = t_threadFiber s \<and>
    fs_fibers s' = (fs_fibers s)(p \<mapsto> f\<lparr>f_cb := cb, f_ctx := AtMainFunc, f_state := INIT\<rparr>)"
proof -
  let ?s' = "upd_fiber p (\<lambda>f. f\<lparr>f_cb := cb, f_ctx := AtMainFunc, f_state := INIT\<rparr>) s"
  have child: "wf_child f" using wf p by (rule wf_sys_child)
  have "Fiber_reset E p cb s = Inr ?s'"
    using child p st E wf_sys_thread [OF wf p(1)] by (simp add: Fiber_reset_def wf_child_def good_env_def)
  moreover have "wf_child (f\<lparr>f_cb := cb, f_ctx := AtMainFunc, f_state := INIT\<rparr>)"
    using child st by (auto simp: wf_child_def may_restart_def)
  then have "wf_sys ?s'" using p by (intro wf_upd_fiber [OF wf p(1)]) simp_all
  ultimately show ?thesis using p by (intro exI [of _ ?s']) (simp add: upd_fiber_simps)
qed

subsection \<open>Running\<close>

definition resumable :: "fiber \<Rightarrow> bool" where
  "resumable f \<longleftrightarrow> f_state f = INIT \<or> f_state f = HOLD \<or> f_state f = READY"

text \<open>What a fiber runs when it is switched to.\<close>

definition next_prog :: "fiber \<Rightarrow> fiber_prog" where
  "next_prog f = (case f_ctx f of AfterYield rest \<Rightarrow> rest
     | _ \<Rightarrow> (case f_cb f of None \<Rightarrow> Throw (StdException ''bad_function_call'') | Some prog \<Rightarrow> prog))"

definition catchable :: "exn \<Rightarrow> bool" where
  "catchable e \<longleftrightarrow> e = OtherException \<or> (\<exists>what. e = StdException what)"

definition segment_ok :: "segment_end \<Rightarrow> bool" where
  "segment_ok e = (case e of Threw x \<Rightarrow> catchable x | _ \<Rightarrow> True)"

definition after_segment :: "segment_end \<Rightarrow> fiber \<Rightarrow> fiber" where
  "after_segment e f =
     (case e of
        Yielded st rest \<Rightarrow> f\<lparr>f_state := st, f_ctx := AfterYield rest, f_self := 2\<rparr>
      | Finished \<Rightarrow> f\<lparr>f_cb := None, f_state := TERM_STATE, f_self := 0, f_ctx := AfterMainFunc\<rparr>
      | Threw _ \<Rightarrow> f\<lparr>f_state := EXCEP, f_self := 0, f_ctx := AfterMainFunc\<rparr>)"

lemma run_segment_yield: "run_segment prog = (out, Yielded st rest) \<Longrightarrow> st = HOLD \<or> st = READY"
  by (induction prog arbitrary: out) (auto split: prod.splits)

lemma wf_after_segment:
  assumes "wf_child f" and "0 < f_refs f" and "run_segment prog = (out, e)"
  shows "wf_child (after_segment e f)"
  using assms run_segment_yield [of prog out]
  by (cases e) (auto simp: wf_child_def after_segment_def)

lemma end_segment_eq:
  assumes "fs_fibers s p = Some f" and "segment_ok e" and "0 < f_refs f"
  shows "\<exists>s'. end_segment p e s = Inr s' \<and> fs_fibers s' = (fs_fibers s)(p \<mapsto> after_segment e f) \<and>
    t_fiber s' = t_threadFiber s \<and> t_threadFiber s' = t_threadFiber s \<and> fs_next s' = fs_next s \<and>
    s_fiber_id s' = s_fiber_id s \<and> s_fiber_count s' = s_fiber_count s \<and> fs_asserts s' = fs_asserts s \<and>
    fs_out s' = fs_out s"
  using assms
  by (cases e; auto simp: end_segment_def swapOut_def drop_cur_def after_segment_def SetThis_def log_fiber_def upd_fiber_simps
      segment_ok_def catchable_def)

lemma swapIn_spec:
  assumes wf: "wf_sys s" and E: "good_env E" and p: "fs_fibers s p = Some f" "t_threadFiber s \<noteq> Some p"
    and r: "0 < f_refs f" "resumable f" and seg: "run_segment (next_prog f) = (out, e)" "segment_ok e"
  shows "\<exists>s'. swapIn E p s = Inr s' \<and> wf_sys s' \<and> t_fiber s' = t_threadFiber s \<and> t_threadFiber s' = t_threadFiber s \<and>
    fs_out s' = fs_out s @ out \<and> fs_fibers s' = (fs_fibers s)(p \<mapsto> after_segment e f)"
proof -
  have child: "wf_child f" using wf p by (rule wf_sys_child)
  obtain m where m: "t_threadFiber s = Some m" using wf_sys_thread [OF wf p(1)] by auto
  let ?s2 = "upd_fiber p (\<lambda>f. f\<lparr>f_state := EXEC\<rparr>) (SetThis (Some p) s)"
  let ?s3 = "?s2\<lparr>fs_out := fs_out s @ out\<rparr>"
  have f3: "fs_fibers ?s3 p = Some (f\<lparr>f_state := EXEC\<rparr>)" using p by (simp add: upd_fiber_simps SetThis_def)
  have same: "after_segment e (f\<lparr>f_state := EXEC\<rparr>) = after_segment e f" by (cases e) (simp_all add: after_segment_def)
  from end_segment_eq [OF f3 seg(2)] r(1) obtain s' where s': "end_segment p e ?s3 = Inr s'"
    "fs_fibers s' = (fs_fibers s)(p \<mapsto> after_segment e f)" "t_fiber s' = t_threadFiber s" "t_threadFiber s' = t_threadFiber s"
    "fs_next s' = fs_next s" "s_fiber_id s' = s_fiber_id s" "s_fiber_count s' = s_fiber_count s"
    "fs_asserts s' = fs_asserts s" "fs_out s' = fs_out s @ out"
    using p by (auto simp: upd_fiber_simps SetThis_def same)
  have run: "run_from p (next_prog f) ?s2 = Inr s'"
    using seg(1) s'(1) by (simp add: run_from_def upd_fiber_simps SetThis_def)
  have "swapIn E p s = run_from p (next_prog f) ?s2"
    using p m child r E
    by (auto simp: swapIn_def MainFunc_def next_prog_def wf_child_def resumable_def good_env_def SetThis_def
        upd_fiber_simps Let_def split: option.splits)
  with run have "swapIn E p s = Inr s'" by simp
  moreover have "wf_sys s'"
  proof (rule wf_sys_update [OF wf p(1) s'(2)])
    show "t_fiber s' = t_fiber s" using wf s'(3) by (simp add: wf_sys_def wf_thread_def)
    show "f_id (after_segment e f) = f_id f" by (cases e) (simp_all add: after_segment_def)
    show "if t_threadFiber s = Some p then wf_main (after_segment e f) else wf_child (after_segment e f)"
      using p(2) wf_after_segment [OF child r(1) seg(1)] by simp
  qed (use s' in simp_all)
  ultimately show ?thesis using s' by blast
qed

subsection \<open>Every call, allowed or not\<close>

text \<open>A call that returns with no assertion failed, recorded or not.\<close>

definition passes :: "fiber_sys res \<Rightarrow> bool" where
  "passes r \<longleftrightarrow> (\<exists>s'. r = Inr s' \<and> fs_asserts s' = [])"

lemma wf_passes: "r = Inr s' \<Longrightarrow> wf_sys s' \<Longrightarrow> passes r"
  by (simp add: passes_def wf_sys_def)

lemma release_main_spec:
  assumes wf: "wf_sys s" and p: "fs_fibers s p = Some f" "t_threadFiber s = Some p" and r: "1 < f_refs f"
  shows "\<exists>s'. ptr_release E p s = Inr s' \<and> wf_sys s'"
proof -
  let ?s' = "upd_fiber p (\<lambda>f. f\<lparr>f_refs := f_refs f - 1\<rparr>) s"
  have "wf_main f" using wf p by (auto simp: wf_sys_def wf_store_def)
  then have "wf_main (f\<lparr>f_refs := f_refs f - 1\<rparr>)" using r by (auto simp: wf_main_def)
  then have "wf_sys ?s'" using p by (intro wf_upd_fiber [OF wf p(1)]) simp_all
  with p r show ?thesis by (intro exI [of _ ?s']) (simp add: ptr_release_def Let_def)
qed

lemma reset_outcome:
  assumes wf: "wf_sys s" and E: "good_env E" and p: "fs_fibers s p = Some f"
  shows "passes (Fiber_reset E p cb s) \<longleftrightarrow> t_threadFiber s \<noteq> Some p \<and> may_restart (f_state f)"
    and "\<not> (t_threadFiber s \<noteq> Some p \<and> may_restart (f_state f)) \<Longrightarrow> \<not> NDEBUG E \<Longrightarrow>
      \<exists>text. Fiber_reset E p cb s = Inl (AssertFail text)"
proof -
  have role: "if t_threadFiber s = Some p then wf_main f else wf_child f"
    using wf p by (auto simp: wf_sys_def wf_store_def)
  have bad: "\<not> passes (Fiber_reset E p cb s)"
    "\<not> NDEBUG E \<longrightarrow> (\<exists>text. Fiber_reset E p cb s = Inl (AssertFail text))"
    if "\<not> (t_threadFiber s \<noteq> Some p \<and> may_restart (f_state f))"
    using that p E role
    by (auto simp: passes_def Fiber_reset_def SYLAR_ASSERT_def good_env_def wf_main_def wf_child_def upd_fiber_simps
        split: if_splits)
  moreover have "passes (Fiber_reset E p cb s)" if "t_threadFiber s \<noteq> Some p" "may_restart (f_state f)"
    using reset_spec [OF wf E p that, of cb] wf_passes by blast
  ultimately show "passes (Fiber_reset E p cb s) \<longleftrightarrow> t_threadFiber s \<noteq> Some p \<and> may_restart (f_state f)"
    by blast
  show "\<not> (t_threadFiber s \<noteq> Some p \<and> may_restart (f_state f)) \<Longrightarrow> \<not> NDEBUG E \<Longrightarrow>
      \<exists>text. Fiber_reset E p cb s = Inl (AssertFail text)" using bad(2) by blast
qed

lemma swapIn_main_spec:
  assumes wf: "wf_sys s" and p: "fs_fibers s p = Some f" "t_threadFiber s = Some p" and st: "f_state f \<noteq> EXEC"
  shows "\<exists>s'. swapIn E p s = Inr s' \<and> wf_sys s'"
proof -
  let ?s' = "upd_fiber p (\<lambda>f. f\<lparr>f_state := EXEC\<rparr>) s"
  have this_fiber: "SetThis (Some p) s = s" using wf p by (simp add: SetThis_def wf_sys_def wf_thread_def)
  have "wf_main f" using wf p by (auto simp: wf_sys_def wf_store_def)
  then have "wf_main (f\<lparr>f_state := EXEC\<rparr>)" by (simp add: wf_main_def)
  then have "wf_sys ?s'" using p by (intro wf_upd_fiber [OF wf p(1)]) simp_all
  with p st show ?thesis by (intro exI [of _ ?s']) (simp add: swapIn_def this_fiber upd_fiber_simps Let_def)
qed

lemma swapIn_main_outcome:
  assumes wf: "wf_sys s" and p: "fs_fibers s p = Some f" "t_threadFiber s = Some p"
  shows "passes (swapIn E p s) \<longleftrightarrow> f_state f \<noteq> EXEC"
    and "f_state f = EXEC \<Longrightarrow> \<not> NDEBUG E \<Longrightarrow> swapIn E p s = Inl (AssertFail ''m_state != State::EXEC'')"
proof -
  have "\<not> passes (swapIn E p s)" if "f_state f = EXEC"
    using that p by (auto simp: passes_def swapIn_def SYLAR_ASSERT_def SetThis_def upd_fiber_simps Let_def)
  with swapIn_main_spec [OF wf p, of E] show "passes (swapIn E p s) \<longleftrightarrow> f_state f \<noteq> EXEC"
    using wf_passes by blast
  show "f_state f = EXEC \<Longrightarrow> \<not> NDEBUG E \<Longrightarrow> swapIn E p s = Inl (AssertFail ''m_state != State::EXEC'')"
    using p by (simp add: swapIn_def SYLAR_ASSERT_def)
qed

text \<open>A child that ended, and a callback that ends with an error that is no exception.\<close>

lemma swapIn_ended:
  assumes wf: "wf_sys s" and E: "good_env E" and p: "fs_fibers s p = Some f" "t_threadFiber s \<noteq> Some p"
    and st: "\<not> resumable f"
  shows "swapIn E p s = Inl (UndefinedBehaviour ''context that has returned'')"
proof -
  have child: "wf_child f" using wf p by (rule wf_sys_child)
  then have "f_ctx f = AfterMainFunc" "f_state f \<noteq> EXEC" "f_stack f"
    using st by (auto simp: wf_child_def resumable_def split: fiber_state.splits)
  with p E wf_sys_thread [OF wf p(1)] show ?thesis
    by (simp add: swapIn_def good_env_def SetThis_def upd_fiber_simps Let_def)
qed

lemma end_segment_fatal: "\<not> segment_ok e \<Longrightarrow> \<exists>x. end_segment p e s = Inl x"
  by (cases e) (auto simp: segment_ok_def catchable_def end_segment_def split: exn.splits)

lemma swapIn_fatal:
  assumes wf: "wf_sys s" and E: "good_env E" and p: "fs_fibers s p = Some f" "t_threadFiber s \<noteq> Some p"
    and st: "resumable f" and seg: "\<not> segment_ok (snd (run_segment (next_prog f)))"
  shows "\<exists>x. swapIn E p s = Inl x"
proof -
  have child: "wf_child f" using wf p by (rule wf_sys_child)
  obtain m where m: "t_threadFiber s = Some m" using wf_sys_thread [OF wf p(1)] by auto
  let ?s2 = "upd_fiber p (\<lambda>f. f\<lparr>f_state := EXEC\<rparr>) (SetThis (Some p) s)"
  have "swapIn E p s = run_from p (next_prog f) ?s2"
    using p m child st E
    by (auto simp: swapIn_def MainFunc_def next_prog_def wf_child_def resumable_def good_env_def SetThis_def
        upd_fiber_simps Let_def split: option.splits)
  with end_segment_fatal [OF seg] show ?thesis by (simp add: run_from_def case_prod_beta)
qed

lemma swapIn_child_outcome:
  assumes wf: "wf_sys s" and E: "good_env E" and p: "fs_fibers s p = Some f" "t_threadFiber s \<noteq> Some p"
    and r: "0 < f_refs f"
  shows "passes (swapIn E p s) \<longleftrightarrow> resumable f \<and> segment_ok (snd (run_segment (next_prog f)))"
proof -
  obtain out e where seg: "run_segment (next_prog f) = (out, e)" by fastforce
  show ?thesis
  proof (cases "resumable f \<and> segment_ok e")
    case True
    then show ?thesis using swapIn_spec [OF wf E p r _ seg] wf_passes by (auto simp: seg)
  next
    case False
    then show ?thesis
      using swapIn_ended [OF wf E p] swapIn_fatal [OF wf E p]
      by (cases "resumable f") (auto simp: seg passes_def)
  qed
qed

lemma yield_in_main_spec:
  assumes wf: "wf_sys s" and E: "good_env E" and st: "st = HOLD \<or> st = READY"
  shows "\<exists>s' m f. yield_in_main E st s = Inr s' \<and> wf_sys s' \<and> t_threadFiber s' = Some m \<and>
    fs_fibers s' m = Some f \<and> f_state f = st"
proof -
  from GetThis_spec [OF wf E] obtain m s1 where g: "GetThis E s = Inr (m, s1)" "wf_sys s1"
    "t_fiber s1 = Some m" "t_threadFiber s1 = Some m" by blast
  obtain f where f: "fs_fibers s1 m = Some f" "wf_main f" by (rule wf_sys_main [OF g(2,4)])
  let ?s2 = "upd_fiber m (\<lambda>f. f\<lparr>f_state := st\<rparr>) s1"
  have "yield_in_main E st s = Inr ?s2"
    using g E by (simp add: yield_in_main_def swapOut_def SetThis_def upd_fiber_simps good_env_def upd_fiber_def)
  moreover have "wf_main (f\<lparr>f_state := st\<rparr>)" using f(2) st by (auto simp: wf_main_def)
  then have "wf_sys ?s2" using g(4) by (intro wf_upd_fiber [OF g(2) f(1)]) simp_all
  ultimately show ?thesis using f g(4) by (intro exI [of _ ?s2] exI [of _ m]) (simp add: upd_fiber_simps)
qed

text \<open>The end of the thread destroys the main fiber unless another pointer to it is left.\<close>

lemma thread_exit_outcome:
  assumes wf: "wf_sys s" and m: "t_threadFiber s = Some m" "fs_fibers s m = Some f"
  shows "passes (thread_exit E s) \<longleftrightarrow> f_state f = EXEC \<or> 1 < f_refs f"
    and "\<not> (f_state f = EXEC \<or> 1 < f_refs f) \<Longrightarrow> \<not> NDEBUG E \<Longrightarrow>
      thread_exit E s = Inl (AssertFail ''m_state == State::EXEC'')"
proof -
  have "wf_main f" "fs_asserts s = []" using wf m by (auto simp: wf_sys_def wf_store_def)
  with m show "passes (thread_exit E s) \<longleftrightarrow> f_state f = EXEC \<or> 1 < f_refs f"
    "\<not> (f_state f = EXEC \<or> 1 < f_refs f) \<Longrightarrow> \<not> NDEBUG E \<Longrightarrow>
      thread_exit E s = Inl (AssertFail ''m_state == State::EXEC'')"
    by (auto simp: passes_def thread_exit_def ptr_release_def Fiber_dtor_def SYLAR_ASSERT_def SetThis_def wf_main_def
        upd_fiber_simps log_fiber_def Let_def)
qed

subsection \<open>What no call changes\<close>

text \<open>The record of failed assertions only grows, and stays as it is where a failure ends the program.\<close>

definition asserts_grow :: "fiber_env \<Rightarrow> fiber_sys \<Rightarrow> fiber_sys \<Rightarrow> bool" where
  "asserts_grow E s t \<longleftrightarrow> (\<exists>more. fs_asserts t = fs_asserts s @ more \<and> (\<not> NDEBUG E \<longrightarrow> more = []))"

lemma asserts_grow_same: "fs_asserts t = fs_asserts s \<Longrightarrow> asserts_grow E s t"
  by (simp add: asserts_grow_def)

lemma asserts_grow_trans: "asserts_grow E s t \<Longrightarrow> asserts_grow E t u \<Longrightarrow> asserts_grow E s u"
  by (auto simp: asserts_grow_def)

text \<open>Every fiber but one is as it was, and no address is handed out.\<close>

definition touches :: "fiber_env \<Rightarrow> nat \<Rightarrow> fiber_sys \<Rightarrow> fiber_sys \<Rightarrow> bool" where
  "touches E p s t \<longleftrightarrow> (\<forall>q. q \<noteq> p \<longrightarrow> fs_fibers t q = fs_fibers s q) \<and> fs_next t = fs_next s \<and> asserts_grow E s t"

text \<open>Old fibers are as they were, and addresses are handed out upwards.\<close>

definition extends :: "fiber_env \<Rightarrow> fiber_sys \<Rightarrow> fiber_sys \<Rightarrow> bool" where
  "extends E s t \<longleftrightarrow> (\<forall>q < fs_next s. fs_fibers t q = fs_fibers s q) \<and> fs_next s \<le> fs_next t \<and> asserts_grow E s t"

lemma extends_refl: "extends E s s"
  by (simp add: extends_def asserts_grow_same)

lemma extends_trans: "extends E s t \<Longrightarrow> extends E t u \<Longrightarrow> extends E s u"
  by (auto simp: extends_def intro: asserts_grow_trans)

lemmas touch_simps = touches_def asserts_grow_def SYLAR_ASSERT_def SetThis_def log_fiber_def upd_fiber_simps Let_def

lemma GetThis_extends: "GetThis E s = Inr (p, t) \<Longrightarrow> extends E s t"
  by (auto simp: GetThis_def Fiber_new_main_def extends_def asserts_grow_def SYLAR_ASSERT_def SetThis_def
      log_fiber_def Let_def split: option.splits if_splits)

lemma Fiber_new_extends:
  assumes "Fiber_new E cb sz s = Inr (p, t)"
  shows "extends E s t"
proof -
  let ?s0 = "s\<lparr>s_fiber_id := s_fiber_id s + 1\<rparr>"
  let ?main = "if t_threadFiber ?s0 = None then bind_res (GetThis E ?s0) (\<lambda>(_, s'). Inr s') else Inr ?s0"
  obtain s1 where s1: "?main = Inr s1"
    using assms by (cases ?main) (simp_all add: Fiber_new_def Let_def)
  have "extends E ?s0 s1" using s1 GetThis_extends [of E ?s0]
    by (auto simp: bind_res_Inr_conv extends_refl split: if_splits)
  moreover have "extends E s1 t" using assms unfolding Fiber_new_def Let_def s1
    by (auto simp: extends_def asserts_grow_def SYLAR_ASSERT_def log_fiber_def split: if_splits)
  moreover have "extends E s ?s0" by (simp add: extends_def asserts_grow_def)
  ultimately show ?thesis by (blast intro: extends_trans)
qed

lemma ptr_release_touches: "ptr_release E p s = Inr t \<Longrightarrow> touches E p s t"
  by (auto simp: ptr_release_def Fiber_dtor_def touch_simps split: option.splits if_splits)

lemma Fiber_reset_touches: "Fiber_reset E p cb s = Inr t \<Longrightarrow> touches E p s t"
  by (auto simp: Fiber_reset_def touch_simps split: option.splits if_splits)

lemma run_from_touches: "run_from p prog s = Inr t \<Longrightarrow> touches E p s t"
  by (auto simp: run_from_def end_segment_def drop_cur_def swapOut_def touch_simps
      split: prod.splits segment_end.splits exn.splits option.splits if_splits)

lemma touches_trans: "touches E p s t \<Longrightarrow> touches E p t u \<Longrightarrow> touches E p s u"
  by (auto simp: touches_def intro: asserts_grow_trans)

lemma SYLAR_ASSERT_touches: "SYLAR_ASSERT E x text s = Inr t \<Longrightarrow> touches E p s t"
  by (auto simp: touch_simps split: if_splits)

lemma swapIn_touches:
  assumes "swapIn E p s = Inr t"
  shows "touches E p s t"
proof -
  from assms obtain f s1 where f: "fs_fibers s p = Some f"
    and s1: "SYLAR_ASSERT E (f_state f \<noteq> EXEC) ''m_state != State::EXEC'' (SetThis (Some p) s) = Inr s1"
    by (auto simp: swapIn_def bind_res_Inr_conv split: option.splits)
  let ?s2 = "upd_fiber p (\<lambda>f. f\<lparr>f_state := EXEC\<rparr>) s1"
  have "touches E p s (SetThis (Some p) s)" "touches E p s1 ?s2" by (simp_all add: touch_simps)
  then have s2: "touches E p s ?s2" using SYLAR_ASSERT_touches [OF s1] by (blast intro: touches_trans)
  have "t = ?s2 \<or> SYLAR_ASSERT E False ''swapcontext'' ?s2 = Inr t \<or> (\<exists>prog. run_from p prog ?s2 = Inr t)"
    using assms f s1 by (auto simp: swapIn_def MainFunc_def Let_def split: option.splits if_splits ucontext.splits)
  moreover have "touches E p ?s2 ?s2" by (simp add: touch_simps)
  ultimately have "touches E p ?s2 t" using SYLAR_ASSERT_touches run_from_touches by metis
  with s2 show ?thesis by (rule touches_trans)
qed

end
