(* ===== verification/Fiber_Claims.thy ===== *)
theory Fiber_Claims
  imports Fiber_Props
begin

text \<open>
  The histories of the fibers of a thread and the properties of \<open>Fiber\<close>.
\<close>

subsection \<open>Histories\<close>

text \<open>
  The calls of the main fiber that return, whatever the state of the fiber they are made on: a
  call goes through a pointer the program holds, and \<open>reset\<close>, \<open>swapIn\<close> and the yields have no
  other condition than that the model's function returns. The program can release its own pointers
  only, not the one in \<open>t_threadFiber\<close>. A 64-bit id counter does not wrap around.
\<close>

inductive fiber_step :: "fiber_env \<Rightarrow> fiber_sys \<Rightarrow> fiber_sys \<Rightarrow> bool" for E :: fiber_env where
  step_new: "s_fiber_id s \<noteq> - 1 \<Longrightarrow> Fiber_new E cb sz s = Inr (p, s') \<Longrightarrow> fiber_step E s s'"
| step_this: "GetThis E s = Inr (p, s') \<Longrightarrow> fiber_step E s s'"
| step_copy: "fs_fibers s p = Some f \<Longrightarrow> 0 < f_refs f \<Longrightarrow> fiber_step E s (ptr_copy p s)"
| step_release: "fs_fibers s p = Some f \<Longrightarrow> (if t_threadFiber s = Some p then 1 else 0) < f_refs f \<Longrightarrow>
    ptr_release E p s = Inr s' \<Longrightarrow> fiber_step E s s'"
| step_reset: "fs_fibers s p = Some f \<Longrightarrow> 0 < f_refs f \<Longrightarrow> Fiber_reset E p cb s = Inr s' \<Longrightarrow> fiber_step E s s'"
| step_swapIn: "fs_fibers s p = Some f \<Longrightarrow> 0 < f_refs f \<Longrightarrow> swapIn E p s = Inr s' \<Longrightarrow> fiber_step E s s'"
| step_yield: "st = HOLD \<or> st = READY \<Longrightarrow> yield_in_main E st s = Inr s' \<Longrightarrow> fiber_step E s s'"

lemma swapIn_passes_wf:
  assumes wf: "wf_sys s" and E: "good_env E" and f: "fs_fibers s p = Some f" "0 < f_refs f"
    and t: "swapIn E p s = Inr t" "fs_asserts t = []"
  shows "wf_sys t"
proof -
  have ok: "passes (swapIn E p s)" using t by (simp add: passes_def)
  show ?thesis
  proof (cases "t_threadFiber s = Some p")
    case True
    with ok swapIn_main_outcome(1) [OF wf f(1), of E] swapIn_main_spec [OF wf f(1), of E] t(1) show ?thesis by auto
  next
    case False
    obtain out e where seg: "run_segment (next_prog f) = (out, e)" by fastforce
    with ok swapIn_child_outcome [OF wf E f(1) False f(2)] swapIn_spec [OF wf E f(1) False f(2) _ seg] t(1)
    show ?thesis by auto
  qed
qed

lemma fiber_step_wf:
  assumes E: "good_env E" and wf: "wf_sys s" and step: "fiber_step E s t" and ok: "fs_asserts t = []"
  shows "wf_sys t"
  using step
proof cases
  case (step_new cb sz p)
  then show ?thesis using Fiber_new_spec [OF wf E step_new(1), of cb sz] by auto
next
  case (step_this p)
  then show ?thesis using GetThis_spec [OF wf E] by auto
next
  case (step_copy p f)
  then show ?thesis using wf_ptr_copy [OF wf] by simp
next
  case (step_release p f)
  then show ?thesis
    using ptr_release_spec [OF wf step_release(1), of E] release_main_spec [OF wf step_release(1), of E]
    by (cases "t_threadFiber s = Some p") auto
next
  case (step_reset p f cb)
  then have "passes (Fiber_reset E p cb s)" using ok by (simp add: passes_def)
  then show ?thesis
    using reset_outcome(1) [OF wf E step_reset(1), of cb] reset_spec [OF wf E step_reset(1), of cb] step_reset(3) by auto
next
  case (step_swapIn p f)
  then show ?thesis using swapIn_passes_wf [OF wf E step_swapIn(1,2)] ok by blast
next
  case (step_yield st)
  then show ?thesis using yield_in_main_spec [OF wf E step_yield(1)] by auto
qed

text \<open>The record of failed assertions only grows, so a history without one has been without one throughout.\<close>

lemma yield_in_main_asserts:
  assumes "yield_in_main E st s = Inr t"
  shows "asserts_grow E s t"
proof -
  from assms obtain p s1 where g: "GetThis E s = Inr (p, s1)"
    and t: "SYLAR_ASSERT E (ctx_ok E) ''swapcontext'' (swapOut (upd_fiber p (\<lambda>f. f\<lparr>f_state := st\<rparr>) s1)) = Inr t"
    by (auto simp: yield_in_main_def bind_res_Inr_conv Let_def)
  have "asserts_grow E s1 t" using t
    by (auto simp: asserts_grow_def SYLAR_ASSERT_def swapOut_def SetThis_def upd_fiber_simps split: if_splits)
  with GetThis_extends [OF g] show ?thesis by (auto simp: extends_def intro: asserts_grow_trans)
qed

lemma fiber_step_asserts: "fiber_step E s t \<Longrightarrow> asserts_grow E s t"
proof (induction rule: fiber_step.induct)
  case (step_copy s p f)
  show ?case by (simp add: ptr_copy_def upd_fiber_simps asserts_grow_same)
qed (auto simp: extends_def touches_def
      dest: Fiber_new_extends GetThis_extends ptr_release_touches Fiber_reset_touches swapIn_touches yield_in_main_asserts)

interpretation fibers: invariant_system "\<lambda>s. s = no_fibers" "fiber_step E"
    "\<lambda>s. (\<not> NDEBUG E \<longrightarrow> fs_asserts s = []) \<and> (good_env E \<longrightarrow> fs_asserts s = [] \<longrightarrow> wf_sys s)" for E
proof unfold_locales
  fix s t assume inv: "(\<not> NDEBUG E \<longrightarrow> fs_asserts s = []) \<and> (good_env E \<longrightarrow> fs_asserts s = [] \<longrightarrow> wf_sys s)"
    and step: "fiber_step E s t"
  show "(\<not> NDEBUG E \<longrightarrow> fs_asserts t = []) \<and> (good_env E \<longrightarrow> fs_asserts t = [] \<longrightarrow> wf_sys t)"
  proof (intro conjI impI)
    show "fs_asserts t = []" if "\<not> NDEBUG E"
      using that inv fiber_step_asserts [OF step] by (simp add: asserts_grow_def)
    assume E: "good_env E" and t: "fs_asserts t = []"
    with fiber_step_asserts [OF step] have "fs_asserts s = []" by (simp add: asserts_grow_def)
    with inv E have "wf_sys s" by blast
    with E show "wf_sys t" using step t by (rule fiber_step_wf)
  qed
qed (use wf_no_fibers in \<open>simp add: wf_sys_def\<close>)

text \<open>
  A fiber without owners: no call can reach it any more, in any build, whatever assertions fail.
  What it takes is that the thread stays in its main fiber between the calls.
\<close>

definition anchored :: "nat \<Rightarrow> fiber_sys \<Rightarrow> bool" where
  "anchored m s \<longleftrightarrow> t_fiber s = Some m \<and> t_threadFiber s = Some m \<and> m < fs_next s \<and>
     (\<exists>g. fs_fibers s m = Some g \<and> 0 < f_refs g)"

lemma run_from_back:
  "run_from p prog s = Inr t \<Longrightarrow> t_fiber t = t_threadFiber s \<and> t_threadFiber t = t_threadFiber s"
  by (auto simp: run_from_def end_segment_def drop_cur_def swapOut_def SetThis_def log_fiber_def upd_fiber_simps
      split: prod.splits segment_end.splits exn.splits option.splits if_splits)

lemma swapIn_anchored:
  assumes m: "anchored m s" and E: "good_env E" and t: "swapIn E p s = Inr t"
  shows "anchored m t"
proof (cases "p = m")
  case True
  with m t show ?thesis
    by (auto simp: anchored_def swapIn_def SYLAR_ASSERT_def SetThis_def upd_fiber_simps Let_def split: if_splits)
next
  case False
  with m have "t_threadFiber s = Some m" "m \<noteq> p" by (simp_all add: anchored_def)
  with E t have "t_fiber t = Some m \<and> t_threadFiber t = Some m"
    by (auto simp: swapIn_def MainFunc_def good_env_def SYLAR_ASSERT_def SetThis_def upd_fiber_simps Let_def
        split: option.splits if_splits ucontext.splits dest!: run_from_back)
  with swapIn_touches [OF t] m False show ?thesis by (auto simp: anchored_def touches_def)
qed

lemma release_anchored:
  assumes m: "anchored m s" and f: "fs_fibers s p = Some f" "(if t_threadFiber s = Some p then 1 else 0) < f_refs f"
    and t: "ptr_release E p s = Inr t"
  shows "anchored m t"
proof (cases "p = m")
  case True
  with m f t show ?thesis by (auto simp: anchored_def ptr_release_def upd_fiber_simps Let_def split: if_splits)
next
  case False
  with m t have "t_fiber t = Some m \<and> t_threadFiber t = Some m"
    by (auto simp: anchored_def ptr_release_def Fiber_dtor_def SYLAR_ASSERT_def SetThis_def upd_fiber_simps log_fiber_def
        Let_def split: option.splits if_splits)
  with ptr_release_touches [OF t] m False show ?thesis by (auto simp: anchored_def touches_def)
qed

lemma anchored_this: "anchored m s \<Longrightarrow> GetThis E s = Inr (m, s)"
  by (simp add: anchored_def GetThis_def)

lemma new_anchored:
  assumes m: "anchored m s" and t: "Fiber_new E cb sz s = Inr (p, t)"
  shows "anchored m t"
proof -
  have "t_fiber t = Some m \<and> t_threadFiber t = Some m"
    using m t by (auto simp: anchored_def Fiber_new_def SYLAR_ASSERT_def log_fiber_def Let_def split: if_splits)
  with Fiber_new_extends [OF t] m show ?thesis by (auto simp: anchored_def extends_def)
qed

lemma yield_anchored:
  assumes m: "anchored m s" and t: "yield_in_main E st s = Inr t"
  shows "anchored m t \<and> touches E m s t"
  using m t anchored_this [OF m, of E]
  by (auto simp: anchored_def yield_in_main_def swapOut_def touches_def asserts_grow_def SYLAR_ASSERT_def SetThis_def
      upd_fiber_simps Let_def split: if_splits)

lemma reset_anchored: "anchored m s \<Longrightarrow> Fiber_reset E p cb s = Inr t \<Longrightarrow> anchored m t"
  by (auto simp: anchored_def Fiber_reset_def SYLAR_ASSERT_def upd_fiber_simps split: option.splits if_splits)

text \<open>The fiber at \<open>p\<close>, without owners.\<close>

definition unowned :: "nat \<Rightarrow> fiber \<Rightarrow> fiber_sys \<Rightarrow> bool" where
  "unowned p f s \<longleftrightarrow> fs_fibers s p = Some f \<and> f_refs f = 0 \<and> p < fs_next s"

lemma unowned_touches: "unowned p f s \<Longrightarrow> touches E q s t \<Longrightarrow> q \<noteq> p \<Longrightarrow> unowned p f t"
  by (auto simp: unowned_def touches_def)

lemma unowned_extends: "unowned p f s \<Longrightarrow> extends E s t \<Longrightarrow> unowned p f t"
  by (auto simp: unowned_def extends_def)

lemma unowned_step:
  assumes E: "good_env E" and m: "anchored m s" and f: "unowned p f s" and step: "fiber_step E s t"
  shows "anchored m t \<and> unowned p f t"
  using step
proof cases
  case (step_new cb sz q)
  then show ?thesis using new_anchored [OF m] unowned_extends [OF f Fiber_new_extends] by blast
next
  case (step_this q)
  then show ?thesis using anchored_this [OF m, of E] m f by simp
next
  case (step_copy q g)
  with m f show ?thesis by (auto simp: anchored_def unowned_def ptr_copy_def upd_fiber_simps)
next
  case (step_release q g)
  with f have "q \<noteq> p" by (auto simp: unowned_def)
  with step_release show ?thesis
    using release_anchored [OF m] unowned_touches [OF f ptr_release_touches] by blast
next
  case (step_reset q g cb)
  with f have "q \<noteq> p" by (auto simp: unowned_def)
  with step_reset show ?thesis using reset_anchored [OF m] unowned_touches [OF f Fiber_reset_touches] by blast
next
  case (step_swapIn q g)
  with f have "q \<noteq> p" by (auto simp: unowned_def)
  with step_swapIn show ?thesis using swapIn_anchored [OF m E] unowned_touches [OF f swapIn_touches] by blast
next
  case (step_yield st)
  from m f have "m \<noteq> p" by (auto simp: anchored_def unowned_def)
  with yield_anchored [OF m step_yield(2)] unowned_touches [OF f] show ?thesis by blast
qed

interpretation lost: invariant_system "\<lambda>s. anchored m s \<and> unowned p f s" "fiber_step E"
    "\<lambda>s. good_env E \<longrightarrow> anchored m s \<and> unowned p f s" for m p f E
  by unfold_locales (auto dest: unowned_step)

lemma wf_anchored:
  assumes wf: "wf_sys s" and p: "fs_fibers s p = Some f"
  obtains m where "anchored m s"
proof -
  obtain m where m: "t_threadFiber s = Some m" using wf_sys_thread [OF wf p] by auto
  obtain g where g: "fs_fibers s m = Some g" "wf_main g" by (rule wf_sys_main [OF wf m])
  then have "m < fs_next s" using wf by (auto simp: wf_sys_def wf_store_def)
  with m g wf have "anchored m s" by (simp add: anchored_def wf_sys_def wf_thread_def wf_main_def)
  with that show thesis .
qed

lemma unowned_forever:
  assumes steps: "(fiber_step E)\<^sup>*\<^sup>* s t" and E: "good_env E" and wf: "wf_sys s"
    and f: "fs_fibers s p = Some f" "f_refs f = 0"
  shows "fs_fibers t p = Some f"
proof -
  obtain m where "anchored m s" by (rule wf_anchored [OF wf f(1)])
  moreover have "unowned p f s" using wf f by (auto simp: unowned_def wf_sys_def wf_store_def)
  ultimately have "anchored m t \<and> unowned p f t" using lost.reachable_inv [OF _ steps] E by blast
  then show ?thesis by (simp add: unowned_def)
qed

subsection \<open>Whole runs\<close>

fun yields :: "fiber_prog \<Rightarrow> nat" where
  "yields Return = 0"
| "yields (Throw e) = 0"
| "yields (Out text p) = yields p"
| "yields (YieldToHold p) = Suc (yields p)"
| "yields (YieldToReady p) = Suc (yields p)"

fun prog_out :: "fiber_prog \<Rightarrow> string list" where
  "prog_out Return = []"
| "prog_out (Throw e) = []"
| "prog_out (Out text p) = text # prog_out p"
| "prog_out (YieldToHold p) = prog_out p"
| "prog_out (YieldToReady p) = prog_out p"

fun prog_end :: "fiber_prog \<Rightarrow> segment_end" where
  "prog_end Return = Finished"
| "prog_end (Throw e) = Threw e"
| "prog_end (Out text p) = prog_end p"
| "prog_end (YieldToHold p) = prog_end p"
| "prog_end (YieldToReady p) = prog_end p"

lemma run_segment_last: "yields p = 0 \<Longrightarrow> run_segment p = (prog_out p, prog_end p)"
  by (induction p) simp_all

lemma run_segment_first:
  "yields p = Suc n \<Longrightarrow> \<exists>out st rest. run_segment p = (out, Yielded st rest) \<and> yields rest = n \<and>
     prog_out p = out @ prog_out rest \<and> prog_end p = prog_end rest"
  by (induction p) auto

fun swapIns :: "fiber_env \<Rightarrow> nat \<Rightarrow> nat \<Rightarrow> fiber_sys \<Rightarrow> fiber_sys res" where
  "swapIns E p 0 s = Inr s"
| "swapIns E p (Suc n) s = bind_res (swapIn E p s) (swapIns E p n)"

text \<open>The state a fiber ends in.\<close>

definition ended :: "segment_end \<Rightarrow> fiber_state" where
  "ended e = (case e of Finished \<Rightarrow> TERM_STATE | _ \<Rightarrow> EXCEP)"

lemma swapIns_run:
  assumes "wf_sys s" and "good_env E" and "fs_fibers s p = Some f" and "t_threadFiber s \<noteq> Some p"
    and "0 < f_refs f" and "resumable f" and "segment_ok (prog_end (next_prog f))" and "yields (next_prog f) = n"
  shows "\<exists>s' f'. swapIns E p (Suc n) s = Inr s' \<and> wf_sys s' \<and> fs_fibers s' = (fs_fibers s)(p \<mapsto> f') \<and>
    f_state f' = ended (prog_end (next_prog f)) \<and> f_self f' = 0 \<and> f_refs f' = f_refs f \<and>
    fs_out s' = fs_out s @ prog_out (next_prog f)"
  using assms
proof (induction n arbitrary: s f)
  case 0
  then have seg: "run_segment (next_prog f) = (prog_out (next_prog f), prog_end (next_prog f))"
    by (simp add: run_segment_last)
  from swapIn_spec [OF 0(1-6) seg 0(7)] obtain s' where s': "swapIn E p s = Inr s'" "wf_sys s'"
    "fs_out s' = fs_out s @ prog_out (next_prog f)"
    "fs_fibers s' = (fs_fibers s)(p \<mapsto> after_segment (prog_end (next_prog f)) f)" by blast
  have "prog_end q \<noteq> Yielded st r" for q st r by (induction q) simp_all
  then have "f_state (after_segment (prog_end (next_prog f)) f) = ended (prog_end (next_prog f)) \<and>
      f_self (after_segment (prog_end (next_prog f)) f) = 0 \<and> f_refs (after_segment (prog_end (next_prog f)) f) = f_refs f"
    by (cases "prog_end (next_prog f)") (auto simp: after_segment_def ended_def)
  with s' show ?case
    by (intro exI [of _ s'] exI [of _ "after_segment (prog_end (next_prog f)) f"]) simp
next
  case (Suc n)
  from run_segment_first [OF Suc.prems(8)] obtain out st rest where
    seg: "run_segment (next_prog f) = (out, Yielded st rest)" and rest: "yields rest = n"
      "prog_out (next_prog f) = out @ prog_out rest" "prog_end (next_prog f) = prog_end rest" by blast
  have st: "st = HOLD \<or> st = READY" using seg by (rule run_segment_yield)
  have ok: "segment_ok (Yielded st rest)" by (simp add: segment_ok_def)
  let ?f1 = "after_segment (Yielded st rest) f"
  from swapIn_spec [OF Suc.prems(1-6) seg ok] obtain s1 where s1: "swapIn E p s = Inr s1" "wf_sys s1"
    "t_threadFiber s1 = t_threadFiber s" "fs_out s1 = fs_out s @ out" "fs_fibers s1 = (fs_fibers s)(p \<mapsto> ?f1)" by blast
  have f1: "next_prog ?f1 = rest" "0 < f_refs ?f1" "resumable ?f1" "f_refs ?f1 = f_refs f"
    using st Suc.prems(5) by (auto simp: next_prog_def after_segment_def resumable_def)
  have p1: "fs_fibers s1 p = Some ?f1" "t_threadFiber s1 \<noteq> Some p" using s1(3,5) Suc.prems(4) by simp_all
  have "segment_ok (prog_end (next_prog ?f1))" "yields (next_prog ?f1) = n"
    using f1(1) rest Suc.prems(7) by simp_all
  from Suc.IH [OF s1(2) Suc.prems(2) p1 f1(2,3) this] obtain s' f' where
    "swapIns E p (Suc n) s1 = Inr s'" "wf_sys s'" "fs_fibers s' = (fs_fibers s1)(p \<mapsto> f')"
    "f_state f' = ended (prog_end rest)" "f_self f' = 0" "f_refs f' = f_refs f" "fs_out s' = fs_out s1 @ prog_out rest"
    unfolding f1(1,4) by blast
  with s1 rest show ?case
    by (intro exI [of _ s'] exI [of _ f']) simp
qed

subsection \<open>Concrete data for the witnesses\<close>

definition demo_env :: fiber_env where
  "demo_env = \<lparr>NDEBUG = False, g_fiber_stack_size = 1024, malloc_ok = (\<lambda>_. True), ctx_ok = True\<rparr>"

definition demo_prog :: fiber_prog where
  "demo_prog = Out ''a'' (YieldToHold (Out ''b'' (YieldToReady (Out ''c'' Return))))"

definition demo_fibers :: fiber_sys where
  "demo_fibers = (case Fiber_new demo_env (Some demo_prog) 0 no_fibers of Inr (_, s) \<Rightarrow> s | Inl _ \<Rightarrow> no_fibers)"

definition demo_fiber :: fiber where
  "demo_fiber = \<lparr>f_id = 1, f_stacksize = 1024, f_state = INIT, f_ctx = AtMainFunc, f_stack = True,
     f_cb = Some demo_prog, f_refs = 1, f_self = 0\<rparr>"

lemma good_demo_env: "good_env demo_env"
  by (simp add: good_env_def demo_env_def)

lemma demo_fibers_new:
  "Fiber_new demo_env (Some demo_prog) 0 no_fibers = Inr (1, demo_fibers)"
  "fs_fibers demo_fibers 1 = Some demo_fiber" "t_threadFiber demo_fibers = Some 0"
  by (simp_all add: demo_fibers_def demo_fiber_def Fiber_new_def GetThis_def Fiber_new_main_def demo_env_def no_fibers_def
      SetThis_def log_fiber_def Let_def)

lemma wf_demo_fibers: "wf_sys demo_fibers"
  using Fiber_new_spec [OF wf_no_fibers good_demo_env, of "Some demo_prog" 0] demo_fibers_new(1)
  by (simp add: no_fibers_def)

subsection \<open>Properties\<close>

text \<open>C7. After every history of calls of the main fiber in which no assertion has failed, in a build with
  \<open>assert\<close> or without, the thread is in its main fiber, whose id is 0, \<open>TotalFibers\<close> is the number
  of fibers alive, no child is left in state \<open>EXEC\<close> and ids are never shared. Which of the next calls
  return without a failed assertion is known: constructing a fiber, \<open>GetThis\<close>, a yield outside any
  child and releasing a pointer always do; \<open>reset\<close> exactly on a child that is not suspended; \<open>swapIn\<close>
  on the main fiber exactly when a yield has taken it out of \<open>EXEC\<close>, and on a child exactly when the
  child has not ended and its callback ends the stretch with no error other than an exception.
  \<open>swapIn\<close> of a child that has ended is not rejected and enters a context that has returned. At
  the end of the thread the main fiber is destroyed without a failed assertion exactly when it is in
  state \<open>EXEC\<close> or some other pointer keeps it alive, so a program whose main fiber yields fails there.
  Where \<open>assert\<close> is compiled in, the calls that do not return are failed assertions. Callbacks here
  print, yield, return or throw.\<close>

theorem reachable_fibers_sound:
  assumes "good_env E" and "(fiber_step E)\<^sup>*\<^sup>* no_fibers s" and "NDEBUG E \<longrightarrow> fs_asserts s = []"
  shows "fs_asserts s = [] \<and> t_fiber s = t_threadFiber s \<and>
    TotalFibers s = of_nat (card (dom (fs_fibers s))) \<and> GetFiberId s = Inr 0 \<and>
    (\<forall>p q f g. fs_fibers s p = Some f \<longrightarrow> fs_fibers s q = Some g \<longrightarrow> f_id f = f_id g \<longrightarrow> p = q) \<and>
    (\<exists>p s'. GetThis E s = Inr (p, s') \<and> fs_asserts s' = []) \<and>
    (s_fiber_id s \<noteq> - 1 \<longrightarrow> (\<exists>p s'. Fiber_new E cb sz s = Inr (p, s') \<and> fs_asserts s' = [])) \<and>
    (\<forall>st. st = HOLD \<or> st = READY \<longrightarrow> (\<exists>s' m f. yield_in_main E st s = Inr s' \<and> fs_asserts s' = [] \<and>
       t_threadFiber s' = Some m \<and> fs_fibers s' m = Some f \<and> f_state f = st)) \<and>
    (\<forall>p f. fs_fibers s p = Some f \<and> t_threadFiber s \<noteq> Some p \<longrightarrow> f_state f \<noteq> EXEC \<and>
       (0 < f_refs f \<longrightarrow> passes (ptr_release E p s)) \<and>
       (passes (Fiber_reset E p cb s) \<longleftrightarrow> may_restart (f_state f)) \<and>
       (\<not> may_restart (f_state f) \<and> \<not> NDEBUG E \<longrightarrow> (\<exists>x. Fiber_reset E p cb s = Inl (AssertFail x))) \<and>
       (0 < f_refs f \<longrightarrow>
          passes (swapIn E p s) = (resumable f \<and> segment_ok (snd (run_segment (next_prog f))))) \<and>
       (\<not> resumable f \<longrightarrow> swapIn E p s = Inl (UndefinedBehaviour ''context that has returned''))) \<and>
    (\<forall>m f. fs_fibers s m = Some f \<and> t_threadFiber s = Some m \<longrightarrow>
       (1 < f_refs f \<longrightarrow> passes (ptr_release E m s)) \<and>
       \<not> passes (Fiber_reset E m cb s) \<and>
       (\<not> NDEBUG E \<longrightarrow> (\<exists>x. Fiber_reset E m cb s = Inl (AssertFail x))) \<and>
       (passes (swapIn E m s) \<longleftrightarrow> f_state f \<noteq> EXEC) \<and>
       (f_state f = EXEC \<and> \<not> NDEBUG E \<longrightarrow> swapIn E m s = Inl (AssertFail ''m_state != State::EXEC'')) \<and>
       (passes (thread_exit E s) \<longleftrightarrow> f_state f = EXEC \<or> 1 < f_refs f) \<and>
       (f_state f \<noteq> EXEC \<and> f_refs f = 1 \<and> \<not> NDEBUG E \<longrightarrow>
          thread_exit E s = Inl (AssertFail ''m_state == State::EXEC'')))"
proof -
  have asserts: "fs_asserts s = []" and wf: "wf_sys s"
    using fibers.reachable_inv [OF refl assms(2)] assms(1,3) by blast+
  note E = assms(1)
  have child: "f_state f \<noteq> EXEC \<and>
       (0 < f_refs f \<longrightarrow> passes (ptr_release E p s)) \<and>
       (passes (Fiber_reset E p cb s) \<longleftrightarrow> may_restart (f_state f)) \<and>
       (\<not> may_restart (f_state f) \<and> \<not> NDEBUG E \<longrightarrow> (\<exists>x. Fiber_reset E p cb s = Inl (AssertFail x))) \<and>
       (0 < f_refs f \<longrightarrow>
          passes (swapIn E p s) = (resumable f \<and> segment_ok (snd (run_segment (next_prog f))))) \<and>
       (\<not> resumable f \<longrightarrow> swapIn E p s = Inl (UndefinedBehaviour ''context that has returned''))"
    if p: "fs_fibers s p = Some f" "t_threadFiber s \<noteq> Some p" for p f
  proof -
    have "f_state f \<noteq> EXEC" using wf_sys_child [OF wf p] by (auto simp: wf_child_def)
    moreover have "0 < f_refs f \<longrightarrow> passes (ptr_release E p s)"
      using ptr_release_spec [OF wf p, of E] wf_passes by blast
    ultimately show ?thesis
      using reset_outcome [OF wf E p(1), of cb] swapIn_child_outcome [OF wf E p] swapIn_ended [OF wf E p] p(2)
      by blast
  qed
  have main: "(1 < f_refs f \<longrightarrow> passes (ptr_release E m s)) \<and>
       \<not> passes (Fiber_reset E m cb s) \<and>
       (\<not> NDEBUG E \<longrightarrow> (\<exists>x. Fiber_reset E m cb s = Inl (AssertFail x))) \<and>
       (passes (swapIn E m s) \<longleftrightarrow> f_state f \<noteq> EXEC) \<and>
       (f_state f = EXEC \<and> \<not> NDEBUG E \<longrightarrow> swapIn E m s = Inl (AssertFail ''m_state != State::EXEC'')) \<and>
       (passes (thread_exit E s) \<longleftrightarrow> f_state f = EXEC \<or> 1 < f_refs f) \<and>
       (f_state f \<noteq> EXEC \<and> f_refs f = 1 \<and> \<not> NDEBUG E \<longrightarrow>
          thread_exit E s = Inl (AssertFail ''m_state == State::EXEC''))"
    if m: "fs_fibers s m = Some f" "t_threadFiber s = Some m" for m f
  proof -
    have "1 < f_refs f \<longrightarrow> passes (ptr_release E m s)"
      using release_main_spec [OF wf m, of E] wf_passes by blast
    then show ?thesis
      using reset_outcome [OF wf E m(1), of cb] swapIn_main_outcome [OF wf m, of E]
        thread_exit_outcome [OF wf m(2,1), of E] m(2) by auto
  qed
  have this_fiber: "\<exists>p s'. GetThis E s = Inr (p, s') \<and> fs_asserts s' = []"
    using GetThis_spec [OF wf E] by (auto simp: wf_sys_def)
  have new: "s_fiber_id s \<noteq> - 1 \<longrightarrow> (\<exists>p s'. Fiber_new E cb sz s = Inr (p, s') \<and> fs_asserts s' = [])"
    using Fiber_new_spec [OF wf E, of cb sz] unfolding wf_sys_def by blast
  have yield: "\<forall>st. st = HOLD \<or> st = READY \<longrightarrow> (\<exists>s' m f. yield_in_main E st s = Inr s' \<and> fs_asserts s' = [] \<and>
       t_threadFiber s' = Some m \<and> fs_fibers s' m = Some f \<and> f_state f = st)"
    using yield_in_main_spec [OF wf E] unfolding wf_sys_def by blast
  have ids: "\<forall>p q f g. fs_fibers s p = Some f \<longrightarrow> fs_fibers s q = Some g \<longrightarrow> f_id f = f_id g \<longrightarrow> p = q"
    using wf unfolding wf_sys_def wf_ids_def by blast
  have "t_fiber s = t_threadFiber s" "TotalFibers s = of_nat (card (dom (fs_fibers s)))"
    using wf by (simp_all add: wf_sys_def wf_thread_def wf_count_def TotalFibers_def)
  with asserts GetFiberId_main [OF wf] ids this_fiber new yield child main show ?thesis by blast
qed

theorem reachable_fibers_sound_witness:
  "TotalFibers demo_fibers = 2 \<and> passes (swapIn demo_env 1 demo_fibers) \<and>
   \<not> passes (swapIn demo_env 0 demo_fibers) \<and> passes (thread_exit demo_env demo_fibers) \<and>
   (\<exists>s. yield_in_main demo_env READY demo_fibers = Inr s \<and>
      thread_exit demo_env s = Inl (AssertFail ''m_state == State::EXEC''))"
proof -
  have "fiber_step demo_env no_fibers demo_fibers"
    by (rule step_new [OF _ demo_fibers_new(1)]) (simp add: no_fibers_def)
  then have steps: "(fiber_step demo_env)\<^sup>*\<^sup>* no_fibers demo_fibers" by (rule r_into_rtranclp)
  have build: "\<not> NDEBUG demo_env" "NDEBUG demo_env \<longrightarrow> fs_asserts t = []" for t by (simp_all add: demo_env_def)
  note r = reachable_fibers_sound [OF good_demo_env steps build(2), of None 0]
  have dom: "dom (fs_fibers demo_fibers) = {0, 1}"
    by (auto simp: demo_fibers_def Fiber_new_def GetThis_def Fiber_new_main_def demo_env_def no_fibers_def
      SetThis_def log_fiber_def Let_def split: if_splits)
  then have "TotalFibers demo_fibers = 2" using r by simp
  moreover have "0 < f_refs demo_fiber" "resumable demo_fiber" "segment_ok (snd (run_segment (next_prog demo_fiber)))"
    by (simp_all add: demo_fiber_def resumable_def next_prog_def demo_prog_def segment_ok_def)
  then have "passes (swapIn demo_env 1 demo_fibers)" using r demo_fibers_new(2,3) by simp
  moreover obtain f0 where f0: "fs_fibers demo_fibers 0 = Some f0" "f_state f0 = EXEC" "f_refs f0 = 1"
    by (simp add: demo_fibers_def Fiber_new_def GetThis_def Fiber_new_main_def demo_env_def no_fibers_def
      SetThis_def log_fiber_def Let_def)
  then have "\<not> passes (swapIn demo_env 0 demo_fibers)" "passes (thread_exit demo_env demo_fibers)"
    using r demo_fibers_new(3) by simp_all
  moreover let ?s = "upd_fiber 0 (\<lambda>f. f\<lparr>f_state := READY\<rparr>) demo_fibers"
  have this_main: "t_fiber demo_fibers = Some 0" using r demo_fibers_new(3) by simp
  have y: "yield_in_main demo_env READY demo_fibers = Inr ?s"
    using this_main demo_fibers_new(3)
    by (simp add: yield_in_main_def GetThis_def swapOut_def SetThis_def upd_fiber_def demo_env_def)
  then have "(fiber_step demo_env)\<^sup>*\<^sup>* no_fibers ?s"
    using steps step_yield [of READY demo_env demo_fibers] by (meson rtranclp.rtrancl_into_rtrancl)
  note r' = reachable_fibers_sound [OF good_demo_env this build(2), of None 0]
  let ?f1 = "f0\<lparr>f_state := READY\<rparr>"
  have "fs_fibers ?s 0 = Some ?f1" "t_threadFiber ?s = Some 0" "f_state ?f1 \<noteq> EXEC" "f_refs ?f1 = 1"
    using f0 demo_fibers_new(3) by (simp_all add: upd_fiber_simps)
  with r' build(1) have "thread_exit demo_env ?s = Inl (AssertFail ''m_state == State::EXEC'')" by blast
  ultimately show ?thesis using y by blast
qed

text \<open>One \<open>swapIn\<close> of a child that has not ended runs it from where it stopped exactly to its next yield or its end: the output
  of that stretch is appended, the fiber is in the state of the yield, or terminated, or in
  the exception state when the callback threw, control is back in the main fiber, and no other
  fiber changes.\<close>

lemma swapIn_runs_one_segment:
  assumes "wf_sys s" and "good_env E" and "fs_fibers s p = Some f" and "t_threadFiber s \<noteq> Some p"
    and "0 < f_refs f" and "resumable f" and "run_segment (next_prog f) = (out, e)" and "segment_ok e"
  shows "\<exists>s'. swapIn E p s = Inr s' \<and> wf_sys s' \<and> t_fiber s' = t_threadFiber s \<and> t_threadFiber s' = t_threadFiber s \<and>
    fs_out s' = fs_out s @ out \<and> fs_fibers s' = (fs_fibers s)(p \<mapsto> after_segment e f)"
  using assms by (rule swapIn_spec)

lemma swapIn_runs_one_segment_example:
  "\<exists>s'. swapIn demo_env 1 demo_fibers = Inr s' \<and> fs_out s' = [''a''] \<and>
     fs_fibers s' 1 = Some (after_segment (Yielded HOLD (Out ''b'' (YieldToReady (Out ''c'' Return)))) demo_fiber)"
proof -
  have seg: "run_segment (next_prog demo_fiber) = ([''a''], Yielded HOLD (Out ''b'' (YieldToReady (Out ''c'' Return))))"
    by (simp add: demo_fiber_def next_prog_def demo_prog_def)
  have th: "t_threadFiber demo_fibers \<noteq> Some 1" using demo_fibers_new(3) by simp
  have r: "0 < f_refs demo_fiber" "resumable demo_fiber" by (simp_all add: demo_fiber_def resumable_def)
  have "fs_out demo_fibers = []"
    by (simp add: demo_fibers_def Fiber_new_def GetThis_def Fiber_new_main_def demo_env_def no_fibers_def
      SetThis_def log_fiber_def Let_def)
  then show ?thesis
    using swapIn_runs_one_segment [OF wf_demo_fibers good_demo_env demo_fibers_new(2) th r seg] by (auto simp: segment_ok_def)
qed

text \<open>C8. A child completes: switching to it once more than its program yields runs all of it. The output
  is the program's, in order; the fiber ends terminated, or in the exception state if the program
  throws; it then holds no reference to itself, and the other fibers are as they were.\<close>

theorem fiber_runs_to_completion:
  assumes "wf_sys s" and "good_env E" and "fs_fibers s p = Some f" and "t_threadFiber s \<noteq> Some p"
    and "0 < f_refs f" and "resumable f" and "segment_ok (prog_end (next_prog f))"
  shows "\<exists>s' f'. swapIns E p (Suc (yields (next_prog f))) s = Inr s' \<and> wf_sys s' \<and>
    fs_fibers s' = (fs_fibers s)(p \<mapsto> f') \<and> f_state f' = ended (prog_end (next_prog f)) \<and> f_self f' = 0 \<and>
    f_refs f' = f_refs f \<and> fs_out s' = fs_out s @ prog_out (next_prog f)"
  using assms by (rule swapIns_run) simp

theorem fiber_runs_to_completion_witness:
  "\<exists>s' f'. swapIns demo_env 1 3 demo_fibers = Inr s' \<and> fs_fibers s' 1 = Some f' \<and> f_state f' = TERM_STATE \<and>
     fs_out s' = [''a'', ''b'', ''c'']"
proof -
  have th: "t_threadFiber demo_fibers \<noteq> Some 1" using demo_fibers_new(3) by simp
  have r: "0 < f_refs demo_fiber" "resumable demo_fiber" "segment_ok (prog_end (next_prog demo_fiber))"
    by (simp_all add: demo_fiber_def resumable_def segment_ok_def next_prog_def demo_prog_def)
  have "fs_out demo_fibers = []"
    by (simp add: demo_fibers_def Fiber_new_def GetThis_def Fiber_new_main_def demo_env_def no_fibers_def
      SetThis_def log_fiber_def Let_def)
  moreover have "Suc (yields (next_prog demo_fiber)) = 3" "prog_out (next_prog demo_fiber) = [''a'', ''b'', ''c'']"
    "ended (prog_end (next_prog demo_fiber)) = TERM_STATE"
    by (simp_all add: demo_fiber_def next_prog_def demo_prog_def ended_def)
  ultimately show ?thesis
    using fiber_runs_to_completion [OF wf_demo_fibers good_demo_env demo_fibers_new(2) th r] by (auto simp del: swapIns.simps)
qed

text \<open>C27. A suspended fiber outlives its owners: its own stack holds references to it, so when the last
  owner lets go it is not destroyed and stays in the count of fibers, and whatever the main fiber
  does afterwards it is never resumed and never freed; in contrast a fiber that has not started or
  has ended is destroyed at once.\<close>

theorem suspended_fiber_outlives_owners:
  assumes "wf_sys s" and "fs_fibers s p = Some f" and "t_threadFiber s \<noteq> Some p" and "f_refs f = 1"
    and "good_env E"
  shows "\<exists>s'. ptr_release E p s = Inr s' \<and> wf_sys s' \<and>
    (if f_state f = HOLD \<or> f_state f = READY
     then TotalFibers s' = TotalFibers s \<and>
       (\<forall>t. (fiber_step E)\<^sup>*\<^sup>* s' t \<longrightarrow> fs_fibers t p = Some (f\<lparr>f_refs := 0\<rparr>))
     else fs_fibers s' p = None \<and> TotalFibers s' = TotalFibers s - 1)"
proof -
  have child: "wf_child f" using wf_sys_child [OF assms(1-3)] .
  then have self: "f_self f = (if f_state f = HOLD \<or> f_state f = READY then 2 else 0)"
    by (auto simp: wf_child_def split: fiber_state.splits)
  from ptr_release_spec [OF assms(1-3), of E] assms(4) obtain s' where s': "ptr_release E p s = Inr s'" "wf_sys s'"
    "fs_fibers s' = (fs_fibers s)(p := if f_self f = 0 then None else Some (f\<lparr>f_refs := 0\<rparr>))" by auto
  have cnt: "TotalFibers t = of_nat (card (dom (fs_fibers t)))" "finite (dom (fs_fibers t))" if "wf_sys t" for t
    using that by (simp_all add: wf_sys_def wf_count_def TotalFibers_def)
  show ?thesis
  proof (cases "f_state f = HOLD \<or> f_state f = READY")
    case True
    then have fs: "fs_fibers s' = (fs_fibers s)(p \<mapsto> f\<lparr>f_refs := 0\<rparr>)" using s'(3) self by simp
    then have "dom (fs_fibers s') = dom (fs_fibers s)" using assms(2) by auto
    moreover have "\<forall>t. (fiber_step E)\<^sup>*\<^sup>* s' t \<longrightarrow> fs_fibers t p = Some (f\<lparr>f_refs := 0\<rparr>)"
      using unowned_forever [OF _ assms(5) s'(2), of _ p "f\<lparr>f_refs := 0\<rparr>"] fs by simp
    ultimately show ?thesis using True s' cnt(1) assms(1) by (intro exI [of _ s']) simp
  next
    case False
    then have f: "fs_fibers s' = (fs_fibers s)(p := None)" using s'(3) self by simp
    then have "dom (fs_fibers s') = dom (fs_fibers s) - {p}" by auto
    moreover have "card (dom (fs_fibers s)) = Suc (card (dom (fs_fibers s) - {p}))"
      using assms(2) cnt(2) [OF assms(1)] by (intro card.remove) auto
    ultimately show ?thesis using False f s' cnt(1) assms(1) by (intro exI [of _ s']) auto
  qed
qed

theorem suspended_fiber_outlives_owners_witness:
  "\<exists>s1 s2. swapIn demo_env 1 demo_fibers = Inr s1 \<and> ptr_release demo_env 1 s1 = Inr s2 \<and>
     TotalFibers s2 = TotalFibers s1 \<and> (\<exists>f. fs_fibers s2 1 = Some f \<and> f_refs f = 0 \<and> f_state f = HOLD)"
proof -
  let ?rest = "Out ''b'' (YieldToReady (Out ''c'' Return))"
  have seg: "run_segment (next_prog demo_fiber) = ([''a''], Yielded HOLD ?rest)" "segment_ok (Yielded HOLD ?rest)"
    by (simp_all add: demo_fiber_def next_prog_def demo_prog_def segment_ok_def)
  have th: "t_threadFiber demo_fibers \<noteq> Some 1" using demo_fibers_new(3) by simp
  have r: "0 < f_refs demo_fiber" "resumable demo_fiber" by (simp_all add: demo_fiber_def resumable_def)
  let ?f1 = "after_segment (Yielded HOLD ?rest) demo_fiber"
  obtain s1 where s1: "swapIn demo_env 1 demo_fibers = Inr s1" "wf_sys s1" "t_threadFiber s1 \<noteq> Some 1"
    "fs_fibers s1 1 = Some ?f1"
    using swapIn_spec [OF wf_demo_fibers good_demo_env demo_fibers_new(2) th r seg] th by auto
  have f1: "f_refs ?f1 = 1" "f_state ?f1 = HOLD" by (simp_all add: after_segment_def demo_fiber_def)
  from suspended_fiber_outlives_owners [OF s1(2,4,3) f1(1) good_demo_env] f1(2) obtain s2 where
    s2: "ptr_release demo_env 1 s1 = Inr s2" "TotalFibers s2 = TotalFibers s1"
      "\<forall>t. (fiber_step demo_env)\<^sup>*\<^sup>* s2 t \<longrightarrow> fs_fibers t 1 = Some (?f1\<lparr>f_refs := 0\<rparr>)" by auto
  from s2(3) have "fs_fibers s2 1 = Some (?f1\<lparr>f_refs := 0\<rparr>)" by blast
  with s1(1) s2(1,2) f1(2) show ?thesis by (intro exI [of _ s1] exI [of _ s2]) simp
qed

end
