(* ===== verification/Sync.thy ===== *)
theory Sync
  imports Sylar_Prelude
begin

text \<open>
  The lock guards and the spin lock of \<^verbatim>\<open>sylar/thread.h\<close>. What a guard does to its mutex is the
  sequence of calls it makes on it. \<open>CASLock\<close> is a lock over \<open>std::atomic_flag\<close>: its \<open>lock\<close> and
  \<open>unlock\<close>, run by any number of threads, are the steps of a transition system.
\<close>

subsection \<open>Guards\<close>

datatype mutex_call = CallLock | CallRdlock | CallWrlock | CallUnlock

text \<open>A guard: its flag \<open>m_locked\<close> and the calls made on the mutex so far.\<close>

record guard =
  m_locked :: bool
  g_calls :: "mutex_call list"

definition call_mutex :: "mutex_call \<Rightarrow> bool \<Rightarrow> guard \<Rightarrow> guard" where
  "call_mutex c locked g = \<lparr>m_locked = locked, g_calls = g_calls g @ [c]\<rparr>"

definition ScopedLockImpl_new :: "mutex_call list \<Rightarrow> guard" where
  "ScopedLockImpl_new calls = call_mutex CallLock True \<lparr>m_locked = False, g_calls = calls\<rparr>"

definition ScopedLockImpl_lock :: "guard \<Rightarrow> guard" where
  "ScopedLockImpl_lock g = (if \<not> m_locked g then call_mutex CallLock True g else g)"

definition ScopedLockImpl_unlock :: "guard \<Rightarrow> guard" where
  "ScopedLockImpl_unlock g = (if m_locked g then call_mutex CallUnlock False g else g)"

definition ScopedLockImpl_dtor :: "guard \<Rightarrow> guard" where
  "ScopedLockImpl_dtor g = ScopedLockImpl_unlock g"

definition ReadScopedLockImpl_new :: "mutex_call list \<Rightarrow> guard" where
  "ReadScopedLockImpl_new calls = call_mutex CallRdlock True \<lparr>m_locked = False, g_calls = calls\<rparr>"

definition ReadScopedLockImpl_lock :: "guard \<Rightarrow> guard" where
  "ReadScopedLockImpl_lock g = (if \<not> m_locked g then call_mutex CallRdlock True g else g)"

definition ReadScopedLockImpl_unlock :: "guard \<Rightarrow> guard" where
  "ReadScopedLockImpl_unlock g = (if m_locked g then call_mutex CallUnlock False g else g)"

definition ReadScopedLockImpl_dtor :: "guard \<Rightarrow> guard" where
  "ReadScopedLockImpl_dtor g = ReadScopedLockImpl_unlock g"

definition WriteScopedLockImpl_new :: "mutex_call list \<Rightarrow> guard" where
  "WriteScopedLockImpl_new calls = call_mutex CallWrlock True \<lparr>m_locked = False, g_calls = calls\<rparr>"

definition WriteScopedLockImpl_lock :: "guard \<Rightarrow> guard" where
  "WriteScopedLockImpl_lock g = (if \<not> m_locked g then call_mutex CallWrlock True g else g)"

definition WriteScopedLockImpl_unlock :: "guard \<Rightarrow> guard" where
  "WriteScopedLockImpl_unlock g = (if m_locked g then call_mutex CallUnlock False g else g)"

definition WriteScopedLockImpl_dtor :: "guard \<Rightarrow> guard" where
  "WriteScopedLockImpl_dtor g = WriteScopedLockImpl_unlock g"

text \<open>What a function may do with a guard between its construction and its destruction.\<close>

datatype guard_op = DoLock | DoUnlock

definition guard_ops :: "(guard \<Rightarrow> guard) \<Rightarrow> (guard \<Rightarrow> guard) \<Rightarrow> guard_op list \<Rightarrow> guard \<Rightarrow> guard" where
  "guard_ops lock unlock ops g = fold (\<lambda>op. case op of DoLock \<Rightarrow> lock | DoUnlock \<Rightarrow> unlock) ops g"

text \<open>The calls made by a guard: acquisitions, each but the last released, then the last one.\<close>

definition held_calls :: "mutex_call \<Rightarrow> nat \<Rightarrow> mutex_call list" where
  "held_calls acquire n = concat (replicate n [acquire, CallUnlock])"

lemma held_calls_Suc: "held_calls a (Suc n) = held_calls a n @ [a, CallUnlock]"
  by (induction n) (simp_all add: held_calls_def)

text \<open>The interface the three guards share, and the sequence of calls it gives.\<close>

locale scoped_guard =
  fixes acquire :: mutex_call
    and new :: "mutex_call list \<Rightarrow> guard"
    and lock unlock dtor :: "guard \<Rightarrow> guard"
  assumes new: "new calls = \<lparr>m_locked = True, g_calls = calls @ [acquire]\<rparr>"
    and lock: "lock g = (if m_locked g then g else \<lparr>m_locked = True, g_calls = g_calls g @ [acquire]\<rparr>)"
    and unlock: "unlock g = (if m_locked g then \<lparr>m_locked = False, g_calls = g_calls g @ [CallUnlock]\<rparr> else g)"
    and dtor: "dtor g = unlock g"
begin

definition balanced :: "mutex_call list \<Rightarrow> guard \<Rightarrow> bool" where
  "balanced calls g \<longleftrightarrow> (\<exists>n. g_calls g = calls @ held_calls acquire n @ (if m_locked g then [acquire] else [])
     \<and> (m_locked g \<or> 0 < n))"

lemma balanced_new: "balanced calls (new calls)"
  unfolding balanced_def by (intro exI [of _ 0]) (simp add: new held_calls_def)

lemma balanced_lock: "balanced calls g \<Longrightarrow> balanced calls (lock g)"
  by (auto simp: balanced_def lock)

lemma balanced_unlock: "balanced calls g \<Longrightarrow> balanced calls (unlock g)"
proof (cases "m_locked g")
  case True
  assume "balanced calls g"
  with True obtain n where "g_calls g = calls @ held_calls acquire n @ [acquire]" by (auto simp: balanced_def)
  with True show ?thesis unfolding balanced_def by (intro exI [of _ "Suc n"]) (simp add: unlock held_calls_Suc)
qed (simp add: unlock)

lemma balanced_ops: "balanced calls g \<Longrightarrow> balanced calls (guard_ops lock unlock ops g)"
  unfolding guard_ops_def
  by (induction ops arbitrary: g) (auto simp: balanced_lock balanced_unlock split: guard_op.splits)

lemma lifetime:
  "\<exists>n > 0. g_calls (dtor (guard_ops lock unlock ops (new calls))) = calls @ held_calls acquire n"
proof -
  have "balanced calls (dtor (guard_ops lock unlock ops (new calls)))"
    unfolding dtor by (intro balanced_unlock balanced_ops balanced_new)
  moreover have "\<not> m_locked (dtor g)" for g by (simp add: dtor unlock)
  ultimately show ?thesis by (auto simp: balanced_def)
qed

end

interpretation scoped: scoped_guard CallLock ScopedLockImpl_new ScopedLockImpl_lock ScopedLockImpl_unlock ScopedLockImpl_dtor
  by unfold_locales
    (simp_all add: ScopedLockImpl_new_def ScopedLockImpl_lock_def ScopedLockImpl_unlock_def ScopedLockImpl_dtor_def call_mutex_def)

interpretation read_scoped: scoped_guard CallRdlock ReadScopedLockImpl_new ReadScopedLockImpl_lock ReadScopedLockImpl_unlock
    ReadScopedLockImpl_dtor
  by unfold_locales
    (simp_all add: ReadScopedLockImpl_new_def ReadScopedLockImpl_lock_def ReadScopedLockImpl_unlock_def
      ReadScopedLockImpl_dtor_def call_mutex_def)

interpretation write_scoped: scoped_guard CallWrlock WriteScopedLockImpl_new WriteScopedLockImpl_lock WriteScopedLockImpl_unlock
    WriteScopedLockImpl_dtor
  by unfold_locales
    (simp_all add: WriteScopedLockImpl_new_def WriteScopedLockImpl_lock_def WriteScopedLockImpl_unlock_def
      WriteScopedLockImpl_dtor_def call_mutex_def)

subsection \<open>CASLock\<close>

text \<open>\<open>atomic_flag_test_and_set\<close>: the old value, and the flag set.\<close>

definition test_and_set :: "bool \<Rightarrow> bool \<times> bool" where
  "test_and_set flag = (flag, True)"

datatype cas_pc = Outside | Spinning | Inside

record cas_sys =
  m_flag :: bool
  cas_pc :: "nat \<Rightarrow> cas_pc"

definition CASLock_new :: cas_sys where
  "CASLock_new = \<lparr>m_flag = False, cas_pc = (\<lambda>_. Outside)\<rparr>"

text \<open>One turn of the loop of \<open>lock\<close> by thread \<open>t\<close>: it leaves the loop when the old value is clear.\<close>

definition CASLock_spin :: "nat \<Rightarrow> cas_sys \<Rightarrow> cas_sys" where
  "CASLock_spin t s =
     (case test_and_set (m_flag s) of (old, flag) \<Rightarrow>
        \<lparr>m_flag = flag, cas_pc = (cas_pc s)(t := if old then Spinning else Inside)\<rparr>)"

definition CASLock_unlock :: "nat \<Rightarrow> cas_sys \<Rightarrow> cas_sys" where
  "CASLock_unlock t s = \<lparr>m_flag = False, cas_pc = (cas_pc s)(t := Outside)\<rparr>"

inductive cas_step :: "cas_sys \<Rightarrow> cas_sys \<Rightarrow> bool" where
  cas_call: "cas_pc s t = Outside \<Longrightarrow> cas_step s (s\<lparr>cas_pc := (cas_pc s)(t := Spinning)\<rparr>)"
| cas_spin: "cas_pc s t = Spinning \<Longrightarrow> cas_step s (CASLock_spin t s)"
| cas_unlock: "cas_pc s t = Inside \<Longrightarrow> cas_step s (CASLock_unlock t s)"

text \<open>The flag is set exactly when some thread holds the lock, and then only one does.\<close>

definition cas_inv :: "cas_sys \<Rightarrow> bool" where
  "cas_inv s \<longleftrightarrow> (m_flag s \<longleftrightarrow> (\<exists>t. cas_pc s t = Inside)) \<and>
     (\<forall>t u. cas_pc s t = Inside \<longrightarrow> cas_pc s u = Inside \<longrightarrow> t = u)"

lemma cas_step_inv: "cas_step s s' \<Longrightarrow> cas_inv s \<Longrightarrow> cas_inv s'"
proof (induction rule: cas_step.induct)
  case (cas_call s t)
  then have "((cas_pc s)(t := Spinning)) u = Inside \<longleftrightarrow> cas_pc s u = Inside" for u by simp
  with cas_call show ?case by (simp add: cas_inv_def)
next
  case (cas_spin s t)
  show ?case
  proof (cases "m_flag s")
    case True
    have "CASLock_spin t s = s" using True cas_spin(1)
      by (cases s) (auto simp: CASLock_spin_def test_and_set_def)
    with cas_spin show ?thesis by simp
  next
    case False
    with cas_spin show ?thesis by (auto simp: cas_inv_def CASLock_spin_def test_and_set_def split: if_splits)
  qed
next
  case (cas_unlock s t)
  then show ?case by (auto simp: cas_inv_def CASLock_unlock_def split: if_splits)
qed

interpretation cas: invariant_system "\<lambda>s. s = CASLock_new" cas_step cas_inv
proof unfold_locales
  fix s t
  show "s = CASLock_new \<Longrightarrow> cas_inv s" by (simp add: cas_inv_def CASLock_new_def)
  show "cas_inv s \<Longrightarrow> cas_step s t \<Longrightarrow> cas_inv t" by (rule cas_step_inv)
qed

subsection \<open>Properties\<close>

text \<open>Whatever \<open>lock\<close> and \<open>unlock\<close> calls are made on a guard during its lifetime, and in whatever
  order, the calls that reach the mutex are acquire, release, acquire, release and so on, at least
  one pair, ending with a release: no double acquire, no release of a mutex that is not held, and
  nothing held after the destructor. For all three guards, with their own way to acquire.\<close>

lemma guards_balanced:
  "(\<exists>n > 0. g_calls (ScopedLockImpl_dtor (guard_ops ScopedLockImpl_lock ScopedLockImpl_unlock ops (ScopedLockImpl_new calls))) =
      calls @ held_calls CallLock n) \<and>
   (\<exists>n > 0. g_calls (ReadScopedLockImpl_dtor (guard_ops ReadScopedLockImpl_lock ReadScopedLockImpl_unlock ops
      (ReadScopedLockImpl_new calls))) = calls @ held_calls CallRdlock n) \<and>
   (\<exists>n > 0. g_calls (WriteScopedLockImpl_dtor (guard_ops WriteScopedLockImpl_lock WriteScopedLockImpl_unlock ops
      (WriteScopedLockImpl_new calls))) = calls @ held_calls CallWrlock n)"
  using scoped.lifetime read_scoped.lifetime write_scoped.lifetime by blast

text \<open>\<open>CASLock\<close> is a lock: however the threads are interleaved, two of them are never between \<open>lock\<close>
  and \<open>unlock\<close> at the same time. It is not stuck either: a spinning thread gets in with its next
  turn, or else some thread is inside, and once that one has unlocked the spinning thread gets in.\<close>

lemma CASLock_mutual_exclusion:
  assumes "cas_step\<^sup>*\<^sup>* CASLock_new s"
  shows "(cas_pc s t = Inside \<longrightarrow> cas_pc s u = Inside \<longrightarrow> t = u) \<and>
    (cas_pc s u = Spinning \<longrightarrow> cas_pc (CASLock_spin u s) u = Inside \<or>
       (\<exists>v. cas_pc s v = Inside \<and> cas_pc (CASLock_spin u (CASLock_unlock v s)) u = Inside))"
proof -
  have "cas_inv s" using cas.reachable_inv [OF refl assms(1)] .
  then show ?thesis
    by (auto simp: cas_inv_def CASLock_spin_def CASLock_unlock_def test_and_set_def)
qed

lemma CASLock_mutual_exclusion_example:
  "\<exists>s. cas_step\<^sup>*\<^sup>* CASLock_new s \<and> cas_pc s 0 = Inside \<and> cas_pc s 1 = Spinning \<and>
     (\<exists>v. cas_pc s v = Inside \<and> cas_pc (CASLock_spin 1 (CASLock_unlock v s)) 1 = Inside)"
proof -
  define s1 where "s1 = CASLock_new\<lparr>cas_pc := (cas_pc CASLock_new)(0 := Spinning)\<rparr>"
  define s2 where "s2 = CASLock_spin 0 s1"
  define s where "s = s2\<lparr>cas_pc := (cas_pc s2)(1 := Spinning)\<rparr>"
  have "cas_step CASLock_new s1" unfolding s1_def by (rule cas_call) (simp add: CASLock_new_def)
  moreover have "cas_step s1 s2" unfolding s2_def by (rule cas_spin) (simp add: s1_def)
  moreover have "cas_step s2 s" unfolding s_def
    by (rule cas_call) (simp add: s2_def s1_def CASLock_spin_def CASLock_new_def test_and_set_def)
  ultimately have r: "cas_step\<^sup>*\<^sup>* CASLock_new s" by (meson rtranclp.rtrancl_into_rtrancl rtranclp.rtrancl_refl)
  have pc: "cas_pc s 0 = Inside" "cas_pc s 1 = Spinning"
    by (simp_all add: s_def s2_def s1_def CASLock_spin_def CASLock_new_def test_and_set_def)
  have "cas_pc (CASLock_spin 1 s) 1 = Spinning"
    by (simp add: s_def s2_def s1_def CASLock_spin_def CASLock_new_def test_and_set_def)
  with CASLock_mutual_exclusion [OF r, of 0 1] r pc show ?thesis by (intro exI [of _ s]) simp
qed

end
