(* ===== verification/Sylar_Thread.thy ===== *)
theory Sylar_Thread
  imports Sylar_Prelude
begin

text \<open>
  The classes \<open>Semaphore\<close> and \<open>Thread\<close> of \<^verbatim>\<open>sylar/thread.h\<close> and \<^verbatim>\<open>sylar/thread.cc\<close>. The POSIX
  calls are parameters: semaphores are the record \<open>sem_api\<close>, the results of the thread calls are
  arguments. The constructor of \<open>Thread\<close> and the new thread's \<open>run\<close> are two sequences of
  statements that interleave.
\<close>

subsection \<open>Semaphore\<close>

text \<open>
  \<open>sem_init\<close> gives a result code and a semaphore, \<open>sem_wait\<close> may block (\<open>None\<close>), and each returns a
  code that is not zero on failure.
\<close>

record 's sem_api =
  sem_init :: "32 word \<Rightarrow> int \<times> 's"
  sem_wait :: "'s \<Rightarrow> (int \<times> 's) option"
  sem_post :: "'s \<Rightarrow> int \<times> 's"
  sem_destroy :: "'s \<Rightarrow> int \<times> 's"

definition Semaphore_new :: "'s sem_api \<Rightarrow> 32 word \<Rightarrow> 's res" where
  "Semaphore_new S count =
     (case sem_init S count of (rt, m) \<Rightarrow> if rt \<noteq> 0 then Inl (StdException ''sem_init error'') else Inr m)"

definition Semaphore_dtor :: "'s sem_api \<Rightarrow> 's \<Rightarrow> 's" where
  "Semaphore_dtor S m = snd (sem_destroy S m)"

definition Semaphore_wait :: "'s sem_api \<Rightarrow> 's \<Rightarrow> 's res option" where
  "Semaphore_wait S m =
     (case sem_wait S m of
        None \<Rightarrow> None
      | Some (rt, m') \<Rightarrow> Some (if rt \<noteq> 0 then Inl (StdException ''sem_wait error'') else Inr m'))"

definition Semaphore_notify :: "'s sem_api \<Rightarrow> 's \<Rightarrow> 's res" where
  "Semaphore_notify S m =
     (case sem_post S m of (rt, m') \<Rightarrow> if rt \<noteq> 0 then Inl (StdException ''sem_post error'') else Inr m')"

subsection \<open>Thread\<close>

record ('cb, 's) thread_obj =
  th_id :: "32 word"
  th_thread :: "64 word"
  th_cb :: "'cb option"
  th_name :: string
  th_sem :: "'s"

text \<open>The members as the constructor initialises them, before \<open>pthread_create\<close>.\<close>

definition Thread_init :: "'cb option \<Rightarrow> string \<Rightarrow> 's \<Rightarrow> ('cb, 's) thread_obj" where
  "Thread_init cb name m =
     \<lparr>th_id = - 1, th_thread = 0, th_cb = cb, th_name = (if name = [] then ''UNKNOW'' else name), th_sem = m\<rparr>"

datatype parent_pc = AtCreate | AtWait | Returned | ParentThrew exn

datatype child_pc = NotStarted | AtStart | AtId | AtSetname | AtSwap | AtNotify | AtCall | Ended | Terminated

text \<open>
  The system during construction: the object, the constructor's parameter \<open>name\<close> and what it logs,
  both program counters, the thread-local variables and the system name of the new thread, and the
  local variable \<open>cb\<close> of \<open>run\<close>.
\<close>

record ('cb, 's) thread_sys =
  ts_obj :: "('cb, 's) thread_obj"
  ts_name :: string
  ts_log :: "string list"
  ts_parent :: parent_pc
  ts_child :: child_pc
  ts_t_thread :: bool
  ts_t_thread_name :: string
  ts_sysname :: string
  ts_cb :: "'cb option"

definition Thread_start :: "'cb option \<Rightarrow> string \<Rightarrow> 's \<Rightarrow> ('cb, 's) thread_sys" where
  "Thread_start cb name m =
     \<lparr>ts_obj = Thread_init cb name m, ts_name = name, ts_log = [], ts_parent = AtCreate, ts_child = NotStarted, ts_t_thread = False,
      ts_t_thread_name = ''UNKNOW'', ts_sysname = [], ts_cb = None\<rparr>"

text \<open>The constructor's calls: \<open>pthread_create\<close> with its result and the handle, then the wait.\<close>

definition Thread_create :: "int \<Rightarrow> 64 word \<Rightarrow> ('cb, 's) thread_sys \<Rightarrow> ('cb, 's) thread_sys" where
  "Thread_create rt handle s =
     (if rt \<noteq> 0
      then s\<lparr>ts_log := ts_log s @ [''pthread_create thread failed, rt='' @ dec_int rt @ '' name='' @ ts_name s],
             ts_parent := ParentThrew (StdException ''pthread_create error'')\<rparr>
      else s\<lparr>ts_parent := AtWait, ts_child := AtStart, ts_obj := (ts_obj s)\<lparr>th_thread := handle\<rparr>\<rparr>)"

definition Thread_wait :: "'s sem_api \<Rightarrow> ('cb, 's) thread_sys \<Rightarrow> ('cb, 's) thread_sys option" where
  "Thread_wait S s =
     (case Semaphore_wait S (th_sem (ts_obj s)) of
        None \<Rightarrow> None
      | Some (Inl e) \<Rightarrow> Some (s\<lparr>ts_parent := ParentThrew e\<rparr>)
      | Some (Inr m) \<Rightarrow> Some (s\<lparr>ts_parent := Returned, ts_obj := (ts_obj s)\<lparr>th_sem := m\<rparr>\<rparr>))"

text \<open>
  The statements of \<open>run\<close>. An exception that leaves \<open>run\<close> ends the program; \<open>finishes\<close> says whether
  the callback returns normally.
\<close>

definition Thread_run :: "'s sem_api \<Rightarrow> 32 word \<Rightarrow> ('cb \<Rightarrow> bool) \<Rightarrow> ('cb, 's) thread_sys \<Rightarrow> ('cb, 's) thread_sys" where
  "Thread_run S tid finishes s =
     (case ts_child s of
        AtStart \<Rightarrow> s\<lparr>ts_t_thread := True, ts_t_thread_name := th_name (ts_obj s), ts_child := AtId\<rparr>
      | AtId \<Rightarrow> s\<lparr>ts_obj := (ts_obj s)\<lparr>th_id := tid\<rparr>, ts_child := AtSetname\<rparr>
      | AtSetname \<Rightarrow> s\<lparr>ts_sysname := take 15 (th_name (ts_obj s)), ts_child := AtSwap\<rparr>
      | AtSwap \<Rightarrow> s\<lparr>ts_cb := th_cb (ts_obj s), ts_obj := (ts_obj s)\<lparr>th_cb := ts_cb s\<rparr>, ts_child := AtNotify\<rparr>
      | AtNotify \<Rightarrow>
          (case Semaphore_notify S (th_sem (ts_obj s)) of
             Inl e \<Rightarrow> s\<lparr>ts_child := Terminated\<rparr>
           | Inr m \<Rightarrow> s\<lparr>ts_obj := (ts_obj s)\<lparr>th_sem := m\<rparr>, ts_child := AtCall\<rparr>)
      | AtCall \<Rightarrow>
          (case ts_cb s of
             None \<Rightarrow> s\<lparr>ts_child := Terminated\<rparr>
           | Some cb \<Rightarrow> s\<lparr>ts_child := if finishes cb then Ended else Terminated\<rparr>)
      | _ \<Rightarrow> s)"

inductive thread_step :: "'s sem_api \<Rightarrow> 32 word \<Rightarrow> ('cb \<Rightarrow> bool) \<Rightarrow> ('cb, 's) thread_sys \<Rightarrow> ('cb, 's) thread_sys \<Rightarrow> bool"
  for S :: "'s sem_api" and tid :: "32 word" and finishes :: "'cb \<Rightarrow> bool" where
  parent_create: "ts_parent s = AtCreate \<Longrightarrow> thread_step S tid finishes s (Thread_create rt handle s)"
| parent_wait: "ts_parent s = AtWait \<Longrightarrow> Thread_wait S s = Some s' \<Longrightarrow> thread_step S tid finishes s s'"
| child_run: "ts_child s \<noteq> NotStarted \<Longrightarrow> thread_step S tid finishes s (Thread_run S tid finishes s)"

subsection \<open>Joining, detaching and naming\<close>

text \<open>\<open>join\<close>, with the result of \<open>pthread_join\<close>: the outcome, the object, and what is logged.\<close>

definition Thread_join :: "int \<Rightarrow> ('cb, 's) thread_obj \<Rightarrow> unit res \<times> ('cb, 's) thread_obj \<times> string list" where
  "Thread_join rt t =
     (if th_thread t \<noteq> 0
      then if rt \<noteq> 0
           then (Inl (StdException ''pthread_join error''), t,
             [''pthread_join thread failed, rt='' @ dec_int rt @ '' name='' @ th_name t])
           else (Inr (), t\<lparr>th_thread := 0\<rparr>, [])
      else (Inr (), t, []))"

text \<open>The destructor: the handle it detaches, if any.\<close>

definition Thread_dtor :: "('cb, 's) thread_obj \<Rightarrow> 64 word option" where
  "Thread_dtor t = (if th_thread t \<noteq> 0 then Some (th_thread t) else None)"

text \<open>The thread-local variables of a thread; \<open>t_thread\<close> points into the \<open>Thread\<close> objects alive.\<close>

record thread_local =
  t_thread :: "nat option"
  t_thread_name :: string

definition thread_locals :: thread_local where
  "thread_locals = \<lparr>t_thread = None, t_thread_name = ''UNKNOW''\<rparr>"

definition Thread_GetThis :: "thread_local \<Rightarrow> nat option" where
  "Thread_GetThis loc = t_thread loc"

definition Thread_GetName :: "thread_local \<Rightarrow> string" where
  "Thread_GetName loc = t_thread_name loc"

definition Thread_SetName :: "string \<Rightarrow> thread_local \<times> (nat \<Rightarrow> ('cb, 's) thread_obj option) \<Rightarrow>
    (thread_local \<times> (nat \<Rightarrow> ('cb, 's) thread_obj option)) res" where
  "Thread_SetName name = (\<lambda>(loc, objs).
     case t_thread loc of
       None \<Rightarrow> Inr (loc\<lparr>t_thread_name := name\<rparr>, objs)
     | Some p \<Rightarrow>
         (case objs p of
            None \<Rightarrow> Inl (UndefinedBehaviour ''use after free'')
          | Some t \<Rightarrow> Inr (loc\<lparr>t_thread_name := name\<rparr>, objs(p \<mapsto> t\<lparr>th_name := name\<rparr>))))"

subsection \<open>Invariant of the construction\<close>

text \<open>How far \<open>run\<close> has come.\<close>

fun child_at :: "child_pc \<Rightarrow> nat" where
  "child_at NotStarted = 0"
| "child_at AtStart = 1"
| "child_at AtId = 2"
| "child_at AtSetname = 3"
| "child_at AtSwap = 4"
| "child_at AtNotify = 5"
| "child_at _ = 6"

definition handshake_inv :: "'s sem_api \<Rightarrow> 32 word \<Rightarrow> 'cb option \<Rightarrow> string \<Rightarrow> 's \<Rightarrow> ('cb, 's) thread_sys \<Rightarrow> bool" where
  "handshake_inv S tid cb name m s \<longleftrightarrow>
     (let n = child_at (ts_child s); the_name = (if name = [] then ''UNKNOW'' else name)
      in th_name (ts_obj s) = the_name \<and>
         (n = 0 \<longleftrightarrow> ts_parent s = AtCreate \<or> ts_parent s = ParentThrew (StdException ''pthread_create error'')) \<and>
         (n < 6 \<longrightarrow> th_sem (ts_obj s) = m \<and> ts_parent s \<noteq> Returned) \<and>
         (2 \<le> n \<longrightarrow> ts_t_thread s \<and> ts_t_thread_name s = the_name) \<and>
         (3 \<le> n \<longrightarrow> th_id (ts_obj s) = tid) \<and>
         (4 \<le> n \<longrightarrow> ts_sysname s = take 15 the_name) \<and>
         (if n < 5 then th_cb (ts_obj s) = cb \<and> ts_cb s = None else th_cb (ts_obj s) = None \<and> ts_cb s = cb))"

lemma handshake_start: "handshake_inv S tid cb name m (Thread_start cb name m)"
  by (simp add: handshake_inv_def Thread_start_def Thread_init_def Let_def)

lemma handshake_create:
  assumes "handshake_inv S tid cb name m s" and "ts_parent s = AtCreate"
  shows "handshake_inv S tid cb name m (Thread_create rt handle s)"
proof -
  have "ts_child s = NotStarted" using assms by (cases "ts_child s") (auto simp: handshake_inv_def Let_def)
  with assms show ?thesis by (auto simp: handshake_inv_def Thread_create_def Let_def)
qed

lemma handshake_wait:
  assumes inv: "handshake_inv S tid cb name m s" and block: "sem_wait S m = None"
    and wait: "ts_parent s = AtWait" "Thread_wait S s = Some s'"
  shows "handshake_inv S tid cb name m s'"
proof -
  have n: "child_at (ts_child s) \<noteq> 0" using inv wait(1) by (simp add: handshake_inv_def Let_def)
  have "\<not> child_at (ts_child s) < 6"
  proof
    assume "child_at (ts_child s) < 6"
    with inv have "th_sem (ts_obj s) = m" by (simp add: handshake_inv_def Let_def)
    with block wait(2) show False by (simp add: Thread_wait_def Semaphore_wait_def)
  qed
  with inv wait n show ?thesis
    by (auto simp: handshake_inv_def Thread_wait_def Semaphore_wait_def Let_def split: option.splits if_splits)
qed

lemma handshake_run:
  assumes "handshake_inv S tid cb name m s" and "ts_child s \<noteq> NotStarted"
  shows "handshake_inv S tid cb name m (Thread_run S tid finishes s)"
  using assms
  by (cases "ts_child s")
    (auto simp: handshake_inv_def Thread_run_def Semaphore_notify_def Let_def split: option.splits prod.splits sum.splits if_splits)

lemma run_keeps_started:
  "ts_child s \<noteq> NotStarted \<Longrightarrow> ts_child (Thread_run S tid finishes s) \<noteq> NotStarted"
  by (auto simp: Thread_run_def split: child_pc.splits sum.splits option.splits)

lemma handshake_step:
  assumes "thread_step S tid finishes s s'" and "handshake_inv S tid cb name m s" and "sem_wait S m = None"
  shows "handshake_inv S tid cb name m s'"
  using assms by (cases rule: thread_step.cases) (auto intro: handshake_create handshake_wait handshake_run)

interpretation handshake: invariant_system "\<lambda>s. s = Thread_start cb name m" "thread_step S tid finishes"
    "\<lambda>s. sem_wait S m = None \<longrightarrow> handshake_inv S tid cb name m s"
  for S :: "'s sem_api" and tid and finishes :: "'cb \<Rightarrow> bool" and cb name m
  by unfold_locales (auto intro: handshake_start handshake_step)

subsection \<open>Concrete data for the witnesses\<close>

definition counting_sem :: "nat sem_api" where
  "counting_sem = \<lparr>sem_init = (\<lambda>c. (0, unat c)), sem_wait = (\<lambda>n. if n = 0 then None else Some (0, n - 1)),
     sem_post = (\<lambda>n. (0, Suc n)), sem_destroy = (\<lambda>n. (0, n))\<rparr>"

definition demo_run :: "(string, nat) thread_sys" where
  "demo_run = (Thread_run counting_sem 7 (\<lambda>_. True) ^^ 5) (Thread_create 0 9 (Thread_start (Some ''cb'') ''worker'' 0))"

definition demo_returned :: "(string, nat) thread_sys" where
  "demo_returned = the (Thread_wait counting_sem demo_run)"

lemma demo_returned_reachable:
  "(thread_step counting_sem 7 (\<lambda>_. True))\<^sup>*\<^sup>* (Thread_start (Some ''cb'') ''worker'' 0) demo_returned"
proof -
  let ?step = "thread_step counting_sem 7 (\<lambda>_ :: string. True)"
  let ?s0 = "Thread_create 0 9 (Thread_start (Some ''cb'') ''worker'' (0::nat))"
  have c: "?step (Thread_start (Some ''cb'') ''worker'' 0) ?s0"
    by (rule parent_create) (simp add: Thread_start_def)
  have run: "?step\<^sup>*\<^sup>* ?s0 ((Thread_run counting_sem 7 (\<lambda>_. True) ^^ n) ?s0) \<and>
      ts_child ((Thread_run counting_sem 7 (\<lambda>_. True) ^^ n) ?s0) \<noteq> NotStarted" for n
  proof (induction n)
    case 0
    then show ?case by (simp add: Thread_create_def)
  next
    case (Suc n)
    let ?s = "(Thread_run counting_sem 7 (\<lambda>_. True) ^^ n) ?s0"
    have "?step ?s (Thread_run counting_sem 7 (\<lambda>_. True) ?s)" using Suc by (intro child_run) simp
    moreover have "ts_child (Thread_run counting_sem 7 (\<lambda>_. True) ?s) \<noteq> NotStarted"
      using Suc run_keeps_started by blast
    ultimately show ?case using Suc by (auto intro: rtranclp.rtrancl_into_rtrancl)
  qed
  have "ts_parent demo_run = AtWait \<and> Thread_wait counting_sem demo_run = Some demo_returned"
    by (simp add: demo_returned_def demo_run_def eval_nat_numeral Thread_run_def Thread_create_def Thread_start_def Thread_init_def
        Thread_wait_def Semaphore_wait_def Semaphore_notify_def counting_sem_def)
  then have "?step demo_run demo_returned" by (intro parent_wait) simp_all
  moreover have "?step\<^sup>*\<^sup>* ?s0 demo_run" using run [of 5] by (simp add: demo_run_def)
  ultimately show ?thesis using c by (meson converse_rtranclp_into_rtranclp rtranclp.rtrancl_into_rtrancl)
qed

subsection \<open>Properties\<close>

text \<open>C23. When the constructor of \<open>Thread\<close> returns, the new thread is set up, however the two threads were
  interleaved: its id is in the object, the callback has moved from the object to the thread, the
  thread-local name is the given one (\<open>UNKNOW\<close> for an empty one), and the name given to the system is
  its first 15 characters. This rests on the semaphore blocking until it has been posted.\<close>

theorem thread_ctor_handshake:
  assumes "Semaphore_new S 0 = Inr m" and "sem_wait S m = None"
    and "(thread_step S tid finishes)\<^sup>*\<^sup>* (Thread_start cb name m) s" and "ts_parent s = Returned"
  shows "th_id (ts_obj s) = tid \<and> th_cb (ts_obj s) = None \<and> ts_cb s = cb \<and> ts_t_thread s \<and>
    ts_t_thread_name s = (if name = [] then ''UNKNOW'' else name) \<and> ts_sysname s = take 15 (ts_t_thread_name s)"
proof -
  have "handshake_inv S tid cb name m s" using handshake.reachable_inv [OF refl assms(3)] assms(2) by simp
  moreover from this assms(4) have "\<not> child_at (ts_child s) < 6" by (auto simp: handshake_inv_def Let_def)
  ultimately show ?thesis by (simp add: handshake_inv_def Let_def)
qed

theorem thread_ctor_handshake_witness:
  "ts_parent demo_returned = Returned \<and> th_id (ts_obj demo_returned) = 7 \<and> ts_cb demo_returned = Some ''cb''"
proof -
  have m: "Semaphore_new counting_sem 0 = Inr 0" "sem_wait counting_sem 0 = None"
    by (simp_all add: Semaphore_new_def counting_sem_def)
  have p: "ts_parent demo_returned = Returned"
    by (simp add: demo_returned_def demo_run_def eval_nat_numeral Thread_run_def Thread_create_def Thread_start_def Thread_init_def
        Thread_wait_def Semaphore_wait_def Semaphore_notify_def counting_sem_def)
  from thread_ctor_handshake [OF m demo_returned_reachable p] p show ?thesis by simp
qed

text \<open>C26. The constructor does return: once \<open>pthread_create\<close> has succeeded, five statements of the new thread
  post the semaphore, and if posting it succeeds and a posted semaphore lets a waiter through, the
  waiting constructor goes on.\<close>

theorem thread_ctor_returns:
  assumes "sem_post S m = (0, m1)" and "sem_wait S m1 = Some (0, m2)"
  shows "\<exists>s. Thread_wait S ((Thread_run S tid finishes ^^ 5) (Thread_create 0 handle (Thread_start cb name m))) = Some s \<and>
    ts_parent s = Returned \<and> ts_child s = AtCall \<and> th_thread (ts_obj s) = handle"
  using assms
  by (simp add: eval_nat_numeral Thread_run_def Thread_create_def Thread_start_def Thread_init_def Thread_wait_def
      Semaphore_wait_def Semaphore_notify_def)

theorem thread_ctor_returns_witness:
  "\<exists>s. Thread_wait counting_sem demo_run = Some s \<and> ts_parent s = Returned"
proof -
  have "sem_post counting_sem 0 = (0, 1)" "sem_wait counting_sem 1 = Some (0, 0)" by (simp_all add: counting_sem_def)
  from thread_ctor_returns [OF this, of 7 "\<lambda>_. True" 9 "Some ''cb''" "''worker''"] show ?thesis
    unfolding demo_run_def by blast
qed

text \<open>A thread is joined or detached, never both: after a successful \<open>join\<close> the handle is gone, so another
  \<open>join\<close> does nothing whatever the system would say, and the destructor detaches nothing. A \<open>join\<close>
  that fails throws, logs, and leaves the object as it was, to be joined again or detached.\<close>

lemma join_or_detach:
  "(case Thread_join 0 t of (r, t', log) \<Rightarrow>
      r = Inr () \<and> log = [] \<and> Thread_dtor t' = None \<and> Thread_join rt t' = (Inr (), t', [])) \<and>
   (if rt \<noteq> 0 \<and> th_thread t \<noteq> 0
    then Thread_join rt t = (Inl (StdException ''pthread_join error''), t,
           [''pthread_join thread failed, rt='' @ dec_int rt @ '' name='' @ th_name t]) \<and>
         Thread_dtor t = Some (th_thread t)
    else fst (Thread_join rt t) = Inr ())"
  by (simp add: Thread_join_def Thread_dtor_def)

end
