(* ===== verification/Thread_Life.thy ===== *)
theory Thread_Life
  imports Sylar_Thread
begin

text \<open>
  The \<open>Thread\<close> objects of a program and the threads they stand for, over time. A running thread keeps
  a raw pointer to its object in \<open>t_thread\<close>, while the object belongs to whoever constructed it:
  this theory says when the pointer is good.
\<close>

subsection \<open>Objects and running threads\<close>

text \<open>The objects alive by address, and the thread-local variables of each running thread by its handle.\<close>

record ('cb, 's) thread_world =
  tw_objs :: "nat \<Rightarrow> ('cb, 's) thread_obj option"
  tw_next :: nat
  tw_running :: "64 word \<Rightarrow> thread_local option"

definition no_threads :: "('cb, 's) thread_world" where
  "no_threads = \<lparr>tw_objs = Map.empty, tw_next = 0, tw_running = Map.empty\<rparr>"

text \<open>
  What the constructor leaves behind, from the state of the construction in which it returned; the
  new thread may have ended by then.
\<close>

definition Thread_constructed ::
    "('cb, 's) thread_sys \<Rightarrow> ('cb, 's) thread_world \<Rightarrow> ('cb, 's) thread_world" where
  "Thread_constructed s w =
     (let p = tw_next w; h = th_thread (ts_obj s)
      in w\<lparr>tw_objs := (tw_objs w)(p \<mapsto> ts_obj s), tw_next := Suc p,
           tw_running := (if ts_child s = Ended then tw_running w
             else (tw_running w)(h \<mapsto> \<lparr>t_thread = (if ts_t_thread s then Some p else None),
                                      t_thread_name = ts_t_thread_name s\<rparr>))\<rparr>)"

text \<open>A handle the system may give to a new thread: not zero, and not that of a thread that still runs or can
  still be joined.\<close>

definition fresh_handle :: "64 word \<Rightarrow> ('cb, 's) thread_world \<Rightarrow> bool" where
  "fresh_handle h w \<longleftrightarrow> h \<noteq> 0 \<and> tw_running w h = None \<and> (\<forall>p t. tw_objs w p = Some t \<longrightarrow> th_thread t \<noteq> h)"

text \<open>
  The steps: a constructor that returns before the callback has done anything or after it has ended,
  \<open>SetName\<close> called by a running thread, the end of a thread, \<open>join\<close>, which returns with success only
  when the thread has ended, and the destructor. \<open>detach\<close> says whether the program destroys objects
  whose thread the destructor then detaches.
\<close>

inductive life_step :: "'s sem_api \<Rightarrow> ('cb \<Rightarrow> bool) \<Rightarrow> bool \<Rightarrow> ('cb, 's) thread_world \<Rightarrow> ('cb, 's) thread_world \<Rightarrow> bool"
  for S :: "'s sem_api" and finishes :: "'cb \<Rightarrow> bool" and detach :: bool where
  life_construct: "Semaphore_new S 0 = Inr m \<Longrightarrow>
    (thread_step S tid finishes)\<^sup>*\<^sup>* (Thread_start cb name m) s \<Longrightarrow> ts_parent s = Returned \<Longrightarrow>
    ts_child s = AtCall \<or> ts_child s = Ended \<Longrightarrow> fresh_handle (th_thread (ts_obj s)) w \<Longrightarrow>
    life_step S finishes detach w (Thread_constructed s w)"
| life_rename: "tw_running w h = Some loc \<Longrightarrow> Thread_SetName name (loc, tw_objs w) = Inr (loc', objs') \<Longrightarrow>
    life_step S finishes detach w (w\<lparr>tw_objs := objs', tw_running := (tw_running w)(h \<mapsto> loc')\<rparr>)"
| life_end: "tw_running w h = Some loc \<Longrightarrow>
    life_step S finishes detach w (w\<lparr>tw_running := (tw_running w)(h := None)\<rparr>)"
| life_join: "tw_objs w p = Some t \<Longrightarrow> rt = 0 \<and> th_thread t \<noteq> 0 \<longrightarrow> tw_running w (th_thread t) = None \<Longrightarrow>
    Thread_join rt t = (r, t', log) \<Longrightarrow> life_step S finishes detach w (w\<lparr>tw_objs := (tw_objs w)(p \<mapsto> t')\<rparr>)"
| life_destroy: "tw_objs w p = Some t \<Longrightarrow> Thread_dtor t = None \<or> detach \<Longrightarrow>
    life_step S finishes detach w (w\<lparr>tw_objs := (tw_objs w)(p := None)\<rparr>)"

subsection \<open>Invariant\<close>

text \<open>A running thread and its object: the pointer leads to it, the handle is still there to be joined, and the
  two names agree.\<close>

definition backed :: "('cb, 's) thread_world \<Rightarrow> 64 word \<Rightarrow> thread_local \<Rightarrow> bool" where
  "backed w h loc \<longleftrightarrow> h \<noteq> 0 \<and> (\<exists>p t. t_thread loc = Some p \<and> tw_objs w p = Some t \<and> th_thread t = h \<and>
     th_name t = t_thread_name loc)"

definition live_world :: "('cb, 's) thread_world \<Rightarrow> bool" where
  "live_world w \<longleftrightarrow> (\<forall>h loc. tw_running w h = Some loc \<longrightarrow> backed w h loc) \<and>
     (\<forall>p t. tw_objs w p = Some t \<longrightarrow> p < tw_next w)"

text \<open>What the semaphore of a constructor must do: block until it is posted.\<close>

definition blocks_first :: "'s sem_api \<Rightarrow> bool" where
  "blocks_first S \<longleftrightarrow> (\<forall>m. Semaphore_new S 0 = Inr m \<longrightarrow> sem_wait S m = None)"

lemma live_worldD: "live_world w \<Longrightarrow> tw_running w h = Some loc \<Longrightarrow> backed w h loc"
  by (simp add: live_world_def)

text \<open>A change of the object at one address, where no running thread needs more than the new object gives.\<close>

lemma live_upd_obj:
  assumes live: "live_world w" and p: "tw_objs w p = Some t"
    and keep: "\<And>loc. tw_running w (th_thread t) = Some loc \<Longrightarrow> th_thread t \<noteq> 0 \<Longrightarrow>
      \<exists>t'. x = Some t' \<and> th_thread t' = th_thread t \<and> th_name t' = th_name t"
  shows "live_world (w\<lparr>tw_objs := (tw_objs w)(p := x)\<rparr>)"
proof -
  have "backed (w\<lparr>tw_objs := (tw_objs w)(p := x)\<rparr>) h loc" if run: "tw_running w h = Some loc" for h loc
  proof -
    from live_worldD [OF live run] obtain q u where h: "h \<noteq> 0" and q: "t_thread loc = Some q" "tw_objs w q = Some u"
      "th_thread u = h" "th_name u = t_thread_name loc" by (auto simp: backed_def)
    show ?thesis
    proof (cases "q = p")
      case True
      with q p have "u = t" by simp
      with keep [of loc] run h q True show ?thesis by (auto simp: backed_def)
    qed (use q h in \<open>auto simp: backed_def\<close>)
  qed
  with live p show ?thesis by (auto simp: live_world_def split: if_splits)
qed

lemma live_construct:
  assumes S: "blocks_first S" "Semaphore_new S 0 = Inr m" and live: "live_world w"
    and s: "(thread_step S tid finishes)\<^sup>*\<^sup>* (Thread_start cb name m) s" "ts_parent s = Returned"
    and h: "fresh_handle (th_thread (ts_obj s)) w"
  shows "live_world (Thread_constructed s w)"
proof -
  have "handshake_inv S tid cb name m s"
    using handshake.reachable_inv [OF refl s(1)] S by (simp add: blocks_first_def)
  then have t: "ts_t_thread s" "th_name (ts_obj s) = ts_t_thread_name s"
    using s(2) by (auto simp: handshake_inv_def Let_def not_less)
  let ?w = "Thread_constructed s w"
  have new: "backed ?w (th_thread (ts_obj s)) \<lparr>t_thread = Some (tw_next w), t_thread_name = ts_t_thread_name s\<rparr>"
    using t h by (simp add: backed_def Thread_constructed_def fresh_handle_def Let_def)
  have old: "backed ?w g loc" if "tw_running w g = Some loc" for g loc
  proof -
    from live_worldD [OF live that] obtain q u where q: "g \<noteq> 0" "t_thread loc = Some q" "tw_objs w q = Some u"
      "th_thread u = g" "th_name u = t_thread_name loc" by (auto simp: backed_def)
    moreover have "q < tw_next w" using live q(3) by (simp add: live_world_def)
    ultimately show ?thesis by (auto simp: backed_def Thread_constructed_def Let_def)
  qed
  show ?thesis
    unfolding live_world_def
  proof (intro conjI allI impI)
    fix g loc assume "tw_running ?w g = Some loc"
    with new old t(1) show "backed ?w g loc" by (auto simp: Thread_constructed_def Let_def split: if_splits)
  next
    fix p u assume "tw_objs ?w p = Some u"
    with live show "p < tw_next ?w"
      by (auto simp: live_world_def Thread_constructed_def Let_def less_SucI split: if_splits)
  qed
qed

lemma live_rename:
  assumes live: "live_world w" and run: "tw_running w h = Some loc"
    and set: "Thread_SetName name (loc, tw_objs w) = Inr (loc', objs')"
  shows "live_world (w\<lparr>tw_objs := objs', tw_running := (tw_running w)(h \<mapsto> loc')\<rparr>)"
proof -
  from live_worldD [OF live run] obtain p t where h: "h \<noteq> 0" and p: "t_thread loc = Some p" "tw_objs w p = Some t"
    "th_thread t = h" by (auto simp: backed_def)
  with set have eq: "loc' = loc\<lparr>t_thread_name := name\<rparr>" "objs' = (tw_objs w)(p \<mapsto> t\<lparr>th_name := name\<rparr>)"
    by (auto simp: Thread_SetName_def)
  let ?w = "w\<lparr>tw_objs := objs', tw_running := (tw_running w)(h \<mapsto> loc')\<rparr>"
  have "backed ?w g l" if "tw_running w g = Some l" "g \<noteq> h" for g l
  proof -
    from live_worldD [OF live that(1)] obtain q u where q: "g \<noteq> 0" "t_thread l = Some q" "tw_objs w q = Some u"
      "th_thread u = g" "th_name u = t_thread_name l" by (auto simp: backed_def)
    with p that(2) have "q \<noteq> p" by auto
    with q show ?thesis by (auto simp: backed_def eq)
  qed
  moreover have "backed ?w h loc'" using h p by (simp add: backed_def eq)
  ultimately show ?thesis using live p(2) by (auto simp: live_world_def eq split: if_splits)
qed

lemma life_step_live:
  assumes "life_step S finishes False w w'" and S: "blocks_first S" and live: "live_world w"
  shows "live_world w'"
  using assms(1)
proof cases
  case (life_construct m tid cb name s)
  then show ?thesis using live_construct [OF S _ live] by blast
next
  case (life_rename h loc name loc' objs')
  then show ?thesis using live_rename [OF live] by blast
next
  case (life_end h loc)
  with live show ?thesis by (auto simp: live_world_def backed_def)
next
  case (life_join p t rt r t' log)
  show ?thesis unfolding life_join(1)
  proof (rule live_upd_obj [OF live life_join(2)])
    fix loc assume "tw_running w (th_thread t) = Some loc" "th_thread t \<noteq> 0"
    with life_join(3,4) show "\<exists>u. Some t' = Some u \<and> th_thread u = th_thread t \<and> th_name u = th_name t"
      by (auto simp: Thread_join_def split: if_splits)
  qed
next
  case (life_destroy p t)
  show ?thesis unfolding life_destroy(1)
    by (rule live_upd_obj [OF live life_destroy(2)]) (use life_destroy(3) in \<open>simp add: Thread_dtor_def\<close>)
qed

interpretation lives: invariant_system "\<lambda>w. w = no_threads" "life_step S finishes False"
    "\<lambda>w. blocks_first S \<longrightarrow> live_world w" for S :: "'s sem_api" and finishes :: "'cb \<Rightarrow> bool"
  by unfold_locales (auto simp: live_world_def no_threads_def dest: life_step_live)

subsection \<open>Concrete data for the witness\<close>

definition demo_world :: "(string, nat) thread_world" where
  "demo_world = Thread_constructed demo_returned no_threads"

lemma demo_world_eval:
  "ts_parent demo_returned = Returned" "ts_child demo_returned = AtCall" "th_thread (ts_obj demo_returned) = 9"
  "tw_running demo_world 9 = Some \<lparr>t_thread = Some 0, t_thread_name = ''worker''\<rparr>"
  by (simp_all add: demo_world_def Thread_constructed_def no_threads_def demo_returned_def demo_run_def eval_nat_numeral
      Thread_run_def Thread_create_def Thread_start_def Thread_init_def Thread_wait_def Semaphore_wait_def
      Semaphore_notify_def counting_sem_def Let_def)

lemma counting_blocks: "blocks_first counting_sem"
  by (simp add: blocks_first_def Semaphore_new_def counting_sem_def)

lemma demo_world_reachable: "life_step counting_sem (\<lambda>_. True) False no_threads demo_world"
  unfolding demo_world_def
proof (rule life_construct [OF _ demo_returned_reachable])
  show "fresh_handle (th_thread (ts_obj demo_returned)) no_threads"
    by (simp add: fresh_handle_def no_threads_def demo_world_eval)
qed (simp_all add: demo_world_eval Semaphore_new_def counting_sem_def)

subsection \<open>Properties\<close>

text \<open>C30. Naming threads, over the life of the \<open>Thread\<close> objects. In every history in which an object is destroyed
  only when its destructor has nothing to detach, that is after a successful \<open>join\<close>, each running
  thread has its object: \<open>GetThis\<close> leads to it, its name is what \<open>GetName\<close> returns, and \<open>SetName\<close>
  returns with both names changed. But the destructor also accepts an object whose thread runs, and
  detaches the thread: the thread goes on with a dangling \<open>t_thread\<close>, and \<open>SetName\<close> then writes
  through it.\<close>

theorem thread_naming:
  assumes "blocks_first S" and "(life_step S finishes False)\<^sup>*\<^sup>* no_threads w" and "tw_running w h = Some loc"
  shows "\<exists>p t. Thread_GetThis loc = Some p \<and> tw_objs w p = Some t \<and> th_name t = Thread_GetName loc \<and>
    (\<exists>loc' objs' t'. Thread_SetName name (loc, tw_objs w) = Inr (loc', objs') \<and> Thread_GetName loc' = name \<and>
       Thread_GetThis loc' = Some p \<and> objs' p = Some t' \<and> th_name t' = name) \<and>
    Thread_dtor t = Some h \<and>
    (\<exists>w'. life_step S finishes True w w' \<and> tw_objs w' p = None \<and> tw_running w' h = Some loc \<and>
       Thread_SetName name (loc, tw_objs w') = Inl (UndefinedBehaviour ''use after free''))"
proof -
  have "live_world w" using lives.reachable_inv [OF refl assms(2)] assms(1) by blast
  then obtain p t where h: "h \<noteq> 0" and p: "t_thread loc = Some p" "tw_objs w p = Some t" "th_thread t = h"
    "th_name t = t_thread_name loc" using assms(3) by (auto dest!: live_worldD simp: backed_def)
  let ?w' = "w\<lparr>tw_objs := (tw_objs w)(p := None)\<rparr>"
  have "life_step S finishes True w ?w'" by (rule life_destroy [OF p(2)]) simp
  then show ?thesis using h p assms(3)
    by (intro exI [of _ p] exI [of _ t])
      (auto simp: Thread_GetThis_def Thread_GetName_def Thread_SetName_def Thread_dtor_def intro!: exI [of _ ?w'])
qed

theorem thread_naming_witness:
  "\<exists>loc' objs'. Thread_SetName ''io'' (\<lparr>t_thread = Some 0, t_thread_name = ''worker''\<rparr>, tw_objs demo_world) =
     Inr (loc', objs') \<and> Thread_GetName loc' = ''io''"
proof -
  have "(life_step counting_sem (\<lambda>_. True) False)\<^sup>*\<^sup>* no_threads demo_world"
    using demo_world_reachable by (rule r_into_rtranclp)
  from thread_naming [OF counting_blocks this demo_world_eval(4), of "''io''"] show ?thesis by blast
qed

end
