(* ===== verification/Scheduler.thy ===== *)
theory Scheduler
  imports Sylar_Prelude
begin

text \<open>
  The task queue of \<open>Scheduler\<close> (\<^verbatim>\<open>sylar/scheduler.h\<close>, \<^verbatim>\<open>sylar/scheduler.cc\<close>). A task is a fiber or a
  callback, with the thread it wants. Fibers are pointers; \<open>tickle\<close> is virtual, and what is
  observed of it is how often it is called.
\<close>

subsection \<open>Data\<close>

record 'cb fiber_and_thread =
  ft_fiber :: "nat option"
  ft_cb :: "'cb option"
  ft_thread :: "32 word"

record 'cb scheduler =
  sc_fibers :: "'cb fiber_and_thread list"
  sc_name :: string
  sc_tickles :: nat

text \<open>The constructor does nothing with its arguments; \<open>start\<close>, \<open>stop\<close> and the destructor do nothing at all.\<close>

definition Scheduler_new :: "64 word \<Rightarrow> bool \<Rightarrow> string \<Rightarrow> 'cb scheduler" where
  "Scheduler_new threads use_caller name = \<lparr>sc_fibers = [], sc_name = [], sc_tickles = 0\<rparr>"

definition Scheduler_getName :: "'cb scheduler \<Rightarrow> string" where
  "Scheduler_getName sc = sc_name sc"

definition Scheduler_start :: "'cb scheduler \<Rightarrow> 'cb scheduler" where
  "Scheduler_start sc = sc"

definition Scheduler_stop :: "'cb scheduler \<Rightarrow> 'cb scheduler" where
  "Scheduler_stop sc = sc"

text \<open>\<open>GetThis\<close> and \<open>GetMainFiber\<close> have a result and no \<open>return\<close>: using them is undefined.\<close>

definition Scheduler_GetThis :: "nat res" where
  "Scheduler_GetThis = Inl (UndefinedBehaviour ''end of a function with a result'')"

definition Scheduler_GetMainFiber :: "nat res" where
  "Scheduler_GetMainFiber = Inl (UndefinedBehaviour ''end of a function with a result'')"

text \<open>A scheduler made with a name does not have it, and what is started or stopped keeps its tasks.\<close>

lemma scheduler_unfinished:
  "Scheduler_getName (Scheduler_new threads use_caller name) = []"
  "sc_fibers (Scheduler_stop (Scheduler_start sc)) = sc_fibers sc"
  by (simp_all add: Scheduler_getName_def Scheduler_new_def Scheduler_start_def Scheduler_stop_def)

text \<open>
  The constructors of a task. The ones that take a pointer to a fiber pointer or to a callback swap:
  what the caller's variable holds afterwards is the second component.
\<close>

definition FiberAndThread_fiber :: "nat option \<Rightarrow> 32 word \<Rightarrow> 'cb fiber_and_thread" where
  "FiberAndThread_fiber f thr = \<lparr>ft_fiber = f, ft_cb = None, ft_thread = thr\<rparr>"

definition FiberAndThread_fiber_ptr :: "nat option \<Rightarrow> 32 word \<Rightarrow> 'cb fiber_and_thread \<times> nat option" where
  "FiberAndThread_fiber_ptr f thr = (\<lparr>ft_fiber = f, ft_cb = None, ft_thread = thr\<rparr>, None)"

definition FiberAndThread_cb :: "'cb option \<Rightarrow> 32 word \<Rightarrow> 'cb fiber_and_thread" where
  "FiberAndThread_cb f thr = \<lparr>ft_fiber = None, ft_cb = f, ft_thread = thr\<rparr>"

definition FiberAndThread_cb_ptr :: "'cb option \<Rightarrow> 32 word \<Rightarrow> 'cb fiber_and_thread \<times> 'cb option" where
  "FiberAndThread_cb_ptr f thr = (\<lparr>ft_fiber = None, ft_cb = f, ft_thread = thr\<rparr>, None)"

definition FiberAndThread_default :: "'cb fiber_and_thread" where
  "FiberAndThread_default = \<lparr>ft_fiber = None, ft_cb = None, ft_thread = - 1\<rparr>"

definition FiberAndThread_reset :: "'cb fiber_and_thread \<Rightarrow> 'cb fiber_and_thread" where
  "FiberAndThread_reset ft = ft\<lparr>ft_fiber := None, ft_cb := None, ft_thread := - 1\<rparr>"

subsection \<open>Scheduling\<close>

text \<open>
  The argument of \<open>schedule\<close> is of one of the types a task can be made from. \<open>make_task\<close> is the
  constructor its type selects, and the argument after the call.
\<close>

datatype 'cb fiber_or_cb =
    AFiber "nat option"
  | AFiberPtr "nat option"
  | ACb "'cb option"
  | ACbPtr "'cb option"

definition make_task :: "'cb fiber_or_cb \<Rightarrow> 32 word \<Rightarrow> 'cb fiber_and_thread \<times> 'cb fiber_or_cb" where
  "make_task fc thread =
     (case fc of
        AFiber f \<Rightarrow> (FiberAndThread_fiber f thread, fc)
      | AFiberPtr f \<Rightarrow> (case FiberAndThread_fiber_ptr f thread of (ft, f') \<Rightarrow> (ft, AFiberPtr f'))
      | ACb cb \<Rightarrow> (FiberAndThread_cb cb thread, fc)
      | ACbPtr cb \<Rightarrow> (case FiberAndThread_cb_ptr cb thread of (ft, cb') \<Rightarrow> (ft, ACbPtr cb')))"

definition runnable :: "'cb fiber_and_thread \<Rightarrow> bool" where
  "runnable ft \<longleftrightarrow> ft_fiber ft \<noteq> None \<or> ft_cb ft \<noteq> None"

definition scheduleNoLock ::
    "'cb fiber_or_cb \<Rightarrow> 32 word \<Rightarrow> 'cb scheduler \<Rightarrow> bool \<times> 'cb fiber_or_cb \<times> 'cb scheduler" where
  "scheduleNoLock fc thread sc =
     (let need_tickle = (sc_fibers sc = []);
          (ft, fc') = make_task fc thread
      in (need_tickle, fc', if runnable ft then sc\<lparr>sc_fibers := sc_fibers sc @ [ft]\<rparr> else sc))"

definition tickle :: "'cb scheduler \<Rightarrow> 'cb scheduler" where
  "tickle sc = sc\<lparr>sc_tickles := Suc (sc_tickles sc)\<rparr>"

definition schedule :: "'cb fiber_or_cb \<Rightarrow> 32 word \<Rightarrow> 'cb scheduler \<Rightarrow> 'cb fiber_or_cb \<times> 'cb scheduler" where
  "schedule fc thread sc =
     (case scheduleNoLock fc thread sc of
        (need_tickle, fc', sc') \<Rightarrow> (fc', if need_tickle then tickle sc' else sc'))"

text \<open>A sequence of calls.\<close>

fun schedules :: "('cb fiber_or_cb \<times> 32 word) list \<Rightarrow> 'cb scheduler \<Rightarrow> 'cb fiber_or_cb list \<times> 'cb scheduler" where
  "schedules [] sc = ([], sc)"
| "schedules ((fc, thread) # calls) sc =
     (case schedule fc thread sc of (fc', sc1) \<Rightarrow>
        (case schedules calls sc1 of (fcs, sc2) \<Rightarrow> (fc' # fcs, sc2)))"

subsection \<open>Properties\<close>

text \<open>The task a call asks for, and what a call leaves of its argument.\<close>

fun task_of :: "'cb fiber_or_cb \<times> 32 word \<Rightarrow> 'cb fiber_and_thread" where
  "task_of (AFiber f, thread) = \<lparr>ft_fiber = f, ft_cb = None, ft_thread = thread\<rparr>"
| "task_of (AFiberPtr f, thread) = \<lparr>ft_fiber = f, ft_cb = None, ft_thread = thread\<rparr>"
| "task_of (ACb cb, thread) = \<lparr>ft_fiber = None, ft_cb = cb, ft_thread = thread\<rparr>"
| "task_of (ACbPtr cb, thread) = \<lparr>ft_fiber = None, ft_cb = cb, ft_thread = thread\<rparr>"

fun moved_from :: "'cb fiber_or_cb \<Rightarrow> 'cb fiber_or_cb" where
  "moved_from (AFiberPtr f) = AFiberPtr None"
| "moved_from (ACbPtr cb) = ACbPtr None"
| "moved_from fc = fc"

lemma make_task_eq: "make_task fc thread = (task_of (fc, thread), moved_from fc)"
  by (cases fc) (simp_all add: make_task_def FiberAndThread_fiber_def FiberAndThread_fiber_ptr_def
      FiberAndThread_cb_def FiberAndThread_cb_ptr_def)

lemma schedule_fields:
  "fst (schedule fc thread sc) = moved_from fc"
  "sc_fibers (snd (schedule fc thread sc)) =
     sc_fibers sc @ (if runnable (task_of (fc, thread)) then [task_of (fc, thread)] else [])"
  "sc_tickles (snd (schedule fc thread sc)) = sc_tickles sc + (if sc_fibers sc = [] then 1 else 0)"
  "sc_name (snd (schedule fc thread sc)) = sc_name sc"
  by (simp_all add: schedule_def scheduleNoLock_def tickle_def make_task_eq Let_def)

text \<open>The calls of \<open>tickle\<close> while a sequence of tasks is scheduled.\<close>

definition wakeups :: "bool \<Rightarrow> 'cb fiber_and_thread list \<Rightarrow> nat" where
  "wakeups was_empty fts =
     (if \<not> was_empty then 0
      else length (takeWhile (\<lambda>ft. \<not> runnable ft) fts) + (if list_ex runnable fts then 1 else 0))"

text \<open>C28. Tasks are queued first in, first out: a sequence of calls of \<open>schedule\<close> appends exactly the tasks that
  have a fiber or a callback, in order, each with its thread; an argument passed by pointer is moved
  into the queue and left empty, one passed by value is kept. The threads are woken by the task
  that finds the queue empty, once for the whole sequence, except that each empty task scheduled on
  an empty queue wakes them as well although nothing was queued.\<close>

theorem schedule_fifo:
  "fst (schedules calls sc) = map (\<lambda>(fc, thread). moved_from fc) calls \<and>
   sc_fibers (snd (schedules calls sc)) = sc_fibers sc @ filter runnable (map task_of calls) \<and>
   sc_tickles (snd (schedules calls sc)) = sc_tickles sc + wakeups (sc_fibers sc = []) (map task_of calls) \<and>
   sc_name (snd (schedules calls sc)) = sc_name sc"
proof (induction calls arbitrary: sc)
  case (Cons call calls)
  obtain fc thread where call: "call = (fc, thread)" by (cases call)
  show ?case
    using Cons.IH [of "snd (schedule fc thread sc)"] schedule_fields [of fc thread sc]
    by (auto simp: call wakeups_def split: prod.splits)
qed (simp add: wakeups_def)

end
