(* ===== verification/Util.thy ===== *)
theory Util
  imports Fiber
begin

text \<open>
  The helpers of \<^verbatim>\<open>sylar/util.cc\<close>: the fiber id for log lines and stack traces. The symbols of the
  frames come from the system (\<open>None\<close> when \<open>backtrace_symbols\<close> fails); the largest capacity of a
  \<open>std::vector<std::string>\<close> is an argument.
\<close>

subsection \<open>Definitions\<close>

definition Util_GetFiberId :: "fiber_sys \<Rightarrow> 32 word res" where
  "Util_GetFiberId s = bind_res (GetFiberId s) (\<lambda>i. Inr (ucast i))"

text \<open>\<open>bt.reserve(n)\<close>\<close>

definition vector_reserve :: "64 word \<Rightarrow> 64 word \<Rightarrow> unit res" where
  "vector_reserve max_size n = (if max_size < n then Inl (StdException ''vector::reserve'') else Inr ())"

text \<open>
  \<open>Backtrace\<close>: the vector it fills and what it logs. \<open>skip\<close> is an \<open>int\<close> and is converted to \<open>size_t\<close>
  in the subtraction and in the loop. With \<open>BOOST_STACKTRACE_USE_BACKTRACE\<close> the frames come from
  \<open>boost::stacktrace\<close> and are always there; the rest is the same.
\<close>

definition Backtrace :: "64 word \<Rightarrow> string list option \<Rightarrow> 32 word \<Rightarrow> string list \<Rightarrow> string list res \<times> string list" where
  "Backtrace max_size symbols skip bt =
     (case symbols of
        None \<Rightarrow> (Inr bt, [''backtrace_symbols error''])
      | Some strings \<Rightarrow>
          (let s = of_nat (length strings); k = scast skip
           in (bind_res (vector_reserve max_size (s - k)) (\<lambda>_. Inr (bt @ drop (unat k) strings)), [])))"

fun number_frames :: "string \<Rightarrow> nat \<Rightarrow> string list \<Rightarrow> string" where
  "number_frames prefix i [] = []"
| "number_frames prefix i (f # fs) = prefix @ dec_nat i @ ''# '' @ f @ [CHR 0x0A] @ number_frames prefix (Suc i) fs"

definition BacktraceToString :: "64 word \<Rightarrow> string list option \<Rightarrow> 32 word \<Rightarrow> string \<Rightarrow> string res \<times> string list" where
  "BacktraceToString max_size symbols skip prefix =
     (case Backtrace max_size symbols skip [] of
        (Inl e, log) \<Rightarrow> (Inl e, log)
      | (Inr bt, log) \<Rightarrow> (Inr (number_frames prefix 0 bt), log))"

subsection \<open>Words\<close>

lemma unat_scast_nonneg:
  assumes "0 \<le> sint (w :: 32 word)"
  shows "unat (scast w :: 64 word) = nat (sint w)" and "nat (sint w) < 2147483648"
proof -
  have less: "sint w < 2147483648" using sint_less [of w] by (simp only: len_of_numeral_defs) simp
  then show "nat (sint w) < 2147483648" using assms by linarith
  have "uint (scast w :: 64 word) = take_bit 64 (sint w)" by (simp only: scast_eq unsigned_of_int) simp
  also have "\<dots> = sint w" using assms less by (intro take_bit_int_eq_self) simp_all
  finally show "unat (scast w :: 64 word) = nat (sint w)" by (simp only: unat_eq_nat_uint)
qed

text \<open>The unsigned difference of two numbers: exact, or wrapped around.\<close>

lemma unat_diff_wrap:
  fixes a b :: "64 word"
  shows "unat (a - b) = (if unat b \<le> unat a then unat a - unat b else unat a + 2 ^ 64 - unat b)"
  by (simp add: unat_sub_if')

subsection \<open>Properties\<close>

text \<open>C29. What a stack trace contains. For a number of frames to skip that is not negative, with the frames
  fewer than \<open>INT_MAX\<close> and within the capacity of a vector, \<open>Backtrace\<close> appends the frames after
  the skipped ones; but when there are fewer frames than are to be skipped, the unsigned subtraction
  wraps around and \<open>reserve\<close> throws \<open>std::length_error\<close> instead of giving an empty trace.\<close>

theorem backtrace_bounds:
  assumes "0 \<le> sint skip" and "length strings < 2147483648" and "length strings \<le> unat max_size"
    and "unat max_size < 2 ^ 63"
  shows "Backtrace max_size (Some strings) skip bt =
    (if nat (sint skip) \<le> length strings then Inr (bt @ drop (nat (sint skip)) strings)
     else Inl (StdException ''vector::reserve''), [])"
proof -
  let ?s = "of_nat (length strings) :: 64 word" and ?k = "scast skip :: 64 word"
  have k: "unat ?k = nat (sint skip)" "nat (sint skip) < 2147483648" using unat_scast_nonneg [OF assms(1)] by auto
  have s: "unat ?s = length strings"
    using assms(2) by (simp add: unsigned_of_nat take_bit_nat_eq_self)
  show ?thesis
  proof (cases "nat (sint skip) \<le> length strings")
    case True
    then have "unat (?s - ?k) = length strings - nat (sint skip)" by (simp add: unat_diff_wrap k(1) s)
    then have "\<not> max_size < ?s - ?k" using assms(3) by (simp add: word_less_nat_alt)
    with True k(1) show ?thesis by (simp add: Backtrace_def vector_reserve_def Let_def)
  next
    case False
    then have "unat (?s - ?k) = length strings + 2 ^ 64 - nat (sint skip)" by (simp add: unat_diff_wrap k(1) s)
    then have "unat max_size < unat (?s - ?k)" using assms(4) k(2) by simp
    with False show ?thesis by (simp add: Backtrace_def vector_reserve_def Let_def word_less_nat_alt)
  qed
qed

theorem backtrace_bounds_witness:
  "Backtrace 1000 (Some [''f'', ''g'', ''h'']) 2 [] = (Inr [''h''], []) \<and>
   Backtrace 1000 (Some [''f'']) 2 [] = (Inl (StdException ''vector::reserve''), [])"
  using backtrace_bounds [of 2 "[''f'', ''g'', ''h'']" 1000 "[]"] backtrace_bounds [of 2 "[''f'']" 1000 "[]"]
  by simp

text \<open>The fiber id that log lines show is the low half of the real one: it is the id of the current fiber
  as long as fewer than \<open>2\<^sup>3\<^sup>2\<close> fibers have been created, and after that ids repeat; the fiber with
  id \<open>2\<^sup>3\<^sup>2\<close> is shown as 0, like the main fiber.\<close>

lemma fiber_id_truncated:
  assumes "GetFiberId s = Inr i" and "GetFiberId s' = Inr i'"
  shows "\<exists>u u'. Util_GetFiberId s = Inr u \<and> Util_GetFiberId s' = Inr u' \<and> unat u = unat i mod 2 ^ 32 \<and>
    (u = u' \<longleftrightarrow> unat i mod 2 ^ 32 = unat i' mod 2 ^ 32)"
proof -
  have eq: "unat (ucast j :: 32 word) = unat j mod 2 ^ 32" for j :: "64 word"
    by (simp add: unsigned_ucast_eq take_bit_eq_mod)
  have "(ucast i :: 32 word) = ucast i' \<longleftrightarrow> unat i mod 2 ^ 32 = unat i' mod 2 ^ 32"
    using eq [of i] eq [of i'] by (metis unsigned_word_eqI)
  then show ?thesis using assms eq [of i] by (simp add: Util_GetFiberId_def)
qed

lemma fiber_id_truncated_example:
  "\<exists>s. GetFiberId s = Inr (2 ^ 32) \<and> Util_GetFiberId s = Util_GetFiberId no_fibers"
proof -
  let ?f = "\<lparr>f_id = 2 ^ 32, f_stacksize = 0, f_state = EXEC, f_ctx = AtMainFunc, f_stack = True, f_cb = None,
    f_refs = 1, f_self = 0\<rparr>"
  let ?s = "no_fibers\<lparr>fs_fibers := [0 \<mapsto> ?f], t_fiber := Some 0\<rparr>"
  have g: "GetFiberId ?s = Inr (2 ^ 32)" "GetFiberId no_fibers = Inr 0"
    by (simp_all add: GetFiberId_def no_fibers_def)
  with fiber_id_truncated [OF g] show ?thesis by (intro exI [of _ ?s]) auto
qed

end
