(* ===== verification/Singleton.thy ===== *)
theory Singleton
  imports Logger_Wf
begin

text \<open>
  The two templates of \<^verbatim>\<open>sylar/singleton.h\<close> and the macros of \<^verbatim>\<open>sylar/log.h\<close> that reach the logging system through one of
  them. A static variable of a function is constructed by the first call that gets through its constructor; a
  constructor that throws leaves it unconstructed. \<open>ctor\<close> is the constructor, in a world of its own.
\<close>

definition Singleton_GetInstance :: "('w \<Rightarrow> 'a res \<times> 'w) \<Rightarrow> 'a option \<Rightarrow> 'w \<Rightarrow> 'a res \<times> 'a option \<times> 'w" where
  "Singleton_GetInstance ctor v w =
     (case v of
        Some x \<Rightarrow> (Inr x, v, w)
      | None \<Rightarrow>
          (case ctor w of
             (Inl e, w') \<Rightarrow> (Inl e, None, w')
           | (Inr x, w') \<Rightarrow> (Inr x, Some x, w')))"

text \<open>The shared pointer is copied to the caller; the counter is that of its owners, the variable included.\<close>

definition SingletonPtr_GetInstance :: "('w \<Rightarrow> 'a res \<times> 'w) \<Rightarrow> ('a \<times> nat) option \<Rightarrow> 'w \<Rightarrow> 'a res \<times> ('a \<times> nat) option \<times> 'w" where
  "SingletonPtr_GetInstance ctor v w =
     (case v of
        Some (x, owners) \<Rightarrow> (Inr x, Some (x, Suc owners), w)
      | None \<Rightarrow>
          (case ctor w of
             (Inl e, w') \<Rightarrow> (Inl e, None, w')
           | (Inr x, w') \<Rightarrow> (Inr x, Some (x, 2), w')))"

text \<open>The laws of both: an object is made once, and it is the object every call returns.\<close>

locale single_instance =
  fixes get_instance :: "('w \<Rightarrow> 'a res \<times> 'w) \<Rightarrow> 's \<Rightarrow> 'w \<Rightarrow> 'a res \<times> 's \<times> 'w"
    and object :: "'s \<Rightarrow> 'a option"
  assumes returned: "get_instance ctor v w = (Inr x, v', w') \<Longrightarrow> object v' = Some x"
    and kept: "object v = Some x \<Longrightarrow> \<exists>v'. get_instance ctor v w = (Inr x, v', w) \<and> object v' = Some x"
    and failed: "get_instance ctor v w = (Inl e, v', w') \<Longrightarrow> object v = None \<and> object v' = None"
begin

fun use :: "('w \<Rightarrow> 'a res \<times> 'w) \<Rightarrow> nat \<Rightarrow> 's \<Rightarrow> 'w \<Rightarrow> 'a res list \<times> 's \<times> 'w" where
  "use ctor 0 v w = ([], v, w)"
| "use ctor (Suc n) v w =
     (case get_instance ctor v w of (r, v1, w1) \<Rightarrow> (case use ctor n v1 w1 of (rs, v2, w2) \<Rightarrow> (r # rs, v2, w2)))"

lemma use_constructed: "object v = Some x \<Longrightarrow> \<exists>v'. use ctor n v w = (replicate n (Inr x), v', w)"
proof (induction n arbitrary: v)
  case (Suc n)
  then obtain v1 where "get_instance ctor v w = (Inr x, v1, w)" "object v1 = Some x" using kept by blast
  moreover from this obtain v2 where "use ctor n v1 w = (replicate n (Inr x), v2, w)" using Suc.IH by blast
  ultimately show ?case by simp
qed simp

text \<open>After the first success the constructor does not run and everybody gets the same object.\<close>

lemma one_object:
  assumes "get_instance ctor v w = (Inr x, v1, w1)"
  shows "\<exists>v2. use ctor' n v1 w1 = (replicate n (Inr x), v2, w1)"
  using returned [OF assms] by (rule use_constructed)

end

interpretation singleton: single_instance Singleton_GetInstance "\<lambda>v. v"
  by unfold_locales (auto simp: Singleton_GetInstance_def split: option.splits prod.splits sum.splits)

interpretation singleton_ptr: single_instance SingletonPtr_GetInstance "map_option fst"
  by unfold_locales (auto simp: SingletonPtr_GetInstance_def split: option.splits prod.splits sum.splits)

subsection \<open>LoggerMgr\<close>

text \<open>The manager is part of the state of the logging system; the variable says whether it has been made.\<close>

definition LoggerMgr_GetInstance :: "io_env \<Rightarrow> unit option \<Rightarrow> log_state \<Rightarrow> unit res \<times> unit option \<times> log_state" where
  "LoggerMgr_GetInstance io =
     Singleton_GetInstance (\<lambda>st. case LoggerManager_new io st of Inl e \<Rightarrow> (Inl e, st) | Inr st' \<Rightarrow> (Inr (), st'))"

definition SYLAR_LOG_ROOT :: "io_env \<Rightarrow> unit option \<Rightarrow> log_state \<Rightarrow> nat res \<times> unit option \<times> log_state" where
  "SYLAR_LOG_ROOT io v st =
     (case LoggerMgr_GetInstance io v st of
        (Inl e, v', st') \<Rightarrow> (Inl e, v', st')
      | (Inr _, v', st') \<Rightarrow> (Inr (mgr_root st'), v', st'))"

definition SYLAR_LOG_NAME :: "io_env \<Rightarrow> string \<Rightarrow> unit option \<Rightarrow> log_state \<Rightarrow> nat res \<times> unit option \<times> log_state" where
  "SYLAR_LOG_NAME io name v st =
     (case LoggerMgr_GetInstance io v st of
        (Inl e, v', st') \<Rightarrow> (Inl e, v', st')
      | (Inr _, v', st') \<Rightarrow> (case LoggerManager_getLogger name st' of (lg, st'') \<Rightarrow> (Inr lg, v', st'')))"

text \<open>The first use of a macro makes the manager, whose state is well-formed; \<open>root\<close> names the root logger.\<close>

lemma first_SYLAR_LOG_ROOT:
  "\<exists>st. LoggerManager_new io (no_loggers out files) = Inr st \<and> wf_state nulls st \<and>
     SYLAR_LOG_ROOT io None (no_loggers out files) = (Inr (mgr_root st), Some (), st) \<and>
     SYLAR_LOG_NAME io ''root'' (Some ()) st = (Inr (mgr_root st), Some (), st)"
proof -
  obtain st where st: "LoggerManager_new io (no_loggers out files) = Inr st" "wf_state nulls st"
    using LoggerManager_new_wf by blast
  then have "smap_find (mgr_loggers st) ''root'' = Some (mgr_root st)" by (simp add: wf_state_def wf_mgr_def)
  with st show ?thesis
    by (simp add: SYLAR_LOG_ROOT_def SYLAR_LOG_NAME_def LoggerMgr_GetInstance_def Singleton_GetInstance_def LoggerManager_getLogger_def)
qed

end
