(* ===== verification/Locks.thy ===== *)
theory Locks
  imports Sync
begin

text \<open>
  The lock classes of \<^verbatim>\<open>sylar/thread.h\<close>: \<open>Mutex\<close>, \<open>Spinlock\<close>, \<open>RWMutex\<close>, \<open>CASLock\<close> and the null locks, what they
  promise to the guards, and the threads that use them through the guards. The pthread functions
  are parameters: given the calling thread, a function that has to wait gives \<open>None\<close>, one that
  returns gives its code and the new lock. The wrappers do not look at the code.
\<close>

subsection \<open>The classes\<close>

text \<open>\<open>pthread_mutex_init\<close>, \<open>_lock\<close>, \<open>_unlock\<close> and \<open>_destroy\<close>, or the functions \<open>pthread_spin\<close> of the same names.\<close>

record 'm mutex_api =
  pt_init :: "int \<times> 'm"
  pt_lock :: "nat \<Rightarrow> 'm \<Rightarrow> (int \<times> 'm) option"
  pt_unlock :: "nat \<Rightarrow> 'm \<Rightarrow> int \<times> 'm"
  pt_destroy :: "'m \<Rightarrow> int \<times> 'm"

record 'r rwlock_api =
  rwl_init :: "int \<times> 'r"
  rwl_rdlock :: "nat \<Rightarrow> 'r \<Rightarrow> (int \<times> 'r) option"
  rwl_wrlock :: "nat \<Rightarrow> 'r \<Rightarrow> (int \<times> 'r) option"
  rwl_unlock :: "nat \<Rightarrow> 'r \<Rightarrow> int \<times> 'r"
  rwl_destroy :: "'r \<Rightarrow> int \<times> 'r"

definition Mutex_new :: "'m mutex_api \<Rightarrow> 'm" where
  "Mutex_new P = snd (pt_init P)"

definition Mutex_lock :: "'m mutex_api \<Rightarrow> nat \<Rightarrow> 'm \<Rightarrow> 'm option" where
  "Mutex_lock P t m = map_option snd (pt_lock P t m)"

definition Mutex_unlock :: "'m mutex_api \<Rightarrow> nat \<Rightarrow> 'm \<Rightarrow> 'm" where
  "Mutex_unlock P t m = snd (pt_unlock P t m)"

definition Mutex_dtor :: "'m mutex_api \<Rightarrow> 'm \<Rightarrow> 'm" where
  "Mutex_dtor P m = snd (pt_destroy P m)"

definition Spinlock_new :: "'m mutex_api \<Rightarrow> 'm" where
  "Spinlock_new P = snd (pt_init P)"

definition Spinlock_lock :: "'m mutex_api \<Rightarrow> nat \<Rightarrow> 'm \<Rightarrow> 'm option" where
  "Spinlock_lock P t m = map_option snd (pt_lock P t m)"

definition Spinlock_unlock :: "'m mutex_api \<Rightarrow> nat \<Rightarrow> 'm \<Rightarrow> 'm" where
  "Spinlock_unlock P t m = snd (pt_unlock P t m)"

definition Spinlock_dtor :: "'m mutex_api \<Rightarrow> 'm \<Rightarrow> 'm" where
  "Spinlock_dtor P m = snd (pt_destroy P m)"

definition NullMutex_lock :: "unit \<Rightarrow> unit option" where
  "NullMutex_lock m = Some ()"

definition NullMutex_unlock :: "unit \<Rightarrow> unit" where
  "NullMutex_unlock m = ()"

definition NullRWMutex_rdlock :: "unit \<Rightarrow> unit option" where
  "NullRWMutex_rdlock m = Some ()"

definition NullRWMutex_wrlock :: "unit \<Rightarrow> unit option" where
  "NullRWMutex_wrlock m = Some ()"

definition NullRWMutex_unlock :: "unit \<Rightarrow> unit" where
  "NullRWMutex_unlock m = ()"

definition RWMutex_new :: "'r rwlock_api \<Rightarrow> 'r" where
  "RWMutex_new A = snd (rwl_init A)"

definition RWMutex_rdlock :: "'r rwlock_api \<Rightarrow> nat \<Rightarrow> 'r \<Rightarrow> 'r option" where
  "RWMutex_rdlock A t m = map_option snd (rwl_rdlock A t m)"

definition RWMutex_wrlock :: "'r rwlock_api \<Rightarrow> nat \<Rightarrow> 'r \<Rightarrow> 'r option" where
  "RWMutex_wrlock A t m = map_option snd (rwl_wrlock A t m)"

definition RWMutex_unlock :: "'r rwlock_api \<Rightarrow> nat \<Rightarrow> 'r \<Rightarrow> 'r" where
  "RWMutex_unlock A t m = snd (rwl_unlock A t m)"

definition RWMutex_dtor :: "'r rwlock_api \<Rightarrow> 'r \<Rightarrow> 'r" where
  "RWMutex_dtor A m = snd (rwl_destroy A m)"

text \<open>
  A class as the template parameter of a guard: a new lock, and its member functions. A call of
  a function the class does not have would not compile.
\<close>

record 'l lock_class =
  lk_new :: "'l"
  lk_calls :: "mutex_call set"
  lk_call :: "nat \<Rightarrow> mutex_call \<Rightarrow> 'l \<Rightarrow> 'l option"

definition Mutex :: "'m mutex_api \<Rightarrow> 'm lock_class" where
  "Mutex P = \<lparr>lk_new = Mutex_new P, lk_calls = {CallLock, CallUnlock},
     lk_call = (\<lambda>t c m. case c of CallLock \<Rightarrow> Mutex_lock P t m | CallUnlock \<Rightarrow> Some (Mutex_unlock P t m) | _ \<Rightarrow> None)\<rparr>"

definition Spinlock :: "'m mutex_api \<Rightarrow> 'm lock_class" where
  "Spinlock P = \<lparr>lk_new = Spinlock_new P, lk_calls = {CallLock, CallUnlock},
     lk_call = (\<lambda>t c m. case c of CallLock \<Rightarrow> Spinlock_lock P t m | CallUnlock \<Rightarrow> Some (Spinlock_unlock P t m) | _ \<Rightarrow> None)\<rparr>"

definition NullMutex :: "unit lock_class" where
  "NullMutex = \<lparr>lk_new = (), lk_calls = {CallLock, CallUnlock},
     lk_call = (\<lambda>t c m. case c of CallLock \<Rightarrow> NullMutex_lock m | CallUnlock \<Rightarrow> Some (NullMutex_unlock m) | _ \<Rightarrow> None)\<rparr>"

definition RWMutex :: "'r rwlock_api \<Rightarrow> 'r lock_class" where
  "RWMutex A = \<lparr>lk_new = RWMutex_new A, lk_calls = {CallRdlock, CallWrlock, CallUnlock},
     lk_call = (\<lambda>t c m. case c of CallRdlock \<Rightarrow> RWMutex_rdlock A t m | CallWrlock \<Rightarrow> RWMutex_wrlock A t m
       | CallUnlock \<Rightarrow> Some (RWMutex_unlock A t m) | _ \<Rightarrow> None)\<rparr>"

definition NullRWMutex :: "unit lock_class" where
  "NullRWMutex = \<lparr>lk_new = (), lk_calls = {CallRdlock, CallWrlock, CallUnlock},
     lk_call = (\<lambda>t c m. case c of CallRdlock \<Rightarrow> NullRWMutex_rdlock m | CallWrlock \<Rightarrow> NullRWMutex_wrlock m
       | CallUnlock \<Rightarrow> Some (NullRWMutex_unlock m) | _ \<Rightarrow> None)\<rparr>"

text \<open>\<open>CASLock\<close> seen from outside: its loop returns with the turn that finds the flag clear.\<close>

definition CASLock :: "bool lock_class" where
  "CASLock = \<lparr>lk_new = m_flag CASLock_new, lk_calls = {CallLock, CallUnlock},
     lk_call = (\<lambda>t c flag. case c of
         CallLock \<Rightarrow> (case test_and_set flag of (old, flag') \<Rightarrow> if old then None else Some flag')
       | CallUnlock \<Rightarrow> Some (m_flag (CASLock_unlock t \<lparr>m_flag = flag, cas_pc = (\<lambda>_. Inside)\<rparr>))
       | _ \<Rightarrow> None)\<rparr>"

subsection \<open>What a lock promises\<close>

text \<open>
  \<open>repr l R W\<close>: the lock can be in state \<open>l\<close> when the threads \<open>R\<close> hold it shared and \<open>W\<close>, if any, holds it
  exclusively. A thread acquires it exclusively only when nobody holds it, shared only when nobody holds
  it exclusively; a free lock can be acquired; and whoever holds it can release it.
\<close>

locale lock_contract =
  fixes L :: "'l lock_class"
    and repr :: "'l \<Rightarrow> nat set \<Rightarrow> nat option \<Rightarrow> bool"
  assumes new: "repr (lk_new L) {} None"
    and shared: "repr l R W \<Longrightarrow> t \<notin> R \<Longrightarrow> W \<noteq> Some t \<Longrightarrow> lk_call L t CallRdlock l = Some l' \<Longrightarrow>
      W = None \<and> repr l' (insert t R) None"
    and exclusive: "repr l R W \<Longrightarrow> t \<notin> R \<Longrightarrow> W \<noteq> Some t \<Longrightarrow> c = CallLock \<or> c = CallWrlock \<Longrightarrow>
      lk_call L t c l = Some l' \<Longrightarrow> R = {} \<and> W = None \<and> repr l' {} (Some t)"
    and free: "repr l {} None \<Longrightarrow> c \<in> lk_calls L \<Longrightarrow> c \<noteq> CallUnlock \<Longrightarrow> \<exists>l'. lk_call L t c l = Some l'"
    and release_shared: "repr l R None \<Longrightarrow> t \<in> R \<Longrightarrow> \<exists>l'. lk_call L t CallUnlock l = Some l' \<and> repr l' (R - {t}) None"
    and release_exclusive: "repr l {} (Some t) \<Longrightarrow> \<exists>l'. lk_call L t CallUnlock l = Some l' \<and> repr l' {} None"

text \<open>
  What POSIX documents of a mutex or a spin lock that is used without errors, with the owner it has:
  locking waits while another thread owns it, and otherwise succeeds; nobody owns one that is destroyed.
\<close>

locale pthread_mutex =
  fixes P :: "'m mutex_api"
    and owner :: "'m \<Rightarrow> nat option"
  assumes init: "fst (pt_init P) = 0 \<and> owner (snd (pt_init P)) = None"
    and lock_free: "owner m = None \<Longrightarrow> \<exists>m'. pt_lock P t m = Some (0, m') \<and> owner m' = Some t"
    and lock_owned: "owner m = Some u \<Longrightarrow> t \<noteq> u \<Longrightarrow> pt_lock P t m = None"
    and unlock: "owner m = Some t \<Longrightarrow> \<exists>m'. pt_unlock P t m = (0, m') \<and> owner m' = None"
    and destroy: "owner m = None \<Longrightarrow> \<exists>m'. pt_destroy P m = (0, m') \<and> owner m' = None"

text \<open>The same for a read-write lock, with its readers and its writer; a waiting writer may hold readers off.\<close>

locale pthread_rwlock =
  fixes A :: "'r rwlock_api"
    and readers :: "'r \<Rightarrow> nat set"
    and writer :: "'r \<Rightarrow> nat option"
  assumes init: "fst (rwl_init A) = 0 \<and> readers (snd (rwl_init A)) = {} \<and> writer (snd (rwl_init A)) = None"
    and rdlock: "rwl_rdlock A t r = Some (rt, r') \<Longrightarrow> t \<notin> readers r \<Longrightarrow> writer r \<noteq> Some t \<Longrightarrow>
      rt = 0 \<and> writer r = None \<and> readers r' = insert t (readers r) \<and> writer r' = None"
    and wrlock: "rwl_wrlock A t r = Some (rt, r') \<Longrightarrow> t \<notin> readers r \<Longrightarrow> writer r \<noteq> Some t \<Longrightarrow>
      rt = 0 \<and> readers r = {} \<and> writer r = None \<and> readers r' = {} \<and> writer r' = Some t"
    and free: "readers r = {} \<Longrightarrow> writer r = None \<Longrightarrow> rwl_rdlock A t r \<noteq> None \<and> rwl_wrlock A t r \<noteq> None"
    and unlock_reader: "t \<in> readers r \<Longrightarrow> writer r = None \<Longrightarrow>
      \<exists>r'. rwl_unlock A t r = (0, r') \<and> readers r' = readers r - {t} \<and> writer r' = None"
    and unlock_writer: "writer r = Some t \<Longrightarrow> readers r = {} \<Longrightarrow>
      \<exists>r'. rwl_unlock A t r = (0, r') \<and> readers r' = {} \<and> writer r' = None"
    and destroy: "readers r = {} \<Longrightarrow> writer r = None \<Longrightarrow>
      \<exists>r'. rwl_destroy A r = (0, r') \<and> readers r' = {} \<and> writer r' = None"

lemmas mutex_defs = Mutex_new_def Mutex_lock_def Mutex_unlock_def Mutex_def
  Spinlock_new_def Spinlock_lock_def Spinlock_unlock_def Spinlock_def

lemma Spinlock_Mutex: "Spinlock P = Mutex P"
  by (auto simp: mutex_defs fun_eq_iff split: mutex_call.splits)

sublocale pthread_mutex \<subseteq> mutex: lock_contract "Mutex P" "\<lambda>m R W. R = {} \<and> owner m = W"
proof unfold_locales
  show "{} = {} \<and> owner (lk_new (Mutex P)) = None" using init by (simp add: mutex_defs)
next
  fix l l' :: 'm and R :: "nat set" and W t c
  assume "R = {} \<and> owner l = W" "W \<noteq> Some t" "c = CallLock \<or> c = CallWrlock" "lk_call (Mutex P) t c l = Some l'"
  then show "R = {} \<and> W = None \<and> {} = {} \<and> owner l' = Some t"
    using lock_free [of l t] lock_owned [of l _ t] by (cases W) (auto simp: mutex_defs)
next
  fix l :: 'm and t c
  assume "{} = {} \<and> owner l = None" "c \<in> lk_calls (Mutex P)" "c \<noteq> CallUnlock"
  then show "\<exists>l'. lk_call (Mutex P) t c l = Some l'" using lock_free [of l t] by (auto simp: mutex_defs)
next
  fix l :: 'm and t
  assume "{} = {} \<and> owner l = Some t"
  then show "\<exists>l'. lk_call (Mutex P) t CallUnlock l = Some l' \<and> {} = {} \<and> owner l' = None"
    using unlock [of l t] by (auto simp: mutex_defs)
qed (simp_all add: mutex_defs)

sublocale pthread_mutex \<subseteq> spinlock: lock_contract "Spinlock P" "\<lambda>m R W. R = {} \<and> owner m = W"
  unfolding Spinlock_Mutex by (rule mutex.lock_contract_axioms)

lemmas rwmutex_defs = RWMutex_new_def RWMutex_rdlock_def RWMutex_wrlock_def RWMutex_unlock_def RWMutex_def

sublocale pthread_rwlock \<subseteq> rwmutex: lock_contract "RWMutex A" "\<lambda>r R W. readers r = R \<and> writer r = W"
proof unfold_locales
  show "readers (lk_new (RWMutex A)) = {} \<and> writer (lk_new (RWMutex A)) = None"
    using init by (simp add: rwmutex_defs)
next
  fix l l' :: 'r and R W t
  assume "readers l = R \<and> writer l = W" "t \<notin> R" "W \<noteq> Some t" "lk_call (RWMutex A) t CallRdlock l = Some l'"
  then show "W = None \<and> readers l' = insert t R \<and> writer l' = None"
    using rdlock [of t l _ l'] by (auto simp: rwmutex_defs)
next
  fix l l' :: 'r and R W t c
  assume "readers l = R \<and> writer l = W" "t \<notin> R" "W \<noteq> Some t" "c = CallLock \<or> c = CallWrlock"
    "lk_call (RWMutex A) t c l = Some l'"
  then show "R = {} \<and> W = None \<and> readers l' = {} \<and> writer l' = Some t"
    using wrlock [of t l _ l'] by (auto simp: rwmutex_defs)
next
  fix l :: 'r and t c
  assume "readers l = {} \<and> writer l = None" "c \<in> lk_calls (RWMutex A)" "c \<noteq> CallUnlock"
  then show "\<exists>l'. lk_call (RWMutex A) t c l = Some l'" using free [of l t] by (auto simp: rwmutex_defs)
next
  fix l :: 'r and R t
  assume "readers l = R \<and> writer l = None" "t \<in> R"
  then obtain l' where "rwl_unlock A t l = (0, l')" "readers l' = R - {t} \<and> writer l' = None"
    using unlock_reader [of t l] by blast
  then show "\<exists>l'. lk_call (RWMutex A) t CallUnlock l = Some l' \<and> readers l' = R - {t} \<and> writer l' = None"
    by (intro exI [of _ l']) (simp add: rwmutex_defs)
next
  fix l :: 'r and t
  assume "readers l = {} \<and> writer l = Some t"
  then obtain l' where "rwl_unlock A t l = (0, l')" "readers l' = {} \<and> writer l' = None"
    using unlock_writer [of l t] by blast
  then show "\<exists>l'. lk_call (RWMutex A) t CallUnlock l = Some l' \<and> readers l' = {} \<and> writer l' = None"
    by (intro exI [of _ l']) (simp add: rwmutex_defs)
qed

interpretation caslock: lock_contract CASLock "\<lambda>flag R W. R = {} \<and> (flag \<longleftrightarrow> W \<noteq> None)"
  by unfold_locales
    (auto simp: CASLock_def CASLock_new_def CASLock_unlock_def test_and_set_def split: if_splits mutex_call.splits)

text \<open>A mutex as its owner, and a read-write lock as its readers and its writer.\<close>

definition posix_mutex :: "nat option mutex_api" where
  "posix_mutex = \<lparr>pt_init = (0, None), pt_lock = (\<lambda>t m. case m of None \<Rightarrow> Some (0, Some t) | Some _ \<Rightarrow> None),
     pt_unlock = (\<lambda>t m. (0, None)), pt_destroy = (\<lambda>m. case m of None \<Rightarrow> (0, None) | Some t \<Rightarrow> (16, Some t))\<rparr>"

definition posix_rwlock :: "(nat list \<times> nat option) rwlock_api" where
  "posix_rwlock = \<lparr>rwl_init = (0, [], None),
     rwl_rdlock = (\<lambda>t (R, W). case W of None \<Rightarrow> Some (0, t # R, None) | Some _ \<Rightarrow> None),
     rwl_wrlock = (\<lambda>t (R, W). if R = [] \<and> W = None then Some (0, [], Some t) else None),
     rwl_unlock = (\<lambda>t (R, W). (0, removeAll t R, None)),
     rwl_destroy = (\<lambda>(R, W). if R = [] \<and> W = None then (0, [], None) else (16, R, W))\<rparr>"

interpretation posix_mutex: pthread_mutex posix_mutex "\<lambda>m. m"
  by unfold_locales (simp_all add: posix_mutex_def)

interpretation posix_rwlock: pthread_rwlock posix_rwlock "\<lambda>(R, W). set R" "\<lambda>(R, W). W"
  by unfold_locales (auto simp: posix_rwlock_def split: option.splits if_splits prod.splits)

subsection \<open>Threads with guards\<close>

text \<open>The three guards as one: which functions are called on the lock is read off the guard.\<close>

datatype guard_kind = Scoped | ReadScoped | WriteScoped

definition guard_new :: "guard_kind \<Rightarrow> guard" where
  "guard_new k = (case k of Scoped \<Rightarrow> ScopedLockImpl_new [] | ReadScoped \<Rightarrow> ReadScopedLockImpl_new []
     | WriteScoped \<Rightarrow> WriteScopedLockImpl_new [])"

definition guard_lock :: "guard_kind \<Rightarrow> guard \<Rightarrow> guard" where
  "guard_lock k = (case k of Scoped \<Rightarrow> ScopedLockImpl_lock | ReadScoped \<Rightarrow> ReadScopedLockImpl_lock
     | WriteScoped \<Rightarrow> WriteScopedLockImpl_lock)"

definition guard_unlock :: "guard_kind \<Rightarrow> guard \<Rightarrow> guard" where
  "guard_unlock k = (case k of Scoped \<Rightarrow> ScopedLockImpl_unlock | ReadScoped \<Rightarrow> ReadScopedLockImpl_unlock
     | WriteScoped \<Rightarrow> WriteScopedLockImpl_unlock)"

definition guard_dtor :: "guard_kind \<Rightarrow> guard \<Rightarrow> guard" where
  "guard_dtor k = (case k of Scoped \<Rightarrow> ScopedLockImpl_dtor | ReadScoped \<Rightarrow> ReadScopedLockImpl_dtor
     | WriteScoped \<Rightarrow> WriteScopedLockImpl_dtor)"

definition acquire :: "guard_kind \<Rightarrow> mutex_call" where
  "acquire k = (case k of Scoped \<Rightarrow> CallLock | ReadScoped \<Rightarrow> CallRdlock | WriteScoped \<Rightarrow> CallWrlock)"

text \<open>Making the calls that a guard function added, in order.\<close>

fun perform :: "'l lock_class \<Rightarrow> nat \<Rightarrow> mutex_call list \<Rightarrow> 'l \<Rightarrow> 'l option" where
  "perform L t [] l = Some l"
| "perform L t (c # cs) l = (case lk_call L t c l of None \<Rightarrow> None | Some l' \<Rightarrow> perform L t cs l')"

definition added :: "guard \<Rightarrow> guard \<Rightarrow> mutex_call list" where
  "added g g' = drop (length (g_calls g)) (g_calls g')"

record 'l guarded =
  gs_lock :: "'l"
  gs_guard :: "nat \<Rightarrow> (guard_kind \<times> guard) option"

definition no_guards :: "'l lock_class \<Rightarrow> 'l guarded" where
  "no_guards L = \<lparr>gs_lock = lk_new L, gs_guard = Map.empty\<rparr>"

text \<open>Each thread has at most one guard on the lock, of any kind, and uses it in any order.\<close>

inductive guard_step :: "'l lock_class \<Rightarrow> 'l guarded \<Rightarrow> 'l guarded \<Rightarrow> bool" for L :: "'l lock_class" where
  step_guard_new: "gs_guard s t = None \<Longrightarrow> g' = guard_new k \<Longrightarrow> perform L t (g_calls g') (gs_lock s) = Some l' \<Longrightarrow>
    guard_step L s \<lparr>gs_lock = l', gs_guard = (gs_guard s)(t \<mapsto> (k, g'))\<rparr>"
| step_guard_lock: "gs_guard s t = Some (k, g) \<Longrightarrow> g' = guard_lock k g \<Longrightarrow> perform L t (added g g') (gs_lock s) = Some l' \<Longrightarrow>
    guard_step L s \<lparr>gs_lock = l', gs_guard = (gs_guard s)(t \<mapsto> (k, g'))\<rparr>"
| step_guard_unlock: "gs_guard s t = Some (k, g) \<Longrightarrow> g' = guard_unlock k g \<Longrightarrow> perform L t (added g g') (gs_lock s) = Some l' \<Longrightarrow>
    guard_step L s \<lparr>gs_lock = l', gs_guard = (gs_guard s)(t \<mapsto> (k, g'))\<rparr>"
| step_guard_dtor: "gs_guard s t = Some (k, g) \<Longrightarrow> g' = guard_dtor k g \<Longrightarrow> perform L t (added g g') (gs_lock s) = Some l' \<Longrightarrow>
    guard_step L s \<lparr>gs_lock = l', gs_guard = (gs_guard s)(t := None)\<rparr>"

text \<open>Who is inside: the threads whose guard is locked.\<close>

definition inside :: "'l guarded \<Rightarrow> guard_kind \<Rightarrow> nat \<Rightarrow> bool" where
  "inside s k t \<longleftrightarrow> (\<exists>g. gs_guard s t = Some (k, g) \<and> m_locked g)"

lemma guard_new_eq: "g_calls (guard_new k) = [acquire k] \<and> m_locked (guard_new k)"
  by (cases k) (simp_all add: guard_new_def acquire_def scoped.new read_scoped.new write_scoped.new)

lemma guard_lock_eq: "guard_lock k g = (if m_locked g then g else \<lparr>m_locked = True, g_calls = g_calls g @ [acquire k]\<rparr>)"
  by (cases k) (simp_all add: guard_lock_def acquire_def scoped.lock read_scoped.lock write_scoped.lock)

lemma guard_unlock_eq: "guard_unlock k g = (if m_locked g then \<lparr>m_locked = False, g_calls = g_calls g @ [CallUnlock]\<rparr> else g)"
  by (cases k) (simp_all add: guard_unlock_def scoped.unlock read_scoped.unlock write_scoped.unlock)

lemma guard_dtor_eq: "guard_dtor k g = guard_unlock k g"
  by (cases k) (simp_all add: guard_dtor_def guard_unlock_def scoped.dtor read_scoped.dtor write_scoped.dtor)

lemmas guard_eqs = guard_new_eq guard_lock_eq guard_unlock_eq guard_dtor_eq

context lock_contract
begin

text \<open>
  The threads \<open>rd\<close> are inside as readers and the threads \<open>wr\<close> alone, and the state of the lock represents that. The rest
  of the development sees the laws of a lock through this relation: it holds of a new lock, and it follows the threads as they
  acquire and release.
\<close>

definition held :: "'l \<Rightarrow> (nat \<Rightarrow> bool) \<Rightarrow> (nat \<Rightarrow> bool) \<Rightarrow> bool" where
  "held l rd wr \<longleftrightarrow> (\<exists>R W. repr l R W \<and> (W = None \<or> R = {}) \<and> (\<forall>t. t \<in> R \<longleftrightarrow> rd t) \<and> (\<forall>t. W = Some t \<longleftrightarrow> wr t))"

lemma heldI: "repr l R W \<Longrightarrow> W = None \<or> R = {} \<Longrightarrow> (\<And>t. t \<in> R \<longleftrightarrow> rd t) \<Longrightarrow> (\<And>t. W = Some t \<longleftrightarrow> wr t) \<Longrightarrow> held l rd wr"
  by (auto simp: held_def)

lemma heldE:
  assumes "held l rd wr"
  obtains R W where "repr l R W" "W = None \<or> R = {}" "\<And>t. t \<in> R \<longleftrightarrow> rd t" "\<And>t. W = Some t \<longleftrightarrow> wr t"
  using assms unfolding held_def by blast

lemma held_new: "(\<And>u. \<not> rd u) \<Longrightarrow> (\<And>u. \<not> wr u) \<Longrightarrow> held (lk_new L) rd wr"
  by (rule heldI [OF new]) simp_all

lemma held_same: "held l rd wr \<Longrightarrow> (\<And>u. rd' u = rd u) \<Longrightarrow> (\<And>u. wr' u = wr u) \<Longrightarrow> held l rd' wr'"
  by (simp add: held_def)

lemma held_alone: "held l rd wr \<Longrightarrow> wr t \<Longrightarrow> \<not> rd u \<and> (wr u \<longleftrightarrow> u = t)"
  by (erule heldE) (metis emptyE option.distinct(1) option.inject)

lemma held_free:
  assumes "held l rd wr" and "\<forall>u. \<not> rd u \<and> \<not> wr u"
  shows "repr l {} None"
proof -
  obtain R W where "repr l R W" "\<And>t. t \<in> R \<longleftrightarrow> rd t" "\<And>t. W = Some t \<longleftrightarrow> wr t" using assms(1) by (auto simp: held_def)
  moreover from this assms(2) have "R = {}" "W = None" by auto
  ultimately show ?thesis by simp
qed

lemma held_shared:
  assumes "held l rd wr" and "\<not> rd t" and "\<not> wr t" and "lk_call L t CallRdlock l = Some l'"
    and "\<And>u. rd' u \<longleftrightarrow> u = t \<or> rd u" and "\<And>u. wr' u = wr u"
  shows "held l' rd' wr'"
proof -
  obtain R W where W: "repr l R W" "\<And>u. u \<in> R \<longleftrightarrow> rd u" "\<And>u. W = Some u \<longleftrightarrow> wr u" using assms(1) by (auto simp: held_def)
  then have "W = None" "repr l' (insert t R) None" using shared [OF W(1) _ _ assms(4)] assms(2,3) by auto
  with W(2,3) assms(5,6) show ?thesis by (intro heldI [of l' "insert t R" None]) auto
qed

lemma held_exclusive:
  assumes "held l rd wr" and "\<not> rd t" and "\<not> wr t" and "lk_call L t c l = Some l'" and "c = CallLock \<or> c = CallWrlock"
    and "\<And>u. rd' u = rd u" and "\<And>u. wr' u \<longleftrightarrow> u = t \<or> wr u"
  shows "held l' rd' wr'" and "\<not> rd u" and "\<not> wr u"
proof -
  obtain R W where W: "repr l R W" "\<And>u. u \<in> R \<longleftrightarrow> rd u" "\<And>u. W = Some u \<longleftrightarrow> wr u" using assms(1) by (auto simp: held_def)
  then have RW: "R = {}" "W = None" and l': "repr l' {} (Some t)" using exclusive [OF W(1) _ _ assms(5,4)] assms(2,3) by auto
  have none: "\<not> rd u" "\<not> wr u" for u using RW W(2,3) by auto
  from none show "\<not> rd u" "\<not> wr u" by simp_all
  from none l' assms(6,7) show "held l' rd' wr'" by (intro heldI [of l' "{}" "Some t"]) auto
qed

lemma held_release:
  assumes "held l rd wr" and "rd t \<or> wr t" and "lk_call L t CallUnlock l = Some l'"
    and "\<And>u. rd' u \<longleftrightarrow> u \<noteq> t \<and> rd u" and "\<And>u. wr' u \<longleftrightarrow> u \<noteq> t \<and> wr u"
  shows "held l' rd' wr'"
proof -
  obtain R W where W: "repr l R W" "W = None \<or> R = {}" "\<And>u. u \<in> R \<longleftrightarrow> rd u" "\<And>u. W = Some u \<longleftrightarrow> wr u"
    using assms(1) by (auto simp: held_def)
  show ?thesis
  proof (cases "rd t")
    case True
    with W have t: "t \<in> R" "W = None" by auto
    with W(1) assms(3) release_shared [of l R t] have "repr l' (R - {t}) None" by auto
    moreover have "\<not> wr u" for u using W(4) t(2) by auto
    ultimately show ?thesis using W(3) assms(4,5) by (intro heldI [of l' "R - {t}" None]) auto
  next
    case False
    with assms(2) W(4) have t: "W = Some t" by auto
    with W(2) have R: "R = {}" by simp
    with W(1) t assms(3) release_exclusive [of l t] have "repr l' {} None" by auto
    moreover have "wr u \<Longrightarrow> u = t" for u using W(4) [of u] t by simp
    moreover have "\<not> rd u" for u using W(3) R by auto
    ultimately show ?thesis using assms(4,5) by (intro heldI [of l' "{}" None]) auto
  qed
qed

lemma held_can_release:
  assumes "held l rd wr" and "rd t \<or> wr t"
  shows "\<exists>l'. lk_call L t CallUnlock l = Some l'"
proof -
  obtain R W where W: "repr l R W" "W = None \<or> R = {}" "\<And>u. u \<in> R \<longleftrightarrow> rd u" "\<And>u. W = Some u \<longleftrightarrow> wr u"
    using assms(1) by (auto simp: held_def)
  show ?thesis
  proof (cases "rd t")
    case True
    with W have "t \<in> R" "W = None" by auto
    with W(1) show ?thesis using release_shared [of l R t] by auto
  next
    case False
    with assms(2) W(2,4) have "W = Some t" "R = {}" by auto
    with W(1) show ?thesis using release_exclusive [of l t] by auto
  qed
qed

text \<open>The same for threads with program counters, of which \<open>rd\<close> and \<open>wr\<close> say where a thread is inside.\<close>

definition held_by :: "'l \<Rightarrow> ('p \<Rightarrow> bool) \<Rightarrow> ('p \<Rightarrow> bool) \<Rightarrow> (nat \<Rightarrow> 'p) \<Rightarrow> bool" where
  "held_by l rd wr pcs \<longleftrightarrow> held l (\<lambda>u. rd (pcs u)) (\<lambda>u. wr (pcs u))"

lemma held_by_new: "(\<And>u. \<not> rd (pcs u)) \<Longrightarrow> (\<And>u. \<not> wr (pcs u)) \<Longrightarrow> held_by (lk_new L) rd wr pcs"
  by (simp add: held_by_def held_new)

lemma held_by_same:
  assumes "held_by l rd wr pcs" and "rd pc = rd (pcs t)" and "wr pc = wr (pcs t)"
  shows "held_by l rd wr (pcs(t := pc))"
  unfolding held_by_def by (rule held_same [OF assms(1) [unfolded held_by_def]]) (simp_all add: assms(2,3))

lemma held_by_shared:
  assumes "held_by l rd wr pcs" and "\<not> rd (pcs t)" and "\<not> wr (pcs t)" and "lk_call L t CallRdlock l = Some l'" and "rd pc" and "\<not> wr pc"
  shows "held_by l' rd wr (pcs(t := pc))"
  unfolding held_by_def
  by (rule held_shared [OF assms(1) [unfolded held_by_def] _ _ assms(4)]) (use assms(2,3,5,6) in auto)

lemma held_by_exclusive:
  assumes "held_by l rd wr pcs" and "\<not> rd (pcs t)" and "\<not> wr (pcs t)" and "lk_call L t c l = Some l'"
    and "c = CallLock \<or> c = CallWrlock" and "\<not> rd pc" and "wr pc"
  shows "held_by l' rd wr (pcs(t := pc))"
  unfolding held_by_def
  by (rule held_exclusive(1) [OF assms(1) [unfolded held_by_def] _ _ assms(4,5)]) (use assms(2,3,6,7) in auto)

lemma held_by_release:
  assumes "held_by l rd wr pcs" and "rd (pcs t) \<or> wr (pcs t)" and "lk_call L t CallUnlock l = Some l'" and "\<not> rd pc" and "\<not> wr pc"
  shows "held_by l' rd wr (pcs(t := pc))"
  unfolding held_by_def
  by (rule held_release [OF assms(1) [unfolded held_by_def] _ assms(3)]) (use assms(2,4,5) in auto)

lemma held_by_alone: "held_by l rd wr pcs \<Longrightarrow> wr (pcs t) \<Longrightarrow> \<not> rd (pcs u) \<and> (wr (pcs u) \<longleftrightarrow> u = t)"
  unfolding held_by_def by (rule held_alone)

text \<open>The guards that are locked hold the lock.\<close>

definition lock_inv :: "'l guarded \<Rightarrow> bool" where
  "lock_inv s \<longleftrightarrow> held (gs_lock s) (inside s ReadScoped) (\<lambda>t. inside s Scoped t \<or> inside s WriteScoped t)"

lemma lock_inv_start: "lock_inv (no_guards L)"
  unfolding lock_inv_def by (simp add: no_guards_def inside_def held_new)

text \<open>Acquiring by a thread that is not inside, and releasing by one that is.\<close>

lemma lock_inv_acquire:
  assumes "lock_inv s" and "\<forall>k. \<not> inside s k t" and "lk_call L t (acquire k) (gs_lock s) = Some l'" and "m_locked g"
  shows "lock_inv \<lparr>gs_lock = l', gs_guard = (gs_guard s)(t \<mapsto> (k, g))\<rparr>"
proof -
  let ?s' = "\<lparr>gs_lock = l', gs_guard = (gs_guard s)(t \<mapsto> (k, g))\<rparr>"
  have ins: "inside ?s' j u \<longleftrightarrow> (if u = t then j = k else inside s j u)" for j u
    using assms(4) by (auto simp: inside_def)
  note inv = assms(1) [unfolded lock_inv_def]
  have "held l' (inside ?s' ReadScoped) (\<lambda>u. inside ?s' Scoped u \<or> inside ?s' WriteScoped u)"
  proof (cases "k = ReadScoped")
    case True
    with assms(3) have l': "lk_call L t CallRdlock (gs_lock s) = Some l'" by (simp add: acquire_def)
    have "inside ?s' ReadScoped u \<longleftrightarrow> u = t \<or> inside s ReadScoped u"
      "inside ?s' Scoped u \<or> inside ?s' WriteScoped u \<longleftrightarrow> inside s Scoped u \<or> inside s WriteScoped u" for u
      using assms(2) by (simp_all only: ins) (simp_all add: True)
    then show ?thesis by (intro held_shared [OF inv _ _ l']) (use assms(2) in blast)+
  next
    case False
    then have c: "acquire k = CallLock \<or> acquire k = CallWrlock" and k: "k = Scoped \<or> k = WriteScoped"
      by (cases k; simp add: acquire_def)+
    have "inside ?s' ReadScoped u \<longleftrightarrow> inside s ReadScoped u"
      "inside ?s' Scoped u \<or> inside ?s' WriteScoped u \<longleftrightarrow> u = t \<or> inside s Scoped u \<or> inside s WriteScoped u" for u
      using assms(2) k by (simp_all only: ins) auto
    then show ?thesis by (intro held_exclusive(1) [OF inv _ _ assms(3) c]) (use assms(2) in blast)+
  qed
  then show ?thesis by (simp add: lock_inv_def)
qed

lemma lock_inv_release:
  assumes "lock_inv s" and "inside s k t" and "lk_call L t CallUnlock (gs_lock s) = Some l'"
    and "\<forall>j g. x = Some (j, g) \<longrightarrow> \<not> m_locked g"
  shows "lock_inv \<lparr>gs_lock = l', gs_guard = (gs_guard s)(t := x)\<rparr>"
proof -
  have ins: "inside \<lparr>gs_lock = l', gs_guard = (gs_guard s)(t := x)\<rparr> j u \<longleftrightarrow> u \<noteq> t \<and> inside s j u" for j u
    using assms(4) by (auto simp: inside_def)
  have "inside s ReadScoped t \<or> inside s Scoped t \<or> inside s WriteScoped t" using assms(2) by (cases k) simp_all
  then show ?thesis unfolding lock_inv_def guarded.select_convs
    by (rule held_release [OF assms(1) [unfolded lock_inv_def] _ assms(3)]) (simp only: ins, blast?)+
qed

lemma lock_inv_step: "lock_inv s \<Longrightarrow> guard_step L s s' \<Longrightarrow> lock_inv s'"
proof -
  assume inv: "lock_inv s"
  have same: "gs_guard s t = Some (k, g) \<Longrightarrow> lock_inv \<lparr>gs_lock = gs_lock s, gs_guard = (gs_guard s)(t \<mapsto> (k, g))\<rparr>" for t k g
    using inv by (cases s) (simp add: fun_upd_idem)
  have drop: "lock_inv \<lparr>gs_lock = gs_lock s, gs_guard = (gs_guard s)(t := None)\<rparr>"
    if "gs_guard s t = Some (k, g)" "\<not> m_locked g" for t k g
  proof -
    have "inside \<lparr>gs_lock = gs_lock s, gs_guard = (gs_guard s)(t := None)\<rparr> = inside s"
      using that by (auto simp: inside_def fun_eq_iff)
    then show ?thesis using inv by (simp add: lock_inv_def)
  qed
  assume "guard_step L s s'"
  then show "lock_inv s'"
  proof cases
    case (step_guard_new t g' k l')
    moreover from this have "\<forall>k. \<not> inside s k t" by (simp add: inside_def)
    ultimately show ?thesis using inv guard_new_eq [of k] by (auto intro!: lock_inv_acquire split: option.splits)
  next
    case (step_guard_lock t k g g' l')
    show ?thesis
    proof (cases "m_locked g")
      case False
      with step_guard_lock have "\<forall>k. \<not> inside s k t" by (simp add: inside_def)
      with False step_guard_lock show ?thesis using inv
        by (auto simp: guard_lock_eq added_def intro!: lock_inv_acquire split: option.splits)
    qed (use step_guard_lock same in \<open>simp add: guard_lock_eq added_def\<close>)
  next
    case (step_guard_unlock t k g g' l')
    show ?thesis
    proof (cases "m_locked g")
      case True
      with step_guard_unlock have "inside s k t" by (simp add: inside_def)
      with True step_guard_unlock show ?thesis using inv
        by (auto simp: guard_unlock_eq added_def intro!: lock_inv_release split: option.splits)
    qed (use step_guard_unlock same in \<open>simp add: guard_unlock_eq added_def\<close>)
  next
    case (step_guard_dtor t k g g' l')
    show ?thesis
    proof (cases "m_locked g")
      case True
      with step_guard_dtor have "inside s k t" by (simp add: inside_def)
      with True step_guard_dtor show ?thesis using inv
        by (auto simp: guard_dtor_eq guard_unlock_eq added_def intro!: lock_inv_release split: option.splits)
    qed (use step_guard_dtor drop in \<open>simp add: guard_dtor_eq guard_unlock_eq added_def\<close>)
  qed
qed

lemma lock_inv_reachable: "(guard_step L)\<^sup>*\<^sup>* (no_guards L) s \<Longrightarrow> lock_inv s"
  by (induction rule: rtranclp_induct) (auto intro: lock_inv_start lock_inv_step)

text \<open>A thread inside exclusively is alone inside.\<close>

lemma exclusion:
  assumes "(guard_step L)\<^sup>*\<^sup>* (no_guards L) s" and "inside s k t" and "inside s j u" and "t \<noteq> u"
  shows "k = ReadScoped \<and> j = ReadScoped"
proof -
  have "lock_inv s" using assms(1) by (rule lock_inv_reachable)
  note alone = held_alone [OF this [unfolded lock_inv_def]]
  show ?thesis using alone [of t u] alone [of u t] assms(2-4) by (cases k; cases j) auto
qed

lemma exclusion_no_readers:
  assumes "\<And>l R W. repr l R W \<Longrightarrow> R = {}"
    and "(guard_step L)\<^sup>*\<^sup>* (no_guards L) s" and "inside s k t" and "inside s j u"
  shows "t = u"
proof (rule ccontr)
  assume "t \<noteq> u"
  with assms(2-4) have "inside s ReadScoped t" using exclusion by blast
  moreover have "lock_inv s" using assms(2) by (rule lock_inv_reachable)
  ultimately show False using assms(1) unfolding lock_inv_def held_def by blast
qed

text \<open>When nobody is inside, the lock is free, and a thread without a guard gets in.\<close>

lemma nobody_inside:
  assumes "(guard_step L)\<^sup>*\<^sup>* (no_guards L) s" and "\<forall>k t. \<not> inside s k t"
  shows "repr (gs_lock s) {} None"
proof -
  have "lock_inv s" using assms(1) by (rule lock_inv_reachable)
  then show ?thesis using assms(2) unfolding lock_inv_def by (blast intro: held_free)
qed

lemma progress:
  assumes "(guard_step L)\<^sup>*\<^sup>* (no_guards L) s" and "\<forall>k t. \<not> inside s k t" and "gs_guard s t = None" and "acquire k \<in> lk_calls L"
  shows "\<exists>s'. guard_step L s s' \<and> inside s' k t"
proof -
  have "repr (gs_lock s) {} None" using assms(1,2) by (rule nobody_inside)
  then obtain l' where l': "lk_call L t (acquire k) (gs_lock s) = Some l'"
    using free [OF _ assms(4)] by (cases k) (auto simp: acquire_def)
  have "guard_step L s \<lparr>gs_lock = l', gs_guard = (gs_guard s)(t \<mapsto> (k, guard_new k))\<rparr>"
    using assms(3) l' guard_new_eq [of k] by (intro step_guard_new) simp_all
  then show ?thesis using guard_new_eq [of k] by (auto simp: inside_def)
qed

end

subsection \<open>Properties\<close>

text \<open>
  A class whose guards exclude each other: in every state the threads can reach, at most one is
  inside, and when nobody is, a thread that constructs a guard gets in.
\<close>

definition guards_exclude :: "'l lock_class \<Rightarrow> bool" where
  "guards_exclude L \<longleftrightarrow> (\<forall>s. (guard_step L)\<^sup>*\<^sup>* (no_guards L) s \<longrightarrow>
     (\<forall>k t j u. inside s k t \<longrightarrow> inside s j u \<longrightarrow> t = u) \<and>
     (\<forall>t. (\<forall>j u. \<not> inside s j u) \<longrightarrow> gs_guard s t = None \<longrightarrow> (\<exists>s'. guard_step L s s' \<and> inside s' Scoped t)))"

text \<open>The same for readers and writers: a writer is alone inside.\<close>

definition guards_exclude_rw :: "'l lock_class \<Rightarrow> bool" where
  "guards_exclude_rw L \<longleftrightarrow> (\<forall>s. (guard_step L)\<^sup>*\<^sup>* (no_guards L) s \<longrightarrow>
     (\<forall>j t u. inside s WriteScoped t \<longrightarrow> inside s j u \<longrightarrow> t = u) \<and>
     (\<forall>k t. k \<noteq> Scoped \<longrightarrow> (\<forall>j u. \<not> inside s j u) \<longrightarrow> gs_guard s t = None \<longrightarrow>
        (\<exists>s'. guard_step L s s' \<and> inside s' k t)))"

lemma guards_excludeD:
  assumes "guards_exclude L" and "(guard_step L)\<^sup>*\<^sup>* (no_guards L) s" and "inside s k t" and "inside s j u"
  shows "t = u"
  using assms(1) [unfolded guards_exclude_def, rule_format, OF assms(2)] assms(3,4) by blast

lemma guards_exclude_rwD:
  assumes "guards_exclude_rw L" and "(guard_step L)\<^sup>*\<^sup>* (no_guards L) s"
  shows "inside s WriteScoped t \<Longrightarrow> inside s j u \<Longrightarrow> t = u"
    and "k \<noteq> Scoped \<Longrightarrow> \<forall>j u. \<not> inside s j u \<Longrightarrow> gs_guard s t = None \<Longrightarrow> \<exists>s'. guard_step L s s' \<and> inside s' k t"
  using assms(1) [unfolded guards_exclude_rw_def, rule_format, OF assms(2)] by blast+

context lock_contract
begin

lemma guards_exclude_no_readers:
  assumes "\<And>l R W. repr l R W \<Longrightarrow> R = {}" and "CallLock \<in> lk_calls L"
  shows "guards_exclude L"
  using exclusion_no_readers [OF assms(1)] progress [of _ _ Scoped] assms(2)
  unfolding guards_exclude_def by (auto simp: acquire_def)

lemma guards_exclude_readers:
  assumes "CallRdlock \<in> lk_calls L" and "CallWrlock \<in> lk_calls L"
  shows "guards_exclude_rw L"
  unfolding guards_exclude_rw_def
proof (intro allI impI conjI)
  fix s j t u
  assume "(guard_step L)\<^sup>*\<^sup>* (no_guards L) s" "inside s WriteScoped t" "inside s j u"
  then show "t = u" using exclusion by blast
next
  fix s k t
  assume "(guard_step L)\<^sup>*\<^sup>* (no_guards L) s" "k \<noteq> Scoped" "\<forall>j u. \<not> inside s j u" "gs_guard s t = None"
  with assms show "\<exists>s'. guard_step L s s' \<and> inside s' k t"
    using progress [of s t k] by (cases k) (auto simp: acquire_def)
qed

end

context pthread_mutex
begin

lemma mutex_exclude: "guards_exclude (Mutex P)"
  by (rule mutex.guards_exclude_no_readers) (simp_all add: Mutex_def)

text \<open>A lock that no guard has locked can be destroyed.\<close>

lemma mutex_dtor:
  assumes "(guard_step (Mutex P))\<^sup>*\<^sup>* (no_guards (Mutex P)) s" and "\<forall>k t. \<not> inside s k t"
  shows "fst (pt_destroy P (gs_lock s)) = 0 \<and> owner (Mutex_dtor P (gs_lock s)) = None"
  using mutex.nobody_inside [OF assms] destroy [of "gs_lock s"] by (auto simp: Mutex_dtor_def)

end

context pthread_rwlock
begin

lemma rwmutex_exclude: "guards_exclude_rw (RWMutex A)"
  by (rule rwmutex.guards_exclude_readers) (simp_all add: RWMutex_def)

lemma rwmutex_dtor:
  assumes "(guard_step (RWMutex A))\<^sup>*\<^sup>* (no_guards (RWMutex A)) s" and "\<forall>k t. \<not> inside s k t"
  shows "fst (rwl_destroy A (gs_lock s)) = 0 \<and> writer (RWMutex_dtor A (gs_lock s)) = None"
  using rwmutex.nobody_inside [OF assms] destroy [of "gs_lock s"] by (auto simp: RWMutex_dtor_def)

end

text \<open>C15. The locks of the logging system exclude: whether it is built with \<open>Mutex\<close>, \<open>Spinlock\<close> or \<open>CASLock\<close>, and
  whatever the threads do with their guards, two threads are never inside together; and when nobody
  is inside, any thread that constructs a guard gets in.\<close>

theorem scoped_guards_exclude:
  assumes "pthread_mutex P owner"
  shows "guards_exclude (Mutex P) \<and> guards_exclude (Spinlock P) \<and> guards_exclude CASLock"
proof -
  have "guards_exclude CASLock" by (rule caslock.guards_exclude_no_readers) (simp_all add: CASLock_def)
  then show ?thesis using pthread_mutex.mutex_exclude [OF assms] by (simp add: Spinlock_Mutex)
qed

text \<open>Two threads at a mutex: the first gets in, the second then does not.\<close>

lemma demo_mutex_step: "guard_step (Mutex posix_mutex) (no_guards (Mutex posix_mutex))
    \<lparr>gs_lock = Some 0, gs_guard = [0 \<mapsto> (Scoped, guard_new Scoped)]\<rparr>"
proof -
  have "guard_step (Mutex posix_mutex) (no_guards (Mutex posix_mutex))
      \<lparr>gs_lock = Some 0, gs_guard = (gs_guard (no_guards (Mutex posix_mutex)))(0 \<mapsto> (Scoped, guard_new Scoped))\<rparr>"
    by (rule step_guard_new)
      (simp_all add: no_guards_def guard_new_eq acquire_def mutex_defs posix_mutex_def)
  then show ?thesis by (simp add: no_guards_def)
qed

theorem scoped_guards_exclude_witness:
  "\<exists>s. (guard_step (Mutex posix_mutex))\<^sup>*\<^sup>* (no_guards (Mutex posix_mutex)) s \<and> inside s Scoped 0 \<and>
     (\<forall>j. \<not> inside s j 1)"
proof -
  let ?s = "\<lparr>gs_lock = Some (0::nat), gs_guard = [0 \<mapsto> (Scoped, guard_new Scoped)]\<rparr>"
  have r: "(guard_step (Mutex posix_mutex))\<^sup>*\<^sup>* (no_guards (Mutex posix_mutex)) ?s"
    using demo_mutex_step by (rule r_into_rtranclp)
  have i: "inside ?s Scoped 0" using guard_new_eq [of Scoped] by (simp add: inside_def)
  have ex: "guards_exclude (Mutex posix_mutex)" using scoped_guards_exclude [OF posix_mutex.pthread_mutex_axioms] by blast
  have "inside ?s j 1 \<Longrightarrow> (0::nat) = 1" for j by (rule guards_excludeD [OF ex r i])
  with r i show ?thesis by auto
qed

text \<open>The null locks do not: they are for builds that give up exclusion.\<close>

lemma null_mutex_not_exclude: "\<not> guards_exclude NullMutex"
proof
  let ?g = "\<lambda>t. (Scoped, guard_new Scoped)"
  let ?s1 = "\<lparr>gs_lock = (), gs_guard = (gs_guard (no_guards NullMutex))(0 \<mapsto> ?g 0)\<rparr>"
  let ?s2 = "\<lparr>gs_lock = (), gs_guard = (gs_guard ?s1)(1 \<mapsto> ?g 1)\<rparr>"
  assume ex: "guards_exclude NullMutex"
  have "guard_step NullMutex (no_guards NullMutex) ?s1"
    by (rule step_guard_new) (simp_all add: no_guards_def guard_new_eq acquire_def NullMutex_def NullMutex_lock_def)
  moreover have "guard_step NullMutex ?s1 ?s2"
    by (rule step_guard_new) (simp_all add: no_guards_def guard_new_eq acquire_def NullMutex_def NullMutex_lock_def)
  ultimately have r: "(guard_step NullMutex)\<^sup>*\<^sup>* (no_guards NullMutex) ?s2"
    by (meson converse_rtranclp_into_rtranclp r_into_rtranclp)
  have "inside ?s2 Scoped 0" "inside ?s2 Scoped 1" using guard_new_eq [of Scoped] by (simp_all add: inside_def)
  from guards_excludeD [OF ex r this] show False by simp
qed

text \<open>C16. The lock of the configuration system separates writers from everybody: with \<open>RWMutex\<close>, a thread with a
  locked write guard is the only one inside, whatever guards the others have; and a free lock
  lets a reader or a writer in.\<close>

theorem rw_guards_exclude:
  assumes "pthread_rwlock A readers writer"
  shows "guards_exclude_rw (RWMutex A)"
  using assms by (rule pthread_rwlock.rwmutex_exclude)

theorem rw_guards_exclude_witness:
  "\<exists>s. guard_step (RWMutex posix_rwlock) (no_guards (RWMutex posix_rwlock)) s \<and> inside s WriteScoped 0 \<and>
     (\<forall>j. \<not> inside s j 1)"
proof -
  let ?L = "RWMutex posix_rwlock"
  have ex: "guards_exclude_rw ?L" by (rule rw_guards_exclude [OF posix_rwlock.pthread_rwlock_axioms])
  have "\<forall>j u. \<not> inside (no_guards ?L) j u" "gs_guard (no_guards ?L) 0 = None" by (simp_all add: inside_def no_guards_def)
  then obtain s where s: "guard_step ?L (no_guards ?L) s" "inside s WriteScoped 0"
    using guards_exclude_rwD(2) [OF ex rtranclp.rtrancl_refl, of WriteScoped 0] by auto
  have r: "(guard_step ?L)\<^sup>*\<^sup>* (no_guards ?L) s" using s(1) by (rule r_into_rtranclp)
  have "inside s j 1 \<Longrightarrow> (0::nat) = 1" for j by (rule guards_exclude_rwD(1) [OF ex r s(2)])
  with s show ?thesis by auto
qed

end
