(* ===== verification/Config_Conc.thy ===== *)
theory Config_Conc
  imports Config_Var Locks
begin

text \<open>
  One \<open>ConfigVar\<close> used by several threads: \<open>setValue\<close> and the functions that change the listeners, statement by
  statement, with the guards of \<^verbatim>\<open>sylar/config.h\<close> on the variable's lock. A guard is acquired where it is
  constructed and released where it goes out of scope, also when a listener throws. The loop over
  \<open>m_cbs\<close> is at a position of the map as it is then.
\<close>

subsection \<open>The threads\<close>

datatype ('v, 'w) cv_update =
    AddListener "('v, 'w) on_change_cb"
  | DelListener "64 word"
  | ClearListener

datatype ('v, 'w) cv_pc =
    CIdle
  | SetWantRead 'v
  | SetCompare 'v
  | SetNotify 'v nat
  | SetLeave "exn option"
  | SetWantWrite 'v
  | SetAssign 'v
  | UpdWant "('v, 'w) cv_update"
  | UpdRun "('v, 'w) cv_update"
  | UpdUnlock

text \<open>
  \<open>cs_notes\<close> records the calls of listeners: the thread, the key of the listener, and the two values it
  was given.
\<close>

record ('v, 'w, 'l) cv_sys =
  cs_lock :: "'l"
  cs_var :: "('v, 'w) config_var"
  cs_fun_id :: "64 word"
  cs_world :: "'w"
  cs_pc :: "nat \<Rightarrow> ('v, 'w) cv_pc"
  cs_notes :: "(nat \<times> 64 word \<times> 'v \<times> 'v) list"

definition cv_start :: "'l lock_class \<Rightarrow> ('v, 'w) config_var \<Rightarrow> 64 word \<Rightarrow> 'w \<Rightarrow> ('v, 'w, 'l) cv_sys" where
  "cv_start L var s_fun_id w = \<lparr>cs_lock = lk_new L, cs_var = var, cs_fun_id = s_fun_id, cs_world = w,
     cs_pc = (\<lambda>_. CIdle), cs_notes = []\<rparr>"

definition at :: "nat \<Rightarrow> ('v, 'w) cv_pc \<Rightarrow> ('v, 'w, 'l) cv_sys \<Rightarrow> ('v, 'w, 'l) cv_sys" where
  "at t pc s = s\<lparr>cs_pc := (cs_pc s)(t := pc)\<rparr>"

text \<open>Calling a function of the lock, then going on at \<open>pc\<close>; \<open>None\<close> while the thread has to wait.\<close>

definition lock_then :: "'l lock_class \<Rightarrow> nat \<Rightarrow> mutex_call \<Rightarrow> ('v, 'w) cv_pc \<Rightarrow> ('v, 'w, 'l) cv_sys \<Rightarrow>
    ('v, 'w, 'l) cv_sys option" where
  "lock_then L t c pc s = map_option (\<lambda>l. at t pc (s\<lparr>cs_lock := l\<rparr>)) (lk_call L t c (cs_lock s))"

text \<open>One iteration of the loop over \<open>m_cbs\<close>.\<close>

definition call_listener :: "nat \<Rightarrow> 'v \<Rightarrow> nat \<Rightarrow> ('v, 'w, 'l) cv_sys \<Rightarrow> ('v, 'w, 'l) cv_sys" where
  "call_listener t v n s =
     (case cv_cbs (cs_var s) ! n of (k, cb) \<Rightarrow>
        (let old = cv_val (cs_var s);
             (e, w) = cb old v (cs_world s);
             s1 = s\<lparr>cs_world := w, cs_notes := cs_notes s @ [(t, k, old, v)]\<rparr>
         in at t (if e = None then SetNotify v (Suc n) else SetLeave e) s1))"

definition apply_update :: "('v, 'w) cv_update \<Rightarrow> ('v, 'w, 'l) cv_sys \<Rightarrow> ('v, 'w, 'l) cv_sys" where
  "apply_update u s =
     (case u of
        AddListener cb \<Rightarrow> (case ConfigVar_addListener cb (cs_fun_id s) (cs_var s) of
          (key, s_fun_id, var) \<Rightarrow> s\<lparr>cs_fun_id := s_fun_id, cs_var := var\<rparr>)
      | DelListener key \<Rightarrow> s\<lparr>cs_var := ConfigVar_delListener key (cs_var s)\<rparr>
      | ClearListener \<Rightarrow> s\<lparr>cs_var := ConfigVar_clearListener (cs_var s)\<rparr>)"

text \<open>The next statement of thread \<open>t\<close>.\<close>

definition cv_run :: "'l lock_class \<Rightarrow> nat \<Rightarrow> ('v, 'w, 'l) cv_sys \<Rightarrow> ('v, 'w, 'l) cv_sys option" where
  "cv_run L t s =
     (case cs_pc s t of
        CIdle \<Rightarrow> None
      | SetWantRead v \<Rightarrow> lock_then L t CallRdlock (SetCompare v) s
      | SetCompare v \<Rightarrow> Some (at t (if v = cv_val (cs_var s) then SetLeave None else SetNotify v 0) s)
      | SetNotify v n \<Rightarrow>
          if n < length (cv_cbs (cs_var s)) then Some (call_listener t v n s)
          else lock_then L t CallUnlock (SetWantWrite v) s
      | SetLeave e \<Rightarrow> lock_then L t CallUnlock CIdle s
      | SetWantWrite v \<Rightarrow> lock_then L t CallWrlock (SetAssign v) s
      | SetAssign v \<Rightarrow> Some (at t UpdUnlock (s\<lparr>cs_var := (cs_var s)\<lparr>cv_val := v\<rparr>\<rparr>))
      | UpdWant u \<Rightarrow> lock_then L t CallWrlock (UpdRun u) s
      | UpdRun u \<Rightarrow> Some (at t UpdUnlock (apply_update u s))
      | UpdUnlock \<Rightarrow> lock_then L t CallUnlock CIdle s)"

text \<open>A thread that is idle may call any of the functions; a thread that is not runs its next statement.\<close>

inductive cv_step :: "'l lock_class \<Rightarrow> ('v, 'w, 'l) cv_sys \<Rightarrow> ('v, 'w, 'l) cv_sys \<Rightarrow> bool" for L :: "'l lock_class" where
  call_setValue: "cs_pc s t = CIdle \<Longrightarrow> cv_step L s (at t (SetWantRead v) s)"
| call_update: "cs_pc s t = CIdle \<Longrightarrow> cv_step L s (at t (UpdWant u) s)"
| run_thread: "cv_run L t s = Some s' \<Longrightarrow> cv_step L s s'"

subsection \<open>Who holds the lock\<close>

definition reading :: "('v, 'w) cv_pc \<Rightarrow> bool" where
  "reading pc = (case pc of SetCompare v \<Rightarrow> True | SetNotify v n \<Rightarrow> True | SetLeave e \<Rightarrow> True | _ \<Rightarrow> False)"

definition writing :: "('v, 'w) cv_pc \<Rightarrow> bool" where
  "writing pc = (case pc of SetAssign v \<Rightarrow> True | UpdRun u \<Rightarrow> True | UpdUnlock \<Rightarrow> True | _ \<Rightarrow> False)"

lemmas pc_simps = reading_def writing_def

text \<open>What a statement does to the lock: nothing, an acquisition, or a release.\<close>

lemma at_simps [simp]:
  "cs_lock (at t pc s) = cs_lock s" "cs_var (at t pc s) = cs_var s" "cs_world (at t pc s) = cs_world s"
  "cs_notes (at t pc s) = cs_notes s" "cs_fun_id (at t pc s) = cs_fun_id s" "cs_pc (at t pc s) = (cs_pc s)(t := pc)"
  by (simp_all add: at_def)

lemma apply_update_frame [simp]:
  "cs_lock (apply_update u s) = cs_lock s" "cs_pc (apply_update u s) = cs_pc s" "cs_notes (apply_update u s) = cs_notes s"
  by (cases u; simp add: apply_update_def ConfigVar_addListener_def Let_def)+

lemma call_listener_eq:
  assumes "cv_cbs (cs_var s) ! n = (k, cb)" and "cb (cv_val (cs_var s)) v (cs_world s) = (e, w)"
  shows "call_listener t v n s = at t (if e = None then SetNotify v (Suc n) else SetLeave e)
    (s\<lparr>cs_world := w, cs_notes := cs_notes s @ [(t, k, cv_val (cs_var s), v)]\<rparr>)"
  using assms by (simp add: call_listener_def Let_def)

lemma call_listener_frame:
  obtains k cb pc w where "cv_cbs (cs_var s) ! n = (k, cb)" "reading pc" "call_listener t v n s = at t pc
    (s\<lparr>cs_world := w, cs_notes := cs_notes s @ [(t, k, cv_val (cs_var s), v)]\<rparr>)" "\<forall>m. pc = SetNotify v m \<longrightarrow> m = Suc n"
proof -
  obtain k cb where n: "cv_cbs (cs_var s) ! n = (k, cb)" by fastforce
  obtain e w where "cb (cv_val (cs_var s)) v (cs_world s) = (e, w)" by fastforce
  from call_listener_eq [OF n this, of t] n show thesis by (intro that) (auto simp: reading_def split: if_splits)
qed

lemma lock_then_Some:
  "lock_then L t c pc s = Some s' \<longleftrightarrow> (\<exists>l. lk_call L t c (cs_lock s) = Some l \<and> s' = at t pc (s\<lparr>cs_lock := l\<rparr>))"
  by (auto simp: lock_then_def)

context lock_contract
begin

definition cv_inv :: "('v, 'w, 'l) cv_sys \<Rightarrow> bool" where
  "cv_inv s \<longleftrightarrow> held_by (cs_lock s) reading writing (cs_pc s)"

lemma cv_inv_start: "cv_inv (cv_start L var f w)"
  by (simp add: cv_inv_def cv_start_def pc_simps held_by_new)

lemma cv_inv_run:
  assumes "cv_inv s" and "cv_run L t s = Some s'"
  shows "cv_inv s'"
proof -
  note inv = assms(1) [unfolded cv_inv_def]
  have listener: "cv_inv (call_listener t v n s)" if pc: "cs_pc s t = SetNotify v n" for v n
  proof -
    obtain k cb pc' w where pc': "reading pc'" "call_listener t v n s = at t pc'
        (s\<lparr>cs_world := w, cs_notes := cs_notes s @ [(t, k, cv_val (cs_var s), v)]\<rparr>)"
      by (rule call_listener_frame [of s n t v])
    from pc'(1) have "\<not> writing pc'" by (cases pc') (simp_all add: pc_simps)
    with pc' pc show ?thesis using held_by_same [OF inv, of pc' t] by (simp add: cv_inv_def pc_simps)
  qed
  show ?thesis using assms(2) listener
    by (cases "cs_pc s t") (auto simp: cv_run_def lock_then_Some cv_inv_def pc_simps held_by_same [OF inv] held_by_shared [OF inv]
        held_by_exclusive [OF inv, where c = CallWrlock] held_by_release [OF inv] split: if_splits)
qed

lemma cv_inv_step: "cv_inv s \<Longrightarrow> cv_step L s s' \<Longrightarrow> cv_inv s'"
  by (erule cv_step.cases) (auto simp: cv_inv_def pc_simps intro!: held_by_same elim: cv_inv_run [unfolded cv_inv_def])

lemma cv_inv_reachable: "(cv_step L)\<^sup>*\<^sup>* (cv_start L var f w) s \<Longrightarrow> cv_inv s"
  by (induction rule: rtranclp_induct) (auto intro: cv_inv_start cv_inv_step)

lemma cv_inv_reading:
  assumes "cv_inv s" and "reading (cs_pc s t)"
  shows "\<not> writing (cs_pc s u)"
  using held_by_alone [of "cs_lock s" reading writing "cs_pc s" u t] assms by (auto simp: cv_inv_def)

end

subsection \<open>Notification\<close>

text \<open>The steps of all the threads while thread \<open>t\<close> keeps its read guard, and the calls \<open>t\<close> made.\<close>

definition during :: "'l lock_class \<Rightarrow> nat \<Rightarrow> ('v, 'w, 'l) cv_sys \<Rightarrow> ('v, 'w, 'l) cv_sys \<Rightarrow> bool" where
  "during L t s s' \<longleftrightarrow> cv_step L s s' \<and> reading (cs_pc s t) \<and> reading (cs_pc s' t)"

definition notes_of :: "nat \<Rightarrow> ('v, 'w, 'l) cv_sys \<Rightarrow> (nat \<times> 64 word \<times> 'v \<times> 'v) list" where
  "notes_of t s = filter (\<lambda>note. fst note = t) (cs_notes s)"

text \<open>Statements of a thread that is not writing keep the variable, and those of others the notes of \<open>t\<close>.\<close>

lemma cv_run_frame:
  assumes "cv_run L u s = Some s'"
  shows "\<not> writing (cs_pc s u) \<Longrightarrow> cs_var s' = cs_var s"
    and "u \<noteq> t \<Longrightarrow> cs_pc s' t = cs_pc s t \<and> notes_of t s' = notes_of t s"
proof -
  have listener: "cs_var (call_listener u v n s) = cs_var s \<and> (u \<noteq> t \<longrightarrow>
      cs_pc (call_listener u v n s) t = cs_pc s t \<and> notes_of t (call_listener u v n s) = notes_of t s)" for v n
    by (rule call_listener_frame [of s n u v]) (simp add: notes_of_def)
  show "\<not> writing (cs_pc s u) \<Longrightarrow> cs_var s' = cs_var s"
    using assms listener by (cases "cs_pc s u") (auto simp: cv_run_def lock_then_Some writing_def split: if_splits)
  show "u \<noteq> t \<Longrightarrow> cs_pc s' t = cs_pc s t \<and> notes_of t s' = notes_of t s"
    using assms listener by (cases "cs_pc s u") (auto simp: cv_run_def lock_then_Some notes_of_def split: if_splits)
qed

context lock_contract
begin

lemma frozen_step:
  assumes "cv_inv s" and "reading (cs_pc s t)" and "cv_step L s s'"
  shows "cs_var s' = cs_var s"
  using assms(3)
proof cases
  case (run_thread u)
  then show ?thesis using cv_run_frame(1) cv_inv_reading [OF assms(1,2)] by blast
qed simp_all

text \<open>One step of any thread, seen from a thread in the loop.\<close>

lemma notify_step:
  assumes "cv_inv s" and "cs_pc s t = SetNotify v n" and "n \<le> length (cv_cbs (cs_var s))" and "during L t s s'"
  shows "cs_pc s' t = SetNotify v n \<and> notes_of t s' = notes_of t s \<or>
    n < length (cv_cbs (cs_var s)) \<and> cs_pc s' t = SetNotify v (Suc n) \<and>
      notes_of t s' = notes_of t s @ [(t, fst (cv_cbs (cs_var s) ! n), cv_val (cs_var s), v)] \<or>
    (\<exists>e. cs_pc s' t = SetLeave e)"
proof -
  have "cv_step L s s'" "reading (cs_pc s' t)" using assms(4) by (simp_all add: during_def)
  from this(1) show ?thesis
  proof cases
    case (run_thread u)
    show ?thesis
    proof (cases "u = t")
      case True
      with run_thread assms(2) \<open>reading (cs_pc s' t)\<close> have n: "n < length (cv_cbs (cs_var s))" "s' = call_listener t v n s"
        by (auto simp: cv_run_def lock_then_Some pc_simps split: if_splits)
      obtain k cb e w where "cv_cbs (cs_var s) ! n = (k, cb)" "cb (cv_val (cs_var s)) v (cs_world s) = (e, w)" by fastforce
      from call_listener_eq [OF this, of t] this n show ?thesis by (cases e) (simp_all add: notes_of_def)
    qed (use run_thread assms(2) cv_run_frame(2) [of L u s s' t] in simp)
  qed (use assms(2) in \<open>auto simp: notes_of_def\<close>)
qed

lemma notify_during:
  assumes "(during L t)\<^sup>*\<^sup>* s s'" and "cv_inv s" and "cs_pc s t = SetNotify v n" and "n \<le> length (cv_cbs (cs_var s))"
  shows "cv_inv s' \<and> cs_var s' = cs_var s \<and>
    ((\<exists>m. cs_pc s' t = SetNotify v m \<and> n \<le> m \<and> m \<le> length (cv_cbs (cs_var s)) \<and>
        notes_of t s' = notes_of t s @
          map (\<lambda>(k, cb). (t, k, cv_val (cs_var s), v)) (take (m - n) (drop n (cv_cbs (cs_var s))))) \<or>
     (\<exists>e. cs_pc s' t = SetLeave e))"
  using assms
proof (induction rule: rtranclp_induct)
  case base
  then show ?case by auto
next
  case (step s1 s2)
  let ?cbs = "cv_cbs (cs_var s)"
  have st: "cv_step L s1 s2" "reading (cs_pc s1 t)" "reading (cs_pc s2 t)" using step.hyps by (simp_all add: during_def)
  have s1: "cv_inv s1" "cs_var s1 = cs_var s" using step by simp_all
  have "cv_inv s2" "cs_var s2 = cs_var s" using s1 frozen_step [OF s1(1) st(2,1)] cv_inv_step [OF s1(1) st(1)] by simp_all
  moreover have "(\<exists>m. cs_pc s2 t = SetNotify v m \<and> n \<le> m \<and> m \<le> length ?cbs \<and> notes_of t s2 = notes_of t s @
        map (\<lambda>(k, cb). (t, k, cv_val (cs_var s), v)) (take (m - n) (drop n ?cbs))) \<or> (\<exists>e. cs_pc s2 t = SetLeave e)"
  proof (cases "\<exists>e. cs_pc s1 t = SetLeave e")
    case True
    from st(1) show ?thesis
    proof cases
      case (run_thread u)
      show ?thesis
      proof (cases "u = t")
        case True
        with run_thread \<open>\<exists>e. cs_pc s1 t = SetLeave e\<close> st(3) show ?thesis
          by (auto simp: cv_run_def lock_then_Some pc_simps)
      qed (use run_thread True cv_run_frame(2) [of L u s1 s2 t] in simp)
    qed (use True in auto)
  next
    case False
    with step obtain m where m: "cs_pc s1 t = SetNotify v m" "n \<le> m" "m \<le> length ?cbs"
      "notes_of t s1 = notes_of t s @ map (\<lambda>(k, cb). (t, k, cv_val (cs_var s), v)) (take (m - n) (drop n ?cbs))" by auto
    have more: "take (Suc m - n) (drop n ?cbs) = take (m - n) (drop n ?cbs) @ [?cbs ! m]" if "m < length ?cbs"
      using that m(2) by (simp add: Suc_diff_le take_Suc_conv_app_nth)
    show ?thesis using notify_step [OF s1(1) m(1) _ step.hyps(2)] m s1(2) more
      by (auto simp: split_beta)
  qed
  ultimately show ?case by simp
qed

subsection \<open>One thread alone\<close>

text \<open>The loop run by one thread is \<open>notify\<close>.\<close>

lemma notify_run:
  assumes "cs_pc s t = SetNotify v n" and "n \<le> length (cv_cbs (cs_var s))"
    and "notify (drop n (cv_cbs (cs_var s))) (cv_val (cs_var s)) v (cs_world s) = (e, w')"
  shows "\<exists>s'. (cv_step L)\<^sup>*\<^sup>* s s' \<and> cs_lock s' = cs_lock s \<and> cs_var s' = cs_var s \<and> cs_world s' = w' \<and>
    cs_pc s' t = (if e = None then SetNotify v (length (cv_cbs (cs_var s))) else SetLeave e)"
  using assms
proof (induction "length (cv_cbs (cs_var s)) - n" arbitrary: s n)
  case 0
  then show ?case by (intro exI [of _ s]) simp
next
  case (Suc d)
  then have n: "n < length (cv_cbs (cs_var s))" by simp
  obtain k cb where kcb: "cv_cbs (cs_var s) ! n = (k, cb)" by fastforce
  obtain e1 w1 where cb: "cb (cv_val (cs_var s)) v (cs_world s) = (e1, w1)" by fastforce
  note eq = call_listener_eq [OF kcb cb, of t]
  let ?s1 = "call_listener t v n s"
  have drop: "drop n (cv_cbs (cs_var s)) = (k, cb) # drop (Suc n) (cv_cbs (cs_var s))"
    using n kcb by (metis Cons_nth_drop_Suc)
  have step: "cv_step L s ?s1" using n Suc.prems(1) by (intro run_thread [of L t]) (simp add: cv_run_def)
  show ?case
  proof (cases e1)
    case None
    have "\<exists>s'. (cv_step L)\<^sup>*\<^sup>* ?s1 s' \<and> cs_lock s' = cs_lock ?s1 \<and> cs_var s' = cs_var ?s1 \<and> cs_world s' = w' \<and>
        cs_pc s' t = (if e = None then SetNotify v (length (cv_cbs (cs_var ?s1))) else SetLeave e)"
      using Suc.hyps(2) n Suc.prems(3) cb drop None by (intro Suc.hyps(1) [of ?s1 "Suc n"]) (simp_all add: eq)
    with step None show ?thesis by (auto simp: eq intro: converse_rtranclp_into_rtranclp)
  next
    case (Some x)
    with Suc.prems(3) cb drop have "e = Some x" "w' = w1" by simp_all
    with step Some show ?thesis by (intro exI [of _ ?s1]) (simp add: eq r_into_rtranclp)
  qed
qed

lemma setValue_alone:
  assumes "repr (cs_lock s) {} None" and "cs_pc s t = CIdle" and "{CallRdlock, CallWrlock} \<subseteq> lk_calls L"
    and "ConfigVar_setValue v (cs_var s) (cs_world s) = (e, var', w')"
  shows "\<exists>s'. (cv_step L)\<^sup>*\<^sup>* s s' \<and> cs_pc s' t = CIdle \<and> cs_var s' = var' \<and> cs_world s' = w'"
proof -
  obtain l1 where l1: "lk_call L t CallRdlock (cs_lock s) = Some l1"
    using free [OF assms(1), of CallRdlock t] assms(3) by auto
  then have r1: "repr l1 {t} None" using shared [OF assms(1) _ _ l1] by simp
  let ?s1 = "at t (SetCompare v) ((at t (SetWantRead v) s)\<lparr>cs_lock := l1\<rparr>)"
  let ?s2 = "at t (if v = cv_val (cs_var s) then SetLeave None else SetNotify v 0) ?s1"
  have "cv_step L s (at t (SetWantRead v) s)" using assms(2) by (rule call_setValue)
  moreover have "cv_step L (at t (SetWantRead v) s) ?s1"
    by (rule run_thread [of _ t]) (simp add: cv_run_def lock_then_Some l1)
  moreover have "cv_step L ?s1 ?s2" by (rule run_thread [of _ t]) (simp add: cv_run_def)
  ultimately have s2: "(cv_step L)\<^sup>*\<^sup>* s ?s2" by (meson converse_rtranclp_into_rtranclp r_into_rtranclp)
  have leave: "\<exists>s'. (cv_step L)\<^sup>*\<^sup>* s s' \<and> cs_pc s' t = CIdle \<and> cs_var s' = cs_var u \<and> cs_world s' = cs_world u"
    if "(cv_step L)\<^sup>*\<^sup>* s u" "cs_pc u t = SetLeave x" "cs_lock u = l1" for u x
  proof -
    obtain l2 where "lk_call L t CallUnlock l1 = Some l2" using release_shared [OF r1, of t] by auto
    then have "cv_step L u (at t CIdle (u\<lparr>cs_lock := l2\<rparr>))"
      using that by (intro run_thread [of _ t]) (simp add: cv_run_def lock_then_Some)
    then show ?thesis using that(1) by (intro exI [of _ "at t CIdle (u\<lparr>cs_lock := l2\<rparr>)"]) simp
  qed
  show ?thesis
  proof (cases "v = cv_val (cs_var s)")
    case True
    then show ?thesis using leave [OF s2, of None] assms(4) by (simp add: ConfigVar_setValue_def)
  next
    case False
    obtain e1 w1 where n: "notify (cv_cbs (cs_var s)) (cv_val (cs_var s)) v (cs_world s) = (e1, w1)" by fastforce
    then obtain s3 where "(cv_step L)\<^sup>*\<^sup>* ?s2 s3" and s3: "cs_lock s3 = l1" "cs_var s3 = cs_var s" "cs_world s3 = w1"
      "cs_pc s3 t = (if e1 = None then SetNotify v (length (cv_cbs (cs_var s))) else SetLeave e1)"
      using notify_run [of ?s2 t v 0 e1 w1] False by auto
    then have run: "(cv_step L)\<^sup>*\<^sup>* s s3" using s2 by simp
    show ?thesis
    proof (cases e1)
      case (Some x)
      then show ?thesis using leave [OF run, of e1] s3 assms(4) n False by (simp add: ConfigVar_setValue_def)
    next
      case None
      obtain l2 where l2: "lk_call L t CallUnlock l1 = Some l2" "repr l2 {} None" using release_shared [OF r1, of t] by auto
      obtain l3 where l3: "lk_call L t CallWrlock l2 = Some l3" using free [OF l2(2), of CallWrlock t] assms(3) by auto
      have "repr l3 {} (Some t)" using exclusive [OF l2(2) _ _ _ l3] by simp
      then obtain l4 where l4: "lk_call L t CallUnlock l3 = Some l4" using release_exclusive by blast
      let ?s4 = "at t (SetWantWrite v) (s3\<lparr>cs_lock := l2\<rparr>)"
      let ?s5 = "at t (SetAssign v) (?s4\<lparr>cs_lock := l3\<rparr>)"
      let ?s6 = "at t UpdUnlock (?s5\<lparr>cs_var := (cs_var s)\<lparr>cv_val := v\<rparr>\<rparr>)"
      let ?s7 = "at t CIdle (?s6\<lparr>cs_lock := l4\<rparr>)"
      have "cv_step L s3 ?s4" "cv_step L ?s4 ?s5" "cv_step L ?s5 ?s6" "cv_step L ?s6 ?s7"
        by (rule run_thread [of _ t], simp add: cv_run_def lock_then_Some s3 None l2 l3 l4)+
      with run have "(cv_step L)\<^sup>*\<^sup>* s ?s7" by (meson rtranclp.rtrancl_into_rtrancl)
      then show ?thesis using assms(4) n False None s3 by (intro exI [of _ ?s7]) (simp add: ConfigVar_setValue_def)
    qed
  qed
qed

end

context pthread_rwlock
begin

lemma notify_during_rw:
  assumes "(cv_step (RWMutex A))\<^sup>*\<^sup>* (cv_start (RWMutex A) var s_fun_id w) s" and "cs_pc s t = SetNotify v 0"
    and "(during (RWMutex A) t)\<^sup>*\<^sup>* s s'"
  shows "cs_var s' = cs_var s \<and> (\<forall>n. cs_pc s' t = SetNotify v n \<longrightarrow> n \<le> length (cv_cbs (cs_var s)) \<and>
    notes_of t s' = notes_of t s @ map (\<lambda>(k, cb). (t, k, cv_val (cs_var s), v)) (take n (cv_cbs (cs_var s))))"
  using rwmutex.notify_during [OF assms(3) rwmutex.cv_inv_reachable [OF assms(1)] assms(2)] by auto

lemma setValue_alone_rw:
  assumes "ConfigVar_setValue v var w = (e, var', w')"
  shows "\<exists>s. (cv_step (RWMutex A))\<^sup>*\<^sup>* (cv_start (RWMutex A) var s_fun_id w) s \<and> cs_pc s t = CIdle \<and>
    cs_var s = var' \<and> cs_world s = w'"
  using rwmutex.setValue_alone [of "cv_start (RWMutex A) var s_fun_id w" t v e var' w'] rwmutex.new assms
  by (simp add: cv_start_def RWMutex_def)

end

text \<open>Running the threads one statement at a time, in the order of a schedule.\<close>

fun cv_schedule :: "'l lock_class \<Rightarrow> nat list \<Rightarrow> ('v, 'w, 'l) cv_sys \<Rightarrow> ('v, 'w, 'l) cv_sys option" where
  "cv_schedule L [] s = Some s"
| "cv_schedule L (t # ts) s = (case cv_run L t s of None \<Rightarrow> None | Some s' \<Rightarrow> cv_schedule L ts s')"

lemma cv_schedule_steps: "cv_schedule L ts s = Some s' \<Longrightarrow> (cv_step L)\<^sup>*\<^sup>* s s'"
  by (induction L ts s rule: cv_schedule.induct)
    (auto split: option.splits intro: converse_rtranclp_into_rtranclp run_thread)

subsection \<open>Properties\<close>

text \<open>C14. While a thread notifies the listeners of a change, the variable stands still: whatever the other threads
  call meanwhile, neither the value nor the listeners change until it gives up its read guard, and
  the calls it makes are the listeners in the order of their keys, each with the value the variable has
  and the value to come.\<close>

theorem notify_loop_atomic:
  assumes "pthread_rwlock A readers writer"
    and "(cv_step (RWMutex A))\<^sup>*\<^sup>* (cv_start (RWMutex A) var s_fun_id w) s" and "cs_pc s t = SetNotify v 0"
    and "(during (RWMutex A) t)\<^sup>*\<^sup>* s s'"
  shows "cs_var s' = cs_var s \<and> (\<forall>n. cs_pc s' t = SetNotify v n \<longrightarrow> n \<le> length (cv_cbs (cs_var s)) \<and>
    notes_of t s' = notes_of t s @ map (\<lambda>(k, cb). (t, k, cv_val (cs_var s), v)) (take n (cv_cbs (cs_var s))))"
  using assms by (rule pthread_rwlock.notify_during_rw)

text \<open>A listener that keeps the pairs of values it is given, and a variable with that listener alone.\<close>

definition recorder :: "(int, (int \<times> int) list) on_change_cb" where
  "recorder old new w = (None, w @ [(old, new)])"

definition recorded :: "int config_type \<Rightarrow> (int, (int \<times> int) list) config_var" where
  "recorded T = (ConfigVar_new T ''x'' 0 [])\<lparr>cv_cbs := [(1, recorder)]\<rparr>"

text \<open>Threads 0 and 1 have called the functions that \<open>pc\<close> and \<open>pc'\<close> begin.\<close>

definition called :: "(int, (int \<times> int) list) cv_pc \<Rightarrow> (int, (int \<times> int) list) cv_pc \<Rightarrow> int config_type \<Rightarrow>
    (int, (int \<times> int) list, nat list \<times> nat option) cv_sys" where
  "called pc pc' T = at 1 pc' (at 0 pc (cv_start (RWMutex posix_rwlock) (recorded T) 1 []))"

lemmas run_simps = called_def cv_start_def at_def recorded_def ConfigVar_new_def recorder_def cv_run_def lock_then_def
  call_listener_def posix_rwlock_def rwmutex_defs

lemma called_steps:
  "(cv_step (RWMutex posix_rwlock))\<^sup>*\<^sup>* (cv_start (RWMutex posix_rwlock) (recorded T) 1 []) (called (SetWantRead v) (SetWantRead v') T)"
  "(cv_step (RWMutex posix_rwlock))\<^sup>*\<^sup>* (cv_start (RWMutex posix_rwlock) (recorded T) 1 []) (called (SetWantRead v) (UpdWant u) T)"
proof -
  let ?s = "cv_start (RWMutex posix_rwlock) (recorded T) 1 []"
  have "cv_step (RWMutex posix_rwlock) ?s (at 0 (SetWantRead v) ?s)"
    by (rule call_setValue) (simp add: cv_start_def)
  moreover have "cv_step (RWMutex posix_rwlock) (at 0 (SetWantRead v) ?s) (called (SetWantRead v) (SetWantRead v') T)"
    unfolding called_def by (rule call_setValue) (simp add: cv_start_def)
  moreover have "cv_step (RWMutex posix_rwlock) (at 0 (SetWantRead v) ?s) (called (SetWantRead v) (UpdWant u) T)"
    unfolding called_def by (rule call_update) (simp add: cv_start_def)
  ultimately show
    "(cv_step (RWMutex posix_rwlock))\<^sup>*\<^sup>* ?s (called (SetWantRead v) (SetWantRead v') T)"
    "(cv_step (RWMutex posix_rwlock))\<^sup>*\<^sup>* ?s (called (SetWantRead v) (UpdWant u) T)"
    by (meson converse_rtranclp_into_rtranclp r_into_rtranclp)+
qed

theorem notify_loop_atomic_witness:
  "\<forall>T. \<exists>s s'. (cv_step (RWMutex posix_rwlock))\<^sup>*\<^sup>* (cv_start (RWMutex posix_rwlock) (recorded T) 1 []) s \<and>
     cs_pc s 0 = SetNotify 5 0 \<and> cs_pc s 1 = UpdWant ClearListener \<and> (during (RWMutex posix_rwlock) 0)\<^sup>*\<^sup>* s s' \<and>
     cs_pc s' 0 = SetNotify 5 1 \<and> cs_var s' = recorded T \<and> notes_of 0 s' = [(0, 1, 0, 5)]"
proof
  fix T
  let ?L = "RWMutex posix_rwlock"
  obtain s where s: "cv_schedule ?L [0, 0] (called (SetWantRead 5) (UpdWant ClearListener) T) = Some s"
    "cs_pc s 0 = SetNotify 5 0" "cs_pc s 1 = UpdWant ClearListener" "cs_var s = recorded T" "notes_of 0 s = []"
    by (simp add: run_simps notes_of_def)
  have reach: "(cv_step ?L)\<^sup>*\<^sup>* (cv_start ?L (recorded T) 1 []) s"
    using called_steps(2) cv_schedule_steps [OF s(1)] by (rule rtranclp_trans)
  let ?s' = "call_listener 0 5 0 s"
  have s': "cs_pc ?s' 0 = SetNotify 5 1"
    using s(4) by (simp add: call_listener_def recorded_def recorder_def ConfigVar_new_def)
  have "cv_step ?L s ?s'" using s(2,4) by (intro run_thread [of _ 0]) (simp add: cv_run_def recorded_def)
  with s(2) s' have d: "(during ?L 0)\<^sup>*\<^sup>* s ?s'" by (intro r_into_rtranclp) (simp add: during_def reading_def)
  from notify_loop_atomic [OF posix_rwlock.pthread_rwlock_axioms reach s(2) d] s s'
  have "cs_var ?s' = recorded T" "notes_of 0 ?s' = [(0, 1, 0, 5)]" by (simp_all add: recorded_def ConfigVar_new_def)
  with reach s(2,3) s' d show "\<exists>s s'. (cv_step ?L)\<^sup>*\<^sup>* (cv_start ?L (recorded T) 1 []) s \<and>
     cs_pc s 0 = SetNotify 5 0 \<and> cs_pc s 1 = UpdWant ClearListener \<and> (during ?L 0)\<^sup>*\<^sup>* s s' \<and>
     cs_pc s' 0 = SetNotify 5 1 \<and> cs_var s' = recorded T \<and> notes_of 0 s' = [(0, 1, 0, 5)]" by blast
qed

text \<open>C37. Two threads that set a variable at the same time can leave its listeners with the wrong value: the guard of the
  notification is given up before the one of the assignment is taken, so with values 1 and 2 both threads
  can return with the listener told last that the value is now 2, and told both times that it was 0,
  while the variable is 1.\<close>

theorem setValue_not_atomic:
  "\<exists>s. (cv_step (RWMutex posix_rwlock))\<^sup>*\<^sup>* (cv_start (RWMutex posix_rwlock) (recorded T) 1 []) s \<and>
     (\<forall>t. cs_pc s t = CIdle) \<and> cs_notes s = [(0, 1, 0, 1), (1, 1, 0, 2)] \<and> cv_val (cs_var s) = 1"
proof -
  let ?L = "RWMutex posix_rwlock"
  obtain s where s: "cv_schedule ?L [0, 0, 0, 0, 1, 1, 1, 1, 1, 1, 1, 0, 0, 0] (called (SetWantRead 1) (SetWantRead 2) T) = Some s"
    "\<forall>t. cs_pc s t = CIdle" "cs_notes s = [(0, 1, 0, 1), (1, 1, 0, 2)]" "cv_val (cs_var s) = 1"
    by (simp add: run_simps)
  have "(cv_step ?L)\<^sup>*\<^sup>* (cv_start ?L (recorded T) 1 []) s"
    using called_steps(1) cv_schedule_steps [OF s(1)] by (rule rtranclp_trans)
  with s(2-4) show ?thesis by blast
qed

end
