(* ===== verification/Config_Race.thy ===== *)
theory Config_Race
  imports Config_Registry Locks
begin

text \<open>
  What the locks of \<^verbatim>\<open>sylar/config.h\<close> do not cover. \<open>addListener\<close> numbers the listeners with a static counter that all
  the variables of a type share, under the lock of one variable; \<open>Lookup\<close> with a default looks a name up and registers
  it in two critical sections. Both functions are cut where another thread can run.
\<close>

subsection \<open>addListener\<close>

text \<open>
  Each access to the counter \<open>s_fun_id\<close> is a step: the increment reads it and then writes it, the
  subscript reads it, and the result is read from it, before the guard goes.
\<close>

datatype ('v, 'w) add_pc =
    AddIdle
  | AddLock nat "('v, 'w) on_change_cb"
  | AddRead nat "('v, 'w) on_change_cb"
  | AddWrite nat "('v, 'w) on_change_cb" "64 word"
  | AddInsert nat "('v, 'w) on_change_cb"
  | AddResult nat
  | AddUnlock nat "64 word"

text \<open>The variables of one type with their locks, the counter, and the calls that have returned: variable and result.\<close>

record ('v, 'w, 'l) add_sys =
  as_lock :: "nat \<Rightarrow> 'l"
  as_var :: "nat \<Rightarrow> ('v, 'w) config_var"
  s_fun_id :: "64 word"
  as_pc :: "nat \<Rightarrow> ('v, 'w) add_pc"
  as_results :: "(nat \<times> 64 word) list"

definition add_at :: "nat \<Rightarrow> ('v, 'w) add_pc \<Rightarrow> ('v, 'w, 'l) add_sys \<Rightarrow> ('v, 'w, 'l) add_sys" where
  "add_at t pc s = s\<lparr>as_pc := (as_pc s)(t := pc)\<rparr>"

definition add_run :: "'l lock_class \<Rightarrow> nat \<Rightarrow> ('v, 'w, 'l) add_sys \<Rightarrow> ('v, 'w, 'l) add_sys option" where
  "add_run L t s =
     (case as_pc s t of
        AddIdle \<Rightarrow> None
      | AddLock i cb \<Rightarrow>
          map_option (\<lambda>l. add_at t (AddRead i cb) (s\<lparr>as_lock := (as_lock s)(i := l)\<rparr>)) (lk_call L t CallWrlock (as_lock s i))
      | AddRead i cb \<Rightarrow> Some (add_at t (AddWrite i cb (s_fun_id s)) s)
      | AddWrite i cb x \<Rightarrow> Some (add_at t (AddInsert i cb) (s\<lparr>s_fun_id := x + 1\<rparr>))
      | AddInsert i cb \<Rightarrow>
          Some (add_at t (AddResult i)
            (s\<lparr>as_var := (as_var s)(i := (as_var s i)\<lparr>cv_cbs := smap_set (s_fun_id s) cb (cv_cbs (as_var s i))\<rparr>)\<rparr>))
      | AddResult i \<Rightarrow> Some (add_at t (AddUnlock i (s_fun_id s)) s)
      | AddUnlock i key \<Rightarrow>
          map_option (\<lambda>l. add_at t AddIdle (s\<lparr>as_lock := (as_lock s)(i := l), as_results := as_results s @ [(i, key)]\<rparr>))
            (lk_call L t CallUnlock (as_lock s i)))"

inductive add_step :: "'l lock_class \<Rightarrow> ('v, 'w, 'l) add_sys \<Rightarrow> ('v, 'w, 'l) add_sys \<Rightarrow> bool" for L :: "'l lock_class" where
  call_addListener: "as_pc s t = AddIdle \<Longrightarrow> add_step L s (add_at t (AddLock i cb) s)"
| run_addListener: "add_run L t s = Some s' \<Longrightarrow> add_step L s s'"

text \<open>A schedule says which thread runs next, or which one calls \<open>addListener\<close>, with the variable and the listener.\<close>

datatype ('v, 'w) add_move = Run nat | Call nat nat "('v, 'w) on_change_cb"

fun add_schedule :: "'l lock_class \<Rightarrow> ('v, 'w) add_move list \<Rightarrow> ('v, 'w, 'l) add_sys \<Rightarrow> ('v, 'w, 'l) add_sys option" where
  "add_schedule L [] s = Some s"
| "add_schedule L (Run t # ms) s = (case add_run L t s of None \<Rightarrow> None | Some s' \<Rightarrow> add_schedule L ms s')"
| "add_schedule L (Call t i cb # ms) s =
     (case as_pc s t of AddIdle \<Rightarrow> add_schedule L ms (add_at t (AddLock i cb) s) | _ \<Rightarrow> None)"

lemma add_schedule_steps: "add_schedule L ms s = Some s' \<Longrightarrow> (add_step L)\<^sup>*\<^sup>* s s'"
  by (induction L ms s rule: add_schedule.induct)
    (auto split: option.splits add_pc.splits intro: converse_rtranclp_into_rtranclp run_addListener call_addListener)

lemma add_schedule_append:
  "add_schedule L (ms @ ms') s = (case add_schedule L ms s of None \<Rightarrow> None | Some s' \<Rightarrow> add_schedule L ms' s')"
  by (induction L ms s rule: add_schedule.induct) (auto split: option.splits add_pc.splits)

definition whole_call :: "nat \<Rightarrow> nat \<Rightarrow> ('v, 'w) on_change_cb \<Rightarrow> ('v, 'w) add_move list" where
  "whole_call t i cb = Call t i cb # replicate 6 (Run t)"

lemma replicate_6: "replicate 6 x = [x, x, x, x, x, x]"
  by (simp add: numeral_eq_Suc)

context lock_contract
begin

text \<open>Without interruption the steps are \<open>ConfigVar_addListener\<close>.\<close>

lemma addListener_alone:
  assumes "repr (as_lock s i) {} None" and "CallWrlock \<in> lk_calls L" and "as_pc s t = AddIdle"
    and "ConfigVar_addListener cb (s_fun_id s) (as_var s i) = (key, f', var')"
  shows "\<exists>l. repr l {} None \<and> add_schedule L (whole_call t i cb) s =
    Some (s\<lparr>as_lock := (as_lock s)(i := l), as_var := (as_var s)(i := var'), s_fun_id := f', as_results := as_results s @ [(i, key)]\<rparr>)"
proof -
  obtain l1 where l1: "lk_call L t CallWrlock (as_lock s i) = Some l1"
    using free [OF assms(1,2), of t] by auto
  then have "repr l1 {} (Some t)" using exclusive [OF assms(1) _ _ _ l1] by simp
  then obtain l2 where l2: "lk_call L t CallUnlock l1 = Some l2" "repr l2 {} None" using release_exclusive by blast
  have idle: "(as_pc s)(t := AddIdle) = as_pc s" using assms(3) by auto
  show ?thesis using assms(3,4) l1 l2 idle
    by (intro exI [of _ l2]) (auto simp: whole_call_def replicate_6 add_run_def add_at_def ConfigVar_addListener_def Let_def)
qed

end

text \<open>The variables of one type at their creation.\<close>

definition add_start :: "'l lock_class \<Rightarrow> (nat \<Rightarrow> ('v, 'w) config_var) \<Rightarrow> ('v, 'w, 'l) add_sys" where
  "add_start L vars = \<lparr>as_lock = (\<lambda>_. lk_new L), as_var = vars, s_fun_id = 0, as_pc = (\<lambda>_. AddIdle), as_results = []\<rparr>"

text \<open>C38. Listeners can be lost: while one thread is in the middle of the increment in \<open>addListener\<close> on a variable, another
  registers two listeners on a second variable of the type and then, after the first thread went on, a
  third. The last two calls on that variable return the same key, and only the last listener is left of the
  two. The counter is shared, the lock is not.\<close>

theorem addListener_key_race:
  "\<exists>s. (add_step (RWMutex posix_rwlock))\<^sup>*\<^sup>* (add_start (RWMutex posix_rwlock) (\<lambda>i. ConfigVar_new T name v description)) s \<and>
     (\<forall>t. as_pc s t = AddIdle) \<and> as_results s = [(1, 1), (1, 2), (1, 2), (0, 2)] \<and>
     cv_cbs (as_var s 1) = [(1, cb1), (2, cb3)] \<and> cv_cbs (as_var s 0) = [(1, cb0)]"
proof -
  let ?L = "RWMutex posix_rwlock" and ?s = "add_start (RWMutex posix_rwlock) (\<lambda>i. ConfigVar_new T name v description)"
  let ?ms = "[Call 0 0 cb0, Run 0, Run 0] @ whole_call 1 1 cb1 @ whole_call 1 1 cb2 @ [Run 0, Run 0] @ whole_call 1 1 cb3 @ [Run 0, Run 0]"
  obtain s where s: "add_schedule ?L ?ms ?s = Some s" "\<forall>t. as_pc s t = AddIdle" "as_results s = [(1, 1), (1, 2), (1, 2), (0, 2)]"
     "cv_cbs (as_var s 1) = [(1, cb1), (2, cb3)]" "cv_cbs (as_var s 0) = [(1, cb0)]"
    by (simp add: whole_call_def replicate_6 add_start_def add_run_def add_at_def rwmutex_defs posix_rwlock_def ConfigVar_new_def)
  with add_schedule_steps [OF s(1)] show ?thesis by blast
qed

subsection \<open>Lookup with a default\<close>

text \<open>The second critical section of \<open>Lookup\<close>, with the variable made before it.\<close>

definition Lookup_register :: "'v config_type \<Rightarrow> string \<Rightarrow> 'v \<Rightarrow> string \<Rightarrow> ('v, 'w) config \<Rightarrow> nat \<times> ('v, 'w) config" where
  "Lookup_register T name default_value description c =
     (cfg_next c,
      c\<lparr>cfg_vars := (cfg_vars c)(cfg_next c \<mapsto> ConfigVar_new T name default_value description),
        cfg_next := Suc (cfg_next c),
        cfg_datas := (cfg_datas c)(name \<mapsto> cfg_next c)\<rparr>)"

lemma Lookup_default_sections:
  assumes "Config_Lookup R T name c w = (Inr None, w')" and "all_in config_chars name"
    and "Lookup_register T name v description c = (p, c')"
  shows "Config_Lookup_default R T name v description c w = (Inr p, c', w')"
  using assms by (auto simp: Config_Lookup_default_def Lookup_register_def)

text \<open>
  Two threads that both found the name missing both register: the first one is left with a variable that the
  registry does not have, so that loading a configuration never sets it.
\<close>

lemma Lookup_default_race:
  assumes "Lookup_register T name v description c = (p, c')" and "Lookup_register T name v' description' c' = (p', c'')"
  shows "p \<noteq> p' \<and> Config_LookupBase name c'' = Some p' \<and>
    (\<forall>n. Config_LookupBase n c \<noteq> Some p \<longrightarrow> Config_LookupBase n c'' \<noteq> Some p)"
  using assms by (auto simp: Lookup_register_def Config_LookupBase_def split: if_splits)

end
