(* ===== verification/Config_Read.thy ===== *)
theory Config_Read
  imports Locks
begin

text \<open>
  What other threads read of the value of a \<open>ConfigVar\<close> while one assigns it. The value is an object of several fields (the members
  of a \<open>LogDefine\<close>, the elements of a vector), and neither copying it nor assigning it is one step: an assignment
  overwrites or adds one field at a time and at the end drops the fields the new value does not have. \<open>toString\<close> reads \<open>m_val\<close> under the read lock; \<open>getValue\<close> returns a reference, which the caller uses after the
  guard of \<open>getValue\<close> is gone.
\<close>

subsection \<open>The threads\<close>

datatype 'a rv_pc =
    RIdle
  | ShowLock
  | ShowAt "'a list"
  | ShowUnlock
  | GetLock
  | GetUnlock
  | UseAt "'a list"
  | AssignLock "'a list"
  | AssignAt "'a list" nat
  | AssignUnlock

text \<open>
  The fields of \<open>m_val\<close>; the values that the variable has had; and the values that \<open>toString\<close> has read and that callers have
  read through the reference.
\<close>

record ('a, 'l) rv_sys =
  rv_lock :: "'l"
  rv_fields :: "'a list"
  rv_pc :: "nat \<Rightarrow> 'a rv_pc"
  rv_values :: "'a list list"
  rv_shown :: "'a list list"
  rv_used :: "'a list list"

definition rv_start :: "'l lock_class \<Rightarrow> 'a list \<Rightarrow> ('a, 'l) rv_sys" where
  "rv_start L v = \<lparr>rv_lock = lk_new L, rv_fields = v, rv_pc = (\<lambda>_. RIdle), rv_values = [v], rv_shown = [], rv_used = []\<rparr>"

definition rv_goto :: "nat \<Rightarrow> 'a rv_pc \<Rightarrow> ('a, 'l) rv_sys \<Rightarrow> ('a, 'l) rv_sys" where
  "rv_goto t pc s = s\<lparr>rv_pc := (rv_pc s)(t := pc)\<rparr>"

definition rv_lock_goto :: "'l lock_class \<Rightarrow> nat \<Rightarrow> mutex_call \<Rightarrow> 'a rv_pc \<Rightarrow> ('a, 'l) rv_sys \<Rightarrow> ('a, 'l) rv_sys option" where
  "rv_lock_goto L t c pc s = map_option (\<lambda>l. rv_goto t pc (s\<lparr>rv_lock := l\<rparr>)) (lk_call L t c (rv_lock s))"

text \<open>The next statement of thread \<open>t\<close>, or the next field of a copy.\<close>

definition rv_run :: "'l lock_class \<Rightarrow> nat \<Rightarrow> ('a, 'l) rv_sys \<Rightarrow> ('a, 'l) rv_sys option" where
  "rv_run L t s =
     (case rv_pc s t of
        RIdle \<Rightarrow> None
      | ShowLock \<Rightarrow> rv_lock_goto L t CallRdlock (ShowAt []) s
      | ShowAt x \<Rightarrow>
          if length x < length (rv_fields s) then Some (rv_goto t (ShowAt (x @ [rv_fields s ! length x])) s)
          else Some (rv_goto t ShowUnlock (s\<lparr>rv_shown := rv_shown s @ [x]\<rparr>))
      | ShowUnlock \<Rightarrow> rv_lock_goto L t CallUnlock RIdle s
      | GetLock \<Rightarrow> rv_lock_goto L t CallRdlock GetUnlock s
      | GetUnlock \<Rightarrow> rv_lock_goto L t CallUnlock (UseAt []) s
      | UseAt x \<Rightarrow>
          if length x < length (rv_fields s) then Some (rv_goto t (UseAt (x @ [rv_fields s ! length x])) s)
          else Some (rv_goto t RIdle (s\<lparr>rv_used := rv_used s @ [x]\<rparr>))
      | AssignLock v \<Rightarrow> rv_lock_goto L t CallWrlock (AssignAt v 0) s
      | AssignAt v i \<Rightarrow>
          if i < length v then Some (rv_goto t (AssignAt v (Suc i))
            (s\<lparr>rv_fields := take i (rv_fields s) @ v ! i # drop (Suc i) (rv_fields s)\<rparr>))
          else Some (rv_goto t AssignUnlock
            (s\<lparr>rv_fields := take (length v) (rv_fields s), rv_values := rv_values s @ [v]\<rparr>))
      | AssignUnlock \<Rightarrow> rv_lock_goto L t CallUnlock RIdle s)"

text \<open>An idle thread may call \<open>toString\<close>, use the reference of \<open>getValue\<close>, or assign in \<open>setValue\<close>.\<close>

inductive rv_step :: "'l lock_class \<Rightarrow> ('a, 'l) rv_sys \<Rightarrow> ('a, 'l) rv_sys \<Rightarrow> bool" for L :: "'l lock_class" where
  call_toString: "rv_pc s t = RIdle \<Longrightarrow> rv_step L s (rv_goto t ShowLock s)"
| call_getValue: "rv_pc s t = RIdle \<Longrightarrow> rv_step L s (rv_goto t GetLock s)"
| call_assign: "rv_pc s t = RIdle \<Longrightarrow> rv_step L s (rv_goto t (AssignLock v) s)"
| run_reader: "rv_run L t s = Some s' \<Longrightarrow> rv_step L s s'"

subsection \<open>The invariant\<close>

fun rv_reading :: "'a rv_pc \<Rightarrow> bool" where
  "rv_reading (ShowAt x) = True"
| "rv_reading ShowUnlock = True"
| "rv_reading GetUnlock = True"
| "rv_reading pc = False"

fun rv_writing :: "'a rv_pc \<Rightarrow> bool" where
  "rv_writing (AssignAt v i) = True"
| "rv_writing AssignUnlock = True"
| "rv_writing pc = False"

fun copy_ok :: "'a list \<Rightarrow> 'a rv_pc \<Rightarrow> bool" where
  "copy_ok fs (ShowAt x) \<longleftrightarrow> x = take (length x) fs"
| "copy_ok fs (AssignAt v i) \<longleftrightarrow> i \<le> length v \<and> take i fs = take i v"
| "copy_ok fs pc \<longleftrightarrow> True"

fun halfway :: "'a rv_pc \<Rightarrow> bool" where
  "halfway (AssignAt v i) = True"
| "halfway pc = False"

lemma halfway_writing: "halfway pc \<Longrightarrow> rv_writing pc"
  by (cases pc) simp_all

lemma copy_ok_other: "\<not> rv_reading pc \<Longrightarrow> \<not> rv_writing pc \<Longrightarrow> copy_ok fs' pc = copy_ok fs pc"
  by (cases pc) simp_all

definition whole :: "('a, 'l) rv_sys \<Rightarrow> bool" where
  "whole s \<longleftrightarrow> (\<forall>t. copy_ok (rv_fields s) (rv_pc s t)) \<and> ((\<forall>t. \<not> halfway (rv_pc s t)) \<longrightarrow> rv_fields s \<in> set (rv_values s)) \<and>
     set (rv_shown s) \<subseteq> set (rv_values s)"

lemma rv_goto_simps [simp]:
  "rv_lock (rv_goto t pc s) = rv_lock s" "rv_fields (rv_goto t pc s) = rv_fields s" "rv_values (rv_goto t pc s) = rv_values s"
  "rv_shown (rv_goto t pc s) = rv_shown s" "rv_used (rv_goto t pc s) = rv_used s" "rv_pc (rv_goto t pc s) = (rv_pc s)(t := pc)"
  by (simp_all add: rv_goto_def)

lemma whole_goto:
  assumes "whole s" and "copy_ok (rv_fields s) pc" and "\<not> halfway (rv_pc s t)"
  shows "whole (rv_goto t pc s)"
  using assms by (auto simp: whole_def)

lemma whole_lock [simp]: "whole (s\<lparr>rv_lock := l\<rparr>) = whole s"
  by (simp add: whole_def)

text \<open>A copy that goes on while nobody writes; an assignment, while nobody else is inside.\<close>

lemma take_snoc_nth: "length x < length fs \<Longrightarrow> x = take (length x) fs \<Longrightarrow> x @ [fs ! length x] = take (Suc (length x)) fs"
  by (simp add: take_Suc_conv_app_nth)

lemma whole_show:
  assumes "whole s" and "rv_pc s t = ShowAt x" and "\<And>u. \<not> rv_writing (rv_pc s u)" and "rv_run L t s = Some s'"
  shows "whole s'"
proof -
  have x: "x = take (length x) (rv_fields s)" using assms(1,2) unfolding whole_def by (metis copy_ok.simps(1))
  have mem: "rv_fields s \<in> set (rv_values s)" using assms(1,3) halfway_writing unfolding whole_def by blast
  show ?thesis
  proof (cases "length x < length (rv_fields s)")
    case True
    have "whole (rv_goto t (ShowAt (x @ [rv_fields s ! length x])) s)"
      using assms(2) x True take_snoc_nth [OF True x] by (intro whole_goto [OF assms(1)]) simp_all
    with True assms(2,4) show ?thesis by (simp add: rv_run_def)
  next
    case False
    with x have "x = rv_fields s" by simp
    with mem assms(1) have "whole (s\<lparr>rv_shown := rv_shown s @ [x]\<rparr>)" by (auto simp: whole_def)
    from whole_goto [OF this, of ShowUnlock t] False assms(2,4) show ?thesis by (simp add: rv_run_def)
  qed
qed

lemma whole_assign:
  assumes "whole s" and "rv_pc s t = AssignAt v i" and "\<And>u. u \<noteq> t \<Longrightarrow> \<not> rv_reading (rv_pc s u) \<and> \<not> rv_writing (rv_pc s u)"
    and "rv_run L t s = Some s'"
  shows "whole s'"
proof -
  have v: "i \<le> length v" "take i (rv_fields s) = take i v"
    using assms(1,2) unfolding whole_def by (metis copy_ok.simps(2))+
  have other: "copy_ok fs (rv_pc s u)" if "u \<noteq> t" for u fs
    using assms(1,3) that copy_ok_other [of "rv_pc s u" fs "rv_fields s"] by (simp add: whole_def)
  show ?thesis
  proof (cases "i < length v")
    case True
    let ?fs = "take i (rv_fields s) @ v ! i # drop (Suc i) (rv_fields s)"
    have fs: "?fs = take (Suc i) v @ drop (Suc i) (rv_fields s)" using True v(2) by (simp add: take_Suc_conv_app_nth)
    have new: "take (Suc i) ?fs = take (Suc i) v" unfolding fs using True by simp
    have s': "s' = rv_goto t (AssignAt v (Suc i)) (s\<lparr>rv_fields := ?fs\<rparr>)" using True assms(2,4) by (simp add: rv_run_def)
    have "copy_ok (rv_fields s') (rv_pc s' u)" for u
    proof (cases "u = t")
      case True
      with new \<open>i < length v\<close> show ?thesis by (simp only: s' rv_goto_simps fun_upd_same copy_ok.simps) simp
    qed (use other in \<open>simp add: s'\<close>)
    moreover have "halfway (rv_pc s' t)" "set (rv_shown s') \<subseteq> set (rv_values s')" using assms(1) by (simp_all add: s' whole_def)
    ultimately show ?thesis unfolding whole_def by blast
  next
    case False
    with v have "take (length v) (rv_fields s) = v" by simp
    then have s': "s' = rv_goto t AssignUnlock (s\<lparr>rv_fields := v, rv_values := rv_values s @ [v]\<rparr>)"
      using False assms(2,4) by (simp add: rv_run_def)
    have "copy_ok (rv_fields s') (rv_pc s' u)" for u using other by (cases "u = t") (simp_all add: s')
    moreover have "rv_fields s' \<in> set (rv_values s')" "set (rv_shown s') \<subseteq> set (rv_values s')"
      using assms(1) by (auto simp: s' whole_def)
    ultimately show ?thesis unfolding whole_def by blast
  qed
qed

context lock_contract
begin

definition rv_inv :: "('a, 'l) rv_sys \<Rightarrow> bool" where
  "rv_inv s \<longleftrightarrow> held_by (rv_lock s) rv_reading rv_writing (rv_pc s) \<and> whole s"

lemma rv_held_run:
  assumes "held_by (rv_lock s) rv_reading rv_writing (rv_pc s)" and "rv_run L t s = Some s'"
  shows "held_by (rv_lock s') rv_reading rv_writing (rv_pc s')"
  using assms(2)
  by (cases "rv_pc s t")
    (auto simp: rv_run_def rv_lock_goto_def held_by_same [OF assms(1)] held_by_shared [OF assms(1)]
      held_by_exclusive [OF assms(1), where c = CallWrlock] held_by_release [OF assms(1)] split: if_splits)

lemma rv_inv_run:
  assumes "rv_inv s" and "rv_run L t s = Some s'"
  shows "rv_inv s'"
proof -
  have held: "held_by (rv_lock s) rv_reading rv_writing (rv_pc s)" and whole: "whole s" using assms(1) by (simp_all add: rv_inv_def)
  have "whole s'"
  proof (cases "rv_pc s t")
    case (ShowAt x)
    have "\<not> rv_writing (rv_pc s u)" for u using held_by_alone [OF held, of u t] ShowAt by auto
    then show ?thesis by (rule whole_show [OF whole ShowAt _ assms(2)])
  next
    case (AssignAt v i)
    have "\<not> rv_reading (rv_pc s u) \<and> \<not> rv_writing (rv_pc s u)" if "u \<noteq> t" for u
      using held_by_alone [OF held, of t u] AssignAt that by auto
    then show ?thesis by (rule whole_assign [OF whole AssignAt _ assms(2)])
  next
    case (UseAt x)
    have "whole (s\<lparr>rv_used := us\<rparr>)" for us using whole by (simp add: whole_def)
    with UseAt assms(2) whole show ?thesis by (auto simp: rv_run_def whole_goto split: if_splits)
  qed (use assms(2) whole in \<open>auto simp: rv_run_def rv_lock_goto_def whole_goto\<close>)
  with rv_held_run [OF held assms(2)] show ?thesis by (simp add: rv_inv_def)
qed

lemma rv_reachable: "(rv_step L)\<^sup>*\<^sup>* (rv_start L v0) s \<Longrightarrow> rv_inv s"
proof (induction rule: rtranclp_induct)
  case base
  show ?case by (simp add: rv_inv_def whole_def rv_start_def held_by_new)
next
  case (step s1 s2)
  then have held: "held_by (rv_lock s1) rv_reading rv_writing (rv_pc s1)" and "whole s1" by (simp_all add: rv_inv_def)
  from step(2) show ?case
  proof cases
    case (run_reader t)
    with step.IH show ?thesis by (rule rv_inv_run)
  qed (use \<open>whole s1\<close> in \<open>auto simp: rv_inv_def whole_goto held_by_same [OF held]\<close>)
qed

end

text \<open>Running the threads in the order of a schedule: a call, or the next statement.\<close>

fun rv_schedule :: "'l lock_class \<Rightarrow> (nat \<times> 'a rv_pc option) list \<Rightarrow> ('a, 'l) rv_sys \<Rightarrow> ('a, 'l) rv_sys option" where
  "rv_schedule L [] s = Some s"
| "rv_schedule L ((t, c) # ts) s =
     (case c of
        Some pc \<Rightarrow>
          if rv_pc s t = RIdle \<and> (pc = ShowLock \<or> pc = GetLock \<or> (\<exists>v. pc = AssignLock v))
          then rv_schedule L ts (rv_goto t pc s) else None
      | None \<Rightarrow> (case rv_run L t s of None \<Rightarrow> None | Some s' \<Rightarrow> rv_schedule L ts s'))"

lemma rv_schedule_steps: "rv_schedule L ts s = Some s' \<Longrightarrow> (rv_step L)\<^sup>*\<^sup>* s s'"
  by (induction L ts s rule: rv_schedule.induct)
    (auto split: option.splits if_splits intro: converse_rtranclp_into_rtranclp rv_step.intros)

text \<open>One thread calls \<open>getValue\<close> and reads the first field, another assigns both fields, and the first goes on.\<close>

definition torn_schedule :: "'a \<Rightarrow> 'a \<Rightarrow> (nat \<times> 'a rv_pc option) list" where
  "torn_schedule c d = [(0, Some GetLock), (0, None), (0, None), (0, None),
     (1, Some (AssignLock [c, d])), (1, None), (1, None), (1, None), (1, None), (1, None), (0, None), (0, None)]"

context lock_contract
begin

lemma getValue_reference_torn:
  assumes "CallRdlock \<in> lk_calls L" and "CallWrlock \<in> lk_calls L"
  shows "\<exists>s. (rv_step L)\<^sup>*\<^sup>* (rv_start L [a, b]) s \<and> (\<forall>t. rv_pc s t = RIdle) \<and> rv_values s = [[a, b], [c, d]] \<and> rv_used s = [[a, d]]"
proof -
  obtain l1 where l1: "lk_call L 0 CallRdlock (lk_new L) = Some l1" using free [OF new assms(1)] by blast
  then have "repr l1 {0} None" using shared [OF new _ _ l1] by simp
  then obtain l2 where l2: "lk_call L 0 CallUnlock l1 = Some l2" "repr l2 {} None" using release_shared [of l1 "{0}" 0] by auto
  obtain l3 where l3: "lk_call L 1 CallWrlock l2 = Some l3" using free [OF l2(2) assms(2)] by blast
  then have "repr l3 {} (Some 1)" using exclusive [OF l2(2) _ _ _ l3] by simp
  then obtain l4 where l4: "lk_call L 1 CallUnlock l3 = Some l4" using release_exclusive by blast
  obtain s where "rv_schedule L (torn_schedule c d) (rv_start L [a, b]) = Some s"
    "\<forall>t. rv_pc s t = RIdle" "rv_values s = [[a, b], [c, d]]" "rv_used s = [[a, d]]"
    using l1 l2(1) l3 l4 by (simp add: torn_schedule_def rv_start_def rv_run_def rv_lock_goto_def rv_goto_def)
  then show ?thesis using rv_schedule_steps by blast
qed

end

context pthread_rwlock
begin

lemma rv_reachable_rwmutex: "(rv_step (RWMutex A))\<^sup>*\<^sup>* (rv_start (RWMutex A) v0) s \<Longrightarrow> set (rv_shown s) \<subseteq> set (rv_values s)"
  using rwmutex.rv_reachable [of v0 s] by (simp add: rwmutex.rv_inv_def whole_def)

lemma torn_rwmutex:
  "\<exists>s. (rv_step (RWMutex A))\<^sup>*\<^sup>* (rv_start (RWMutex A) [a, b]) s \<and> (\<forall>t. rv_pc s t = RIdle) \<and>
     rv_values s = [[a, b], [c, d]] \<and> rv_used s = [[a, d]]"
  by (rule rwmutex.getValue_reference_torn) (simp_all add: RWMutex_def)

end

subsection \<open>Properties\<close>

text \<open>C20. What \<open>toString\<close> reads is a value the variable has had: however the threads interleave, a copy of \<open>m_val\<close> made field by
  field under the read lock is never a mixture of two values, although assignments are made field by field too and may
  change how many fields there are. Fields are values of their own: what a field refers to is not shared with other fields.\<close>

theorem toString_reads_whole:
  assumes "pthread_rwlock A readers writer" and "(rv_step (RWMutex A))\<^sup>*\<^sup>* (rv_start (RWMutex A) v0) s"
  shows "set (rv_shown s) \<subseteq> set (rv_values s)"
  by (rule pthread_rwlock.rv_reachable_rwmutex [OF assms])

text \<open>An assignment that is called after \<open>toString\<close> and gets the lock before it.\<close>

theorem toString_reads_whole_witness:
  "\<exists>s. (rv_step (RWMutex posix_rwlock))\<^sup>*\<^sup>* (rv_start (RWMutex posix_rwlock) ''ab'') s \<and> rv_shown s = [''cd''] \<and> ''cd'' \<in> set (rv_values s)"
proof -
  obtain s where s: "rv_schedule (RWMutex posix_rwlock) [(0, Some ShowLock), (1, Some (AssignLock ''cd'')), (1, None), (1, None), (1, None),
      (1, None), (1, None), (0, None), (0, None), (0, None), (0, None)] (rv_start (RWMutex posix_rwlock) ''ab'') = Some s" "rv_shown s = [''cd'']"
    by (simp add: rv_start_def rv_run_def rv_lock_goto_def rv_goto_def rwmutex_defs posix_rwlock_def)
  from rv_schedule_steps [OF s(1)] s(2) toString_reads_whole [OF posix_rwlock.pthread_rwlock_axioms rv_schedule_steps [OF s(1)]]
  show ?thesis by auto
qed

text \<open>C36. The reference of \<open>getValue\<close> gives no such guarantee: its guard is released before the caller reads through it, so
  a caller can read a mixture of the old and the new value, which the variable has never had.\<close>

theorem getValue_reads_torn:
  assumes "pthread_rwlock A readers writer" and "a \<noteq> c" and "b \<noteq> d"
  shows "\<exists>s. (rv_step (RWMutex A))\<^sup>*\<^sup>* (rv_start (RWMutex A) [a, b]) s \<and> (\<forall>t. rv_pc s t = RIdle) \<and>
    rv_values s = [[a, b], [c, d]] \<and> (\<exists>x \<in> set (rv_used s). x \<notin> set (rv_values s))"
proof -
  obtain s where "(rv_step (RWMutex A))\<^sup>*\<^sup>* (rv_start (RWMutex A) [a, b]) s" "\<forall>t. rv_pc s t = RIdle"
    "rv_values s = [[a, b], [c, d]]" "rv_used s = [[a, d]]"
    using pthread_rwlock.torn_rwmutex [OF assms(1), of a b c d] by blast
  with assms(2,3) show ?thesis by (intro exI [of _ s]) simp
qed

theorem getValue_reads_torn_witness:
  "\<exists>s. (rv_step (RWMutex posix_rwlock))\<^sup>*\<^sup>* (rv_start (RWMutex posix_rwlock) ''ab'') s \<and> (\<exists>x \<in> set (rv_used s). x \<notin> set (rv_values s))"
  using getValue_reads_torn [OF posix_rwlock.pthread_rwlock_axioms, of "CHR ''a''" "CHR ''c''" "CHR ''b''" "CHR ''d''"] by auto

end
