(* ===== verification/Log_Conc.thy ===== *)
theory Log_Conc
  imports Logger Locks
begin

text \<open>
  One \<open>Logger\<close> used by several threads. \<open>m_appenders\<close> is a \<open>std::list\<close>: a sequence of nodes with identities, and the
  loops of \<open>log\<close>, \<open>setFormatter\<close> and \<open>toYamlString\<close> hold an iterator, that is a node. Following an iterator to a
  node that has been erased is undefined behaviour. The loops and \<open>addAppender\<close>, \<open>delAppender\<close> and \<open>getFormatter\<close> hold the
  lock; \<open>clearAppenders\<close>, \<open>getAppenders\<close>, which copies the list, and \<open>setLevel\<close> do not take it.
\<close>

subsection \<open>The list\<close>

type_synonym nodes = "(nat \<times> nat) list"

fun erase_node :: "nat \<Rightarrow> nodes \<Rightarrow> nodes" where
  "erase_node a [] = []"
| "erase_node a ((i, x) # ns) = (if x = a then ns else (i, x) # erase_node a ns)"

text \<open>\<open>begin()\<close>, and the node after a node; \<open>None\<close> is \<open>end()\<close>.\<close>

definition list_begin :: "nodes \<Rightarrow> nat option" where
  "list_begin ns = (case ns of [] \<Rightarrow> None | (i, a) # _ \<Rightarrow> Some i)"

fun list_next :: "nat \<Rightarrow> nodes \<Rightarrow> nat option" where
  "list_next i [] = None"
| "list_next i ((j, a) # ns) = (if i = j then list_begin ns else list_next i ns)"

subsection \<open>The threads\<close>

datatype logger_section = AddAppender nat | DelAppender nat | GetFormatter

text \<open>
  The functions that loop over the appenders: \<open>log\<close>, \<open>setFormatter\<close> with what \<open>isError\<close> says of its argument, and
  \<open>toYamlString\<close>. The states of a loop carry the appenders it has come to.
\<close>

datatype logger_loop = InLog | InSetFormatter bool | InToYamlString

datatype logger_pc =
    LIdle
  | LogTest log_level
  | LoopLock logger_loop
  | LoopBegin logger_loop
  | LoopAt logger_loop "nat option" "nat list"
  | LoopNext logger_loop nat "nat list"
  | LogRoot
  | LoopUnlock logger_loop "nat list"
  | SectionLock logger_section
  | SectionRun logger_section
  | SectionUnlock
  | ClearRun
  | LevelRun log_level
  | CopyBegin
  | CopyAt "nat option" "nat list"
  | CopyNext nat "nat list"

record 'l logger_sys =
  gl_lock :: "'l"
  gl_level :: log_level
  gl_nodes :: nodes
  gl_next :: nat
  gl_pc :: "nat \<Rightarrow> logger_pc"
  gl_undefined :: bool

definition logger_start :: "'l lock_class \<Rightarrow> 'l logger_sys" where
  "logger_start L = \<lparr>gl_lock = lk_new L, gl_level = DEBUG, gl_nodes = [], gl_next = 0, gl_pc = (\<lambda>_. LIdle), gl_undefined = False\<rparr>"

definition goto :: "nat \<Rightarrow> logger_pc \<Rightarrow> 'l logger_sys \<Rightarrow> 'l logger_sys" where
  "goto t pc s = s\<lparr>gl_pc := (gl_pc s)(t := pc)\<rparr>"

definition lock_goto :: "'l lock_class \<Rightarrow> nat \<Rightarrow> mutex_call \<Rightarrow> logger_pc \<Rightarrow> 'l logger_sys \<Rightarrow> 'l logger_sys option" where
  "lock_goto L t c pc s = map_option (\<lambda>l. goto t pc (s\<lparr>gl_lock := l\<rparr>)) (lk_call L t c (gl_lock s))"

text \<open>What \<open>addAppender\<close> and \<open>delAppender\<close> do to the list; the formatter that \<open>addAppender\<close> may set belongs to the appender.\<close>

definition section_nodes :: "logger_section \<Rightarrow> 'l logger_sys \<Rightarrow> 'l logger_sys" where
  "section_nodes u s =
     (case u of
        AddAppender a \<Rightarrow> s\<lparr>gl_nodes := gl_nodes s @ [(gl_next s, a)], gl_next := Suc (gl_next s)\<rparr>
      | DelAppender a \<Rightarrow> s\<lparr>gl_nodes := erase_node a (gl_nodes s)\<rparr>
      | GetFormatter \<Rightarrow> s)"

text \<open>Following the iterator \<open>i\<close>, to what it points at.\<close>

definition follow :: "nat \<Rightarrow> 'l logger_sys \<Rightarrow> (nat \<Rightarrow> 'l logger_sys) \<Rightarrow> 'l logger_sys" where
  "follow i s k = (case map_of (gl_nodes s) i of None \<Rightarrow> s\<lparr>gl_undefined := True\<rparr> | Some a \<Rightarrow> k a)"

text \<open>
  The next statement of a thread. In a loop, the iterator is compared with \<open>end()\<close> and followed to the
  appender, and after the appender's function it is followed to the next node. At \<open>LogRoot\<close> the event goes to \<open>m_root\<close>,
  another logger, if there is one.
\<close>

definition loop_begin :: "logger_loop \<Rightarrow> nodes \<Rightarrow> logger_pc" where
  "loop_begin k ns =
     (case k of
        InLog \<Rightarrow> if ns \<noteq> [] then LoopAt k (list_begin ns) [] else LogRoot
      | InSetFormatter is_error \<Rightarrow> if is_error then SectionUnlock else LoopAt k (list_begin ns) []
      | InToYamlString \<Rightarrow> LoopAt k (list_begin ns) [])"

definition logger_run :: "'l lock_class \<Rightarrow> nat \<Rightarrow> 'l logger_sys \<Rightarrow> 'l logger_sys option" where
  "logger_run L t s =
     (case gl_pc s t of
        LIdle \<Rightarrow> None
      | LogTest level \<Rightarrow> Some (goto t (if gl_level s \<le> level then LoopLock InLog else LIdle) s)
      | LoopLock k \<Rightarrow> lock_goto L t CallLock (LoopBegin k) s
      | LoopBegin k \<Rightarrow> Some (goto t (loop_begin k (gl_nodes s)) s)
      | LoopAt k it seen \<Rightarrow>
          (case it of
             None \<Rightarrow> Some (goto t (LoopUnlock k seen) s)
           | Some i \<Rightarrow> Some (follow i s (\<lambda>a. goto t (LoopNext k i (seen @ [a])) s)))
      | LoopNext k i seen \<Rightarrow> Some (follow i s (\<lambda>a. goto t (LoopAt k (list_next i (gl_nodes s)) seen) s))
      | LogRoot \<Rightarrow> Some (goto t (LoopUnlock InLog []) s)
      | LoopUnlock k seen \<Rightarrow> lock_goto L t CallUnlock LIdle s
      | SectionLock u \<Rightarrow> lock_goto L t CallLock (SectionRun u) s
      | SectionRun u \<Rightarrow> Some (goto t SectionUnlock (section_nodes u s))
      | SectionUnlock \<Rightarrow> lock_goto L t CallUnlock LIdle s
      | ClearRun \<Rightarrow> Some (goto t LIdle (s\<lparr>gl_nodes := []\<rparr>))
      | LevelRun level \<Rightarrow> Some (goto t LIdle (s\<lparr>gl_level := level\<rparr>))
      | CopyBegin \<Rightarrow> Some (goto t (CopyAt (list_begin (gl_nodes s)) []) s)
      | CopyAt it seen \<Rightarrow>
          (case it of
             None \<Rightarrow> Some (goto t LIdle s)
           | Some i \<Rightarrow> Some (follow i s (\<lambda>a. goto t (CopyNext i (seen @ [a])) s)))
      | CopyNext i seen \<Rightarrow> Some (follow i s (\<lambda>a. goto t (CopyAt (list_next i (gl_nodes s)) seen) s)))"

text \<open>The functions a thread may call, as what they do first, and those of them that take the lock for the list.\<close>

definition logger_calls :: "logger_pc set" where
  "logger_calls = range LogTest \<union> range (\<lambda>e. LoopLock (InSetFormatter e)) \<union> {LoopLock InToYamlString} \<union> range SectionLock \<union>
     range LevelRun \<union> {ClearRun, CopyBegin}"

definition locked_calls :: "logger_pc set" where
  "locked_calls = logger_calls - {ClearRun, CopyBegin}"

inductive logger_step :: "'l lock_class \<Rightarrow> logger_pc set \<Rightarrow> 'l logger_sys \<Rightarrow> 'l logger_sys \<Rightarrow> bool"
  for L :: "'l lock_class" and C :: "logger_pc set" where
  call_logger: "\<not> gl_undefined s \<Longrightarrow> gl_pc s t = LIdle \<Longrightarrow> pc \<in> C \<Longrightarrow> logger_step L C s (goto t pc s)"
| run_logger: "\<not> gl_undefined s \<Longrightarrow> logger_run L t s = Some s' \<Longrightarrow> logger_step L C s s'"

subsection \<open>The list is the list of the sequential model\<close>

lemma erase_node_appenders: "map snd (erase_node a ns) = erase_first a (map snd ns)"
  by (induction a ns rule: erase_node.induct) simp_all

lemma section_nodes_appenders:
  "map snd (gl_nodes (section_nodes u s)) =
     (case u of AddAppender a \<Rightarrow> map snd (gl_nodes s) @ [a] | DelAppender a \<Rightarrow> erase_first a (map snd (gl_nodes s))
      | GetFormatter \<Rightarrow> map snd (gl_nodes s))"
  by (cases u) (simp_all add: section_nodes_def erase_node_appenders)

lemma erase_node_subseq: "set (erase_node a ns) \<subseteq> set ns \<and> (distinct (map fst ns) \<longrightarrow> distinct (map fst (erase_node a ns)))"
  by (induction a ns rule: erase_node.induct) auto

lemma list_next_nth:
  assumes "distinct (map fst ns)" and "k < length ns"
  shows "list_next (fst (ns ! k)) ns = list_begin (drop (Suc k) ns)"
  using assms
proof (induction ns arbitrary: k)
  case (Cons n ns)
  obtain j a where n: "n = (j, a)" by fastforce
  show ?case
  proof (cases k)
    case (Suc m)
    with Cons.prems have "fst (ns ! m) \<in> fst ` set ns" "m < length ns" by auto
    with Cons n Suc show ?thesis by auto
  qed (simp add: n)
qed simp

lemma list_begin_drop: "list_begin (drop k ns) = (if k < length ns then Some (fst (ns ! k)) else None)"
proof (cases "k < length ns")
  case True
  then have "drop k ns = ns ! k # drop (Suc k) ns" by (simp add: Cons_nth_drop_Suc)
  then show ?thesis using True by (simp add: list_begin_def split_beta)
qed (simp add: list_begin_def)

lemma map_of_node: "distinct (map fst ns) \<Longrightarrow> k < length ns \<Longrightarrow> map_of ns (fst (ns ! k)) = Some (snd (ns ! k))"
  by (simp add: map_of_eq_Some_iff)

subsection \<open>The invariant\<close>

fun has_lock :: "logger_pc \<Rightarrow> bool" where
  "has_lock (LoopBegin k) = True"
| "has_lock (LoopAt k it seen) = True"
| "has_lock (LoopNext k i seen) = True"
| "has_lock LogRoot = True"
| "has_lock (LoopUnlock k seen) = True"
| "has_lock (SectionRun u) = True"
| "has_lock SectionUnlock = True"
| "has_lock pc = False"

text \<open>Where a loop is: the iterator is at position \<open>n\<close>, and it has come to the appenders before \<open>n\<close>. No thread is in the other members.\<close>

fun loop_ok :: "nodes \<Rightarrow> logger_pc \<Rightarrow> bool" where
  "loop_ok ns (LoopAt k it seen) \<longleftrightarrow> (\<exists>n \<le> length ns. it = list_begin (drop n ns) \<and> seen = map snd (take n ns))"
| "loop_ok ns (LoopNext k i seen) \<longleftrightarrow> (\<exists>n < length ns. i = fst (ns ! n) \<and> seen = map snd (take (Suc n) ns))"
| "loop_ok ns LogRoot \<longleftrightarrow> ns = []"
| "loop_ok ns (LoopUnlock k seen) \<longleftrightarrow> seen = map snd ns"
| "loop_ok ns ClearRun \<longleftrightarrow> False"
| "loop_ok ns CopyBegin \<longleftrightarrow> False"
| "loop_ok ns (CopyAt it seen) \<longleftrightarrow> False"
| "loop_ok ns (CopyNext i seen) \<longleftrightarrow> False"
| "loop_ok ns pc \<longleftrightarrow> True"

definition wf_nodes :: "'l logger_sys \<Rightarrow> bool" where
  "wf_nodes s \<longleftrightarrow> distinct (map fst (gl_nodes s)) \<and> (\<forall>i \<in> fst ` set (gl_nodes s). i < gl_next s)"

lemma wf_nodes_section: "wf_nodes s \<Longrightarrow> wf_nodes (section_nodes u s)"
proof (cases u)
  case (DelAppender a)
  then show "wf_nodes s \<Longrightarrow> ?thesis" using erase_node_subseq [of a "gl_nodes s"] by (auto simp: wf_nodes_def section_nodes_def)
qed (fastforce simp: wf_nodes_def section_nodes_def)+

lemma goto_simps [simp]:
  "gl_lock (goto t pc s) = gl_lock s" "gl_level (goto t pc s) = gl_level s" "gl_nodes (goto t pc s) = gl_nodes s"
  "gl_next (goto t pc s) = gl_next s" "gl_undefined (goto t pc s) = gl_undefined s" "gl_pc (goto t pc s) = (gl_pc s)(t := pc)"
  by (simp_all add: goto_def)

lemma wf_nodes_frame [simp]:
  "wf_nodes (goto t pc s) = wf_nodes s" "wf_nodes (s\<lparr>gl_lock := l\<rparr>) = wf_nodes s" "wf_nodes (s\<lparr>gl_level := v\<rparr>) = wf_nodes s"
  by (simp_all add: wf_nodes_def)

lemma section_nodes_frame [simp]:
  "gl_lock (section_nodes u s) = gl_lock s" "gl_pc (section_nodes u s) = gl_pc s" "gl_undefined (section_nodes u s) = gl_undefined s"
  by (cases u; simp add: section_nodes_def)+

lemma lock_goto_Some:
  "lock_goto L t c pc s = Some s' \<longleftrightarrow> (\<exists>l. lk_call L t c (gl_lock s) = Some l \<and> s' = goto t pc (s\<lparr>gl_lock := l\<rparr>))"
  by (auto simp: lock_goto_def)

lemma loop_ok_any: "loop_ok ns pc \<Longrightarrow> \<not> has_lock pc \<Longrightarrow> loop_ok ns' pc"
  by (cases pc) simp_all

lemma loop_ok_begin: "loop_ok ns (loop_begin k ns)"
  by (auto simp: loop_begin_def split: logger_loop.splits intro: exI [of _ 0])

lemma loop_begin_lock: "has_lock (loop_begin k ns)"
  by (auto simp: loop_begin_def split: logger_loop.splits)

text \<open>The steps of a loop stay in the list and end with all of it.\<close>

lemma loop_at_step:
  assumes "distinct (map fst (gl_nodes s))" and "loop_ok (gl_nodes s) (LoopAt k it seen)"
  shows "it = None \<and> seen = map snd (gl_nodes s) \<or>
    (\<exists>i a. it = Some i \<and> map_of (gl_nodes s) i = Some a \<and> loop_ok (gl_nodes s) (LoopNext k i (seen @ [a])))"
proof -
  let ?ns = "gl_nodes s"
  obtain n where n: "n \<le> length ?ns" "it = list_begin (drop n ?ns)" "seen = map snd (take n ?ns)"
    using assms(2) by auto
  show ?thesis
  proof (cases "n < length ?ns")
    case True
    with n assms(1) have "map_of ?ns (fst (?ns ! n)) = Some (snd (?ns ! n))"
      "loop_ok ?ns (LoopNext k (fst (?ns ! n)) (seen @ [snd (?ns ! n)]))"
      by (auto simp: map_of_node take_Suc_conv_app_nth)
    with True n(2) show ?thesis by (simp add: list_begin_drop)
  qed (use n in \<open>simp add: list_begin_def\<close>)
qed

lemma loop_next_step:
  assumes "distinct (map fst (gl_nodes s))" and "loop_ok (gl_nodes s) (LoopNext k i seen)"
  shows "(\<exists>a. map_of (gl_nodes s) i = Some a) \<and> loop_ok (gl_nodes s) (LoopAt k (list_next i (gl_nodes s)) seen)"
proof -
  let ?ns = "gl_nodes s"
  obtain n where n: "n < length ?ns" "i = fst (?ns ! n)" "seen = map snd (take (Suc n) ?ns)"
    using assms(2) by auto
  with assms(1) show ?thesis by (auto simp: map_of_node list_next_nth intro!: exI [of _ "Suc n"])
qed

text \<open>
  What the threads can rely on, as long as nobody calls the members without lock: no iterator leads to an erased node,
  and a loop at its end has come to the appenders there are. And that calls \<open>C\<close> can go wrong.
\<close>

definition loops_safe :: "'l lock_class \<Rightarrow> bool" where
  "loops_safe L \<longleftrightarrow> (\<forall>s. (logger_step L locked_calls)\<^sup>*\<^sup>* (logger_start L) s \<longrightarrow>
     \<not> gl_undefined s \<and> (\<forall>t k seen. gl_pc s t = LoopUnlock k seen \<longrightarrow> seen = map snd (gl_nodes s)))"

definition loops_race :: "'l lock_class \<Rightarrow> logger_pc set \<Rightarrow> bool" where
  "loops_race L C \<longleftrightarrow> (\<exists>s. (logger_step L C)\<^sup>*\<^sup>* (logger_start L) s \<and> gl_undefined s)"

context lock_contract
begin

definition logger_inv :: "'l logger_sys \<Rightarrow> bool" where
  "logger_inv s \<longleftrightarrow> \<not> gl_undefined s \<and> wf_nodes s \<and> (\<forall>t. loop_ok (gl_nodes s) (gl_pc s t)) \<and>
     held_by (gl_lock s) (\<lambda>_. False) has_lock (gl_pc s)"

lemma logger_inv_start: "logger_inv (logger_start L)"
  by (simp add: logger_inv_def logger_start_def wf_nodes_def held_by_new)

text \<open>Only the thread that has the lock may change the list.\<close>

lemma logger_inv_goto:
  assumes "logger_inv s" and "held_by l (\<lambda>_. False) has_lock ((gl_pc s)(t := pc))" and "loop_ok (gl_nodes s) pc"
  shows "logger_inv (goto t pc (s\<lparr>gl_lock := l\<rparr>))"
  using assms by (simp add: logger_inv_def)

lemma logger_inv_same:
  assumes "logger_inv s" and "has_lock pc = has_lock (gl_pc s t)" and "loop_ok (gl_nodes s) pc"
  shows "logger_inv (goto t pc s)"
  using assms held_by_same [of "gl_lock s" "\<lambda>_. False" has_lock "gl_pc s" pc t] by (simp add: logger_inv_def)

lemma logger_inv_section:
  assumes "logger_inv s" and "gl_pc s t = SectionRun u"
  shows "logger_inv (goto t SectionUnlock (section_nodes u s))"
proof -
  have held: "held_by (gl_lock s) (\<lambda>_. False) has_lock (gl_pc s)" using assms(1) by (simp add: logger_inv_def)
  have "\<not> has_lock (gl_pc s v)" if "v \<noteq> t" for v
    using held_by_alone [OF held, of t v] assms(2) that by simp
  then have "loop_ok (gl_nodes (section_nodes u s)) (gl_pc s v)" if "v \<noteq> t" for v
    using that assms(1) loop_ok_any by (simp add: logger_inv_def) blast
  moreover have "held_by (gl_lock s) (\<lambda>_. False) has_lock ((gl_pc s)(t := SectionUnlock))"
    by (rule held_by_same [OF held]) (simp_all add: assms(2))
  ultimately show ?thesis using assms(1) wf_nodes_section [of s u]
    by (simp add: logger_inv_def)
qed

lemma logger_inv_run:
  assumes "logger_inv s" and "logger_run L t s = Some s'"
  shows "logger_inv s'"
proof -
  have inv: "\<not> gl_undefined s" "wf_nodes s" "loop_ok (gl_nodes s) (gl_pc s t)"
    and held: "held_by (gl_lock s) (\<lambda>_. False) has_lock (gl_pc s)"
    using assms(1) by (simp_all add: logger_inv_def)
  then have d: "distinct (map fst (gl_nodes s))" by (simp add: wf_nodes_def)
  note run = assms(2) [unfolded logger_run_def]
  note goto = logger_inv_goto [OF assms(1)] and same = logger_inv_same [OF assms(1)]
  note acquire = held_by_exclusive [OF held, where c = CallLock] and release = held_by_release [OF held]
  show ?thesis
  proof (cases "gl_pc s t")
    case (LoopAt k it seen)
    note pc = this
    from loop_at_step [OF d, of k it seen] inv(3) pc
    consider "it = None" "seen = map snd (gl_nodes s)"
      | i a where "it = Some i" "map_of (gl_nodes s) i = Some a" "loop_ok (gl_nodes s) (LoopNext k i (seen @ [a]))" by auto
    then show ?thesis
    proof cases
      case 1
      with run pc have "s' = goto t (LoopUnlock k seen) s" by simp
      with 1 pc show ?thesis using same [of "LoopUnlock k seen" t] by simp
    next
      case 2
      with run pc have "s' = goto t (LoopNext k i (seen @ [a])) s" by (simp add: follow_def)
      with pc 2(3) show ?thesis using same [of "LoopNext k i (seen @ [a])" t] by (simp del: loop_ok.simps)
    qed
  next
    case (LoopNext k i seen)
    with loop_next_step [OF d, of k i seen] inv(3) obtain a where "map_of (gl_nodes s) i = Some a"
      "loop_ok (gl_nodes s) (LoopAt k (list_next i (gl_nodes s)) seen)" by (auto simp del: loop_ok.simps)
    with LoopNext run same [of "LoopAt k (list_next i (gl_nodes s)) seen" t] show ?thesis
      by (simp add: follow_def del: loop_ok.simps)
  next
    case (LoopBegin k)
    with run same [of "loop_begin k (gl_nodes s)" t] show ?thesis by (simp add: loop_ok_begin loop_begin_lock)
  next
    case (SectionRun u)
    with run logger_inv_section [OF assms(1), of t u] show ?thesis by simp
  next
    case (LevelRun level)
    have "logger_inv (s\<lparr>gl_level := level\<rparr>)" using assms(1) by (simp add: logger_inv_def)
    from logger_inv_same [OF this, of LIdle t] LevelRun run show ?thesis by auto
  qed (use run inv(3) in \<open>auto simp: lock_goto_Some acquire release intro!: goto same split: if_splits\<close>)
qed

lemma logger_inv_step:
  assumes "logger_inv s" and "logger_step L locked_calls s s'"
  shows "logger_inv s'"
  using assms(2)
proof cases
  case (call_logger t pc)
  then have "\<not> has_lock pc" "loop_ok (gl_nodes s) pc" by (auto simp: locked_calls_def logger_calls_def)
  with call_logger assms(1) show ?thesis by (simp add: logger_inv_same)
qed (use assms(1) logger_inv_run in blast)

lemma logger_inv_reachable: "(logger_step L locked_calls)\<^sup>*\<^sup>* (logger_start L) s \<Longrightarrow> logger_inv s"
  by (induction rule: rtranclp_induct) (auto intro: logger_inv_start logger_inv_step)

lemma all_loops_safe: "loops_safe L"
  unfolding loops_safe_def
proof (intro allI impI)
  fix s
  assume "(logger_step L locked_calls)\<^sup>*\<^sup>* (logger_start L) s"
  then have "logger_inv s" by (rule logger_inv_reachable)
  then have "\<not> gl_undefined s" "loop_ok (gl_nodes s) (gl_pc s t)" for t by (simp_all add: logger_inv_def)
  then show "\<not> gl_undefined s \<and> (\<forall>t k seen. gl_pc s t = LoopUnlock k seen \<longrightarrow> seen = map snd (gl_nodes s))"
    by (metis loop_ok.simps(4))
qed

end

text \<open>Running the threads, or letting one call a function, in the order of a schedule.\<close>

fun logger_schedule :: "'l lock_class \<Rightarrow> (nat \<times> logger_pc option) list \<Rightarrow> 'l logger_sys \<Rightarrow> 'l logger_sys option" where
  "logger_schedule L [] s = Some s"
| "logger_schedule L ((t, m) # ms) s =
     (if gl_undefined s then None
      else case m of
        None \<Rightarrow> (case logger_run L t s of None \<Rightarrow> None | Some s' \<Rightarrow> logger_schedule L ms s')
      | Some pc \<Rightarrow> if gl_pc s t = LIdle then logger_schedule L ms (goto t pc s) else None)"

definition schedule_calls :: "(nat \<times> logger_pc option) list \<Rightarrow> logger_pc set" where
  "schedule_calls ms = {pc. \<exists>t. (t, Some pc) \<in> set ms}"

lemma logger_schedule_steps:
  assumes "logger_schedule L ms s = Some s'" and "schedule_calls ms \<subseteq> C"
  shows "(logger_step L C)\<^sup>*\<^sup>* s s'"
  using assms
  by (induction L ms s rule: logger_schedule.induct)
    (auto simp: schedule_calls_def split: option.splits if_splits intro: converse_rtranclp_into_rtranclp run_logger call_logger)

lemmas logger_run_simps = logger_start_def goto_def lock_goto_def logger_run_def loop_begin_def follow_def section_nodes_def
  list_begin_def less_eq_log_level_def

text \<open>A logger with one appender is cleared, or its appender deleted, while a thread is at the appender.\<close>

definition add_one_schedule :: "(nat \<times> logger_pc option) list" where
  "add_one_schedule = [(0, Some (SectionLock (AddAppender 7))), (0, None), (0, None), (0, None)]"

definition clear_schedule :: "(nat \<times> logger_pc option) list" where
  "clear_schedule = add_one_schedule @
     [(0, Some (LogTest ERROR)), (0, None), (0, None), (0, None), (0, None), (1, Some ClearRun), (1, None), (0, None)]"

definition copy_schedule :: "(nat \<times> logger_pc option) list" where
  "copy_schedule = add_one_schedule @
     [(1, Some CopyBegin), (1, None), (0, Some (SectionLock (DelAppender 7))), (0, None), (0, None), (1, None)]"

lemmas schedule_defs = clear_schedule_def copy_schedule_def add_one_schedule_def

lemma schedule_calls_race:
  "schedule_calls clear_schedule \<subseteq> logger_calls - {CopyBegin}" "schedule_calls copy_schedule \<subseteq> logger_calls - {ClearRun}"
  by (auto simp: schedule_calls_def schedule_defs logger_calls_def)

context lock_contract
begin

lemma unlocked_members_undefined:
  assumes "CallLock \<in> lk_calls L"
  shows "loops_race L (logger_calls - {CopyBegin}) \<and> loops_race L (logger_calls - {ClearRun})"
proof -
  obtain l1 where l1: "lk_call L 0 CallLock (lk_new L) = Some l1" using free [OF new assms] by blast
  then have "repr l1 {} (Some 0)" using exclusive [OF new _ _ _ l1] by simp
  then obtain l2 where l2: "lk_call L 0 CallUnlock l1 = Some l2" "repr l2 {} None" using release_exclusive by blast
  obtain l3 where l3: "lk_call L 0 CallLock l2 = Some l3" using free [OF l2(2) assms] by blast
  obtain s where s: "logger_schedule L clear_schedule (logger_start L) = Some s" "gl_undefined s"
    by (simp add: schedule_defs logger_run_simps l1 l2 l3)
  obtain s' where s': "logger_schedule L copy_schedule (logger_start L) = Some s'" "gl_undefined s'"
    by (simp add: schedule_defs logger_run_simps l1 l2 l3)
  from s s' logger_schedule_steps [OF s(1) schedule_calls_race(1)] logger_schedule_steps [OF s'(1) schedule_calls_race(2)]
  show ?thesis unfolding loops_race_def by blast
qed

end

context pthread_mutex
begin

lemma loops_safe_mutex: "loops_safe (Mutex P)"
  by (rule mutex.all_loops_safe)

lemma unlocked_members_mutex: "loops_race (Mutex P) (logger_calls - {CopyBegin}) \<and> loops_race (Mutex P) (logger_calls - {ClearRun})"
  by (rule mutex.unlocked_members_undefined) (simp add: Mutex_def)

end

subsection \<open>Properties\<close>

text \<open>C13. Loops over the appenders are safe against changes under the lock: however the threads interleave \<open>log\<close>, \<open>setFormatter\<close>,
  \<open>toYamlString\<close>, \<open>getFormatter\<close>, \<open>addAppender\<close>, \<open>delAppender\<close> and \<open>setLevel\<close> on a logger, whichever of the three locks it is
  built with, no loop follows an iterator to an erased appender, and a call that has come to the end of its loop has come to
  exactly the appenders the logger has, each once and in order; for \<open>log\<close> these are the ones that were given the event.\<close>

theorem log_loops_safe:
  assumes "pthread_mutex P owner"
  shows "loops_safe (Mutex P) \<and> loops_safe (Spinlock P) \<and> loops_safe CASLock"
  using pthread_mutex.loops_safe_mutex [OF assms] caslock.all_loops_safe by (simp add: Spinlock_Mutex)

text \<open>Two appenders are added, and while one thread is in the loop another waits to delete the first.\<close>

definition demo_log_schedule :: "(nat \<times> logger_pc option) list" where
  "demo_log_schedule = add_one_schedule @
     [(0, Some (SectionLock (AddAppender 8))), (0, None), (0, None), (0, None),
      (0, Some (LogTest ERROR)), (0, None), (0, None), (0, None), (1, Some (SectionLock (DelAppender 7))),
      (0, None), (0, None), (0, None), (0, None), (0, None)]"

theorem log_loops_safe_witness:
  "\<exists>s. (logger_step (Mutex posix_mutex) locked_calls)\<^sup>*\<^sup>* (logger_start (Mutex posix_mutex)) s \<and>
     gl_pc s 1 = SectionLock (DelAppender 7) \<and> gl_pc s 0 = LoopUnlock InLog [7, 8] \<and> \<not> gl_undefined s \<and> map snd (gl_nodes s) = [7, 8]"
proof -
  obtain s where s: "logger_schedule (Mutex posix_mutex) demo_log_schedule (logger_start (Mutex posix_mutex)) = Some s"
    "gl_pc s 1 = SectionLock (DelAppender 7)" "gl_pc s 0 = LoopUnlock InLog [7, 8]"
    by (simp add: demo_log_schedule_def add_one_schedule_def logger_run_simps mutex_defs posix_mutex_def)
  have "(logger_step (Mutex posix_mutex) locked_calls)\<^sup>*\<^sup>* (logger_start (Mutex posix_mutex)) s"
    by (rule logger_schedule_steps [OF s(1)])
      (auto simp: demo_log_schedule_def add_one_schedule_def schedule_calls_def locked_calls_def logger_calls_def)
  moreover have "loops_safe (Mutex posix_mutex)" using log_loops_safe [OF posix_mutex.pthread_mutex_axioms] by blast
  ultimately show ?thesis using s(2,3) unfolding loops_safe_def by metis
qed

text \<open>C35. The members without lock are not safe: a thread that logs while another calls \<open>clearAppenders\<close>, and a thread that
  calls \<open>getAppenders\<close> while another deletes an appender, can follow an iterator to an erased node, whichever lock the
  logging system is built with: undefined behaviour. Loading a logging configuration calls \<open>clearAppenders\<close>.\<close>

theorem unlocked_members_race:
  assumes "pthread_mutex P owner" and "C = logger_calls - {CopyBegin} \<or> C = logger_calls - {ClearRun}"
  shows "loops_race (Mutex P) C \<and> loops_race (Spinlock P) C \<and> loops_race CASLock C"
proof -
  have "loops_race CASLock C" using caslock.unlocked_members_undefined assms(2) by (auto simp: CASLock_def)
  then show ?thesis using pthread_mutex.unlocked_members_mutex [OF assms(1)] assms(2) by (auto simp: Spinlock_Mutex)
qed

theorem unlocked_members_race_witness:
  "(\<exists>s. (logger_step (Mutex posix_mutex) (logger_calls - {ClearRun}))\<^sup>*\<^sup>* (logger_start (Mutex posix_mutex)) s \<and> gl_undefined s) \<and>
   (\<exists>s. (logger_step CASLock (logger_calls - {CopyBegin}))\<^sup>*\<^sup>* (logger_start CASLock) s \<and> gl_undefined s)"
  using unlocked_members_race [OF posix_mutex.pthread_mutex_axioms] unfolding loops_race_def by blast

end
