(* ===== verification/File_Conc.thy ===== *)
theory File_Conc
  imports Log_Sink Locks
begin

text \<open>
  One \<open>FileLogAppender\<close> that several threads log to, as happens when loggers share it. \<open>log\<close> looks at the level and at
  \<open>m_lastTime\<close> without the lock, reopens the file under it when the second has changed, sets \<open>m_lastTime\<close>
  without it, and formats and writes under it again. Closing and opening are two steps, and the text is written
  in pieces of any size, as \<open>operator<<\<close> may.
\<close>

subsection \<open>The threads\<close>

text \<open>The two halves of \<open>reopen\<close>.\<close>

definition close_stream :: "nat \<Rightarrow> log_state \<Rightarrow> log_state" where
  "close_stream a st =
     (case st_appenders st a of
        Some ap \<Rightarrow>
          (case a_kind ap of
             FileLogAppender f s t \<Rightarrow>
               upd_appender a (\<lambda>ap. ap\<lparr>a_kind := FileLogAppender f (if fs_good s then fs_close s else s) t\<rparr>) st
           | StdoutLogAppender \<Rightarrow> st)
      | None \<Rightarrow> st)"

definition open_stream :: "io_env \<Rightarrow> nat \<Rightarrow> log_state \<Rightarrow> log_state" where
  "open_stream io a st =
     (case st_appenders st a of
        Some ap \<Rightarrow>
          (case a_kind ap of
             FileLogAppender f s t \<Rightarrow>
               (let s2 = fs_open_app (io_can_open io f) s;
                    st1 = upd_appender a (\<lambda>ap. ap\<lparr>a_kind := FileLogAppender f s2 t\<rparr>) st
                in if fs_good s2 then touch_file f st1 else st1)
           | StdoutLogAppender \<Rightarrow> st)
      | None \<Rightarrow> st)"

text \<open>A call has its event and the second in which it was made.\<close>

datatype file_pc =
    FIdle
  | FTest log_event "64 word"
  | FCompare log_event "64 word"
  | FReopenLock log_event "64 word"
  | FClose log_event "64 word"
  | FOpen log_event "64 word"
  | FReopenUnlock log_event "64 word"
  | FSetTime log_event "64 word"
  | FWriteLock log_event
  | FFormat log_event
  | FPut string
  | FWriteUnlock

text \<open>\<open>ff_order\<close> records the events in the order in which they were formatted, with their threads.\<close>

record 'l file_sys =
  ff_lock :: "'l"
  ff_state :: log_state
  ff_todo :: "nat \<Rightarrow> (log_event \<times> 64 word) list"
  ff_pc :: "nat \<Rightarrow> file_pc"
  ff_order :: "(nat \<times> log_event) list"

definition file_start :: "'l lock_class \<Rightarrow> log_state \<Rightarrow> (nat \<Rightarrow> (log_event \<times> 64 word) list) \<Rightarrow> 'l file_sys" where
  "file_start L st progs = \<lparr>ff_lock = lk_new L, ff_state = st, ff_todo = progs, ff_pc = (\<lambda>_. FIdle), ff_order = []\<rparr>"

definition ff_goto :: "nat \<Rightarrow> file_pc \<Rightarrow> 'l file_sys \<Rightarrow> 'l file_sys" where
  "ff_goto t pc s = s\<lparr>ff_pc := (ff_pc s)(t := pc)\<rparr>"

definition ff_lock_goto :: "'l lock_class \<Rightarrow> nat \<Rightarrow> mutex_call \<Rightarrow> file_pc \<Rightarrow> 'l file_sys \<Rightarrow> 'l file_sys option" where
  "ff_lock_goto L t c pc s = map_option (\<lambda>l. ff_goto t pc (s\<lparr>ff_lock := l\<rparr>)) (lk_call L t c (ff_lock s))"

text \<open>
  The next statement of thread \<open>t\<close>; in the middle of a text, up to \<open>n\<close> + 1 more characters. A formatter that throws unwinds the guard; a
  null pointer ends the run.
\<close>

definition file_run :: "'l lock_class \<Rightarrow> io_env \<Rightarrow> nat \<Rightarrow> nat \<Rightarrow> nat \<Rightarrow> 'l file_sys \<Rightarrow> 'l file_sys option" where
  "file_run L io a t n s =
     (case st_appenders (ff_state s) a of
        None \<Rightarrow> None
      | Some ap \<Rightarrow>
          (case ff_pc s t of
             FIdle \<Rightarrow>
               (case ff_todo s t of
                  [] \<Rightarrow> None
                | (ev, now) # evs \<Rightarrow> Some (ff_goto t (FTest ev now) (s\<lparr>ff_todo := (ff_todo s)(t := evs)\<rparr>)))
           | FTest ev now \<Rightarrow> Some (ff_goto t (if a_level ap \<le> ev_level ev then FCompare ev now else FIdle) s)
           | FCompare ev now \<Rightarrow> Some (ff_goto t (if now \<noteq> m_lastTime (a_kind ap) then FReopenLock ev now else FWriteLock ev) s)
           | FReopenLock ev now \<Rightarrow> ff_lock_goto L t CallLock (FClose ev now) s
           | FClose ev now \<Rightarrow> Some (ff_goto t (FOpen ev now) (s\<lparr>ff_state := close_stream a (ff_state s)\<rparr>))
           | FOpen ev now \<Rightarrow> Some (ff_goto t (FReopenUnlock ev now) (s\<lparr>ff_state := open_stream io a (ff_state s)\<rparr>))
           | FReopenUnlock ev now \<Rightarrow> ff_lock_goto L t CallUnlock (FSetTime ev now) s
           | FSetTime ev now \<Rightarrow> Some (ff_goto t (FWriteLock ev) (s\<lparr>ff_state := set_lastTime a now (ff_state s)\<rparr>))
           | FWriteLock ev \<Rightarrow> ff_lock_goto L t CallLock (FFormat ev) s
           | FFormat ev \<Rightarrow>
               (case a_formatter ap of
                  None \<Rightarrow> None
                | Some f \<Rightarrow>
                    (case LogFormatter_format (env_of io (ff_state s)) f ev of
                       Inl e \<Rightarrow> Some (ff_goto t FWriteUnlock s)
                     | Inr text \<Rightarrow> Some (ff_goto t (FPut text) (s\<lparr>ff_order := ff_order s @ [(t, ev)]\<rparr>))))
           | FPut text \<Rightarrow>
               (if text = [] then Some (ff_goto t FWriteUnlock s)
                else Some (ff_goto t (FPut (drop (Suc n) text)) (s\<lparr>ff_state := stream_write io a (take (Suc n) text) (ff_state s)\<rparr>)))
           | FWriteUnlock \<Rightarrow> ff_lock_goto L t CallUnlock FIdle s))"

definition file_step :: "'l lock_class \<Rightarrow> io_env \<Rightarrow> nat \<Rightarrow> 'l file_sys \<Rightarrow> 'l file_sys \<Rightarrow> bool" where
  "file_step L io a s s' \<longleftrightarrow> (\<exists>t n. file_run L io a t n s = Some s')"

lemma file_stepI: "file_run L io a t n s = Some s' \<Longrightarrow> file_step L io a s s'"
  by (auto simp: file_step_def)

lemma reopen_halves: "fst (FileLogAppender_reopen io a st) = open_stream io a (close_stream a st)"
  by (auto simp: FileLogAppender_reopen_def open_stream_def close_stream_def upd_appender_def Let_def
      split: option.splits appender_kind.splits)

text \<open>Running the threads in the order of a schedule of threads and sizes.\<close>

fun run_file :: "'l lock_class \<Rightarrow> io_env \<Rightarrow> nat \<Rightarrow> (nat \<times> nat) list \<Rightarrow> 'l file_sys \<Rightarrow> 'l file_sys option" where
  "run_file L io a [] s = Some s"
| "run_file L io a ((t, n) # ts) s = (case file_run L io a t n s of None \<Rightarrow> None | Some s' \<Rightarrow> run_file L io a ts s')"

lemma run_file_steps: "run_file L io a ts s = Some s' \<Longrightarrow> (file_step L io a)\<^sup>*\<^sup>* s s'"
  by (induction L io a ts s rule: run_file.induct)
    (auto split: option.splits intro: converse_rtranclp_into_rtranclp file_stepI)

text \<open>Closing, opening and setting the time leave the formatter.\<close>

definition formatter_at :: "nat \<Rightarrow> log_state \<Rightarrow> log_formatter option option" where
  "formatter_at a st = map_option a_formatter (st_appenders st a)"

lemma formatter_kept:
  "formatter_at a (close_stream a st) = formatter_at a st" "formatter_at a (open_stream io a st) = formatter_at a st"
  "formatter_at a (set_lastTime a now st) = formatter_at a st" "formatter_at a (stream_write io a x st) = formatter_at a st"
  by (auto simp: formatter_at_def close_stream_def open_stream_def set_lastTime_def stream_write_def store_simps Let_def
      option.map_comp o_def split: option.splits appender_kind.splits)

lemma formatter_at_Some: "formatter_at a st = Some f \<longleftrightarrow> (\<exists>ap. st_appenders st a = Some ap \<and> a_formatter ap = f)"
  by (auto simp: formatter_at_def)

text \<open>One thread alone does what \<open>FileLogAppender_log\<close> says.\<close>

context lock_contract
begin

lemma file_alone_writes:
  assumes "ff_pc s t = FWriteLock ev" and "repr (ff_lock s) {} None" and "CallLock \<in> lk_calls L"
    and "formatter_at a (ff_state s) = Some (Some f)"
    and "LogFormatter_format (env_of io (ff_state s)) f ev = Inr text" and "text \<noteq> []"
  shows "\<exists>s'. (file_step L io a)\<^sup>*\<^sup>* s s' \<and> ff_state s' = stream_write io a text (ff_state s) \<and> ff_pc s' = (ff_pc s)(t := FIdle)"
proof -
  obtain l1 where l1: "lk_call L t CallLock (ff_lock s) = Some l1" using free [OF assms(2,3)] by blast
  then have "repr l1 {} (Some t)" using exclusive [OF assms(2) _ _ _ l1] by simp
  then obtain l2 where l2: "lk_call L t CallUnlock l1 = Some l2" using release_exclusive by blast
  have "formatter_at a (stream_write io a x (ff_state s)) = Some (Some f)" for x using assms(4) by (simp add: formatter_kept)
  then have ap: "\<exists>ap'. st_appenders (stream_write io a x (ff_state s)) a = Some ap'" for x by (auto simp: formatter_at_Some)
  obtain s' where "run_file L io a [(t, 0), (t, 0), (t, length text), (t, 0), (t, 0)] s = Some s'"
    "ff_state s' = stream_write io a text (ff_state s)" "ff_pc s' = (ff_pc s)(t := FIdle)"
    using assms(1,4-6) l1 l2 ap [of "text"] by (auto simp: file_run_def ff_lock_goto_def ff_goto_def formatter_at_Some)
  then show ?thesis using run_file_steps by blast
qed

lemma file_alone_reopens:
  assumes "ff_pc s t = FReopenLock ev now" and "repr (ff_lock s) {} None" and "CallLock \<in> lk_calls L"
    and "formatter_at a (ff_state s) = Some f"
  shows "\<exists>s'. (file_step L io a)\<^sup>*\<^sup>* s s' \<and> ff_state s' = set_lastTime a now (fst (FileLogAppender_reopen io a (ff_state s))) \<and>
    ff_pc s' = (ff_pc s)(t := FWriteLock ev) \<and> repr (ff_lock s') {} None"
proof -
  obtain l1 where l1: "lk_call L t CallLock (ff_lock s) = Some l1" using free [OF assms(2,3)] by blast
  then have "repr l1 {} (Some t)" using exclusive [OF assms(2) _ _ _ l1] by simp
  then obtain l2 where l2: "lk_call L t CallUnlock l1 = Some l2" "repr l2 {} None" using release_exclusive by blast
  have "formatter_at a (close_stream a (ff_state s)) = Some f" "formatter_at a (open_stream io a (close_stream a (ff_state s))) = Some f"
    using assms(4) by (simp_all add: formatter_kept)
  then obtain ap0 ap1 ap2 where ap: "st_appenders (ff_state s) a = Some ap0" "st_appenders (close_stream a (ff_state s)) a = Some ap1"
    "st_appenders (open_stream io a (close_stream a (ff_state s))) a = Some ap2"
    using assms(4) by (auto simp: formatter_at_Some)
  obtain s' where "run_file L io a [(t, 0), (t, 0), (t, 0), (t, 0), (t, 0)] s = Some s'"
    "ff_state s' = set_lastTime a now (fst (FileLogAppender_reopen io a (ff_state s)))" "ff_pc s' = (ff_pc s)(t := FWriteLock ev)" "ff_lock s' = l2"
    using assms(1) l1 l2(1) ap by (auto simp: file_run_def ff_lock_goto_def ff_goto_def reopen_halves)
  then show ?thesis using run_file_steps l2(2) by blast
qed

lemma file_alone:
  assumes pc: "ff_pc s t = FTest ev (io_now io)" and lock: "repr (ff_lock s) {} None" "CallLock \<in> lk_calls L"
    and log: "FileLogAppender_log io a ev (ff_state s) = Inr st'"
    and nonempty: "\<And>st f. LogFormatter_format (env_of io st) f ev \<noteq> Inr []"
  shows "\<exists>s'. (file_step L io a)\<^sup>*\<^sup>* s s' \<and> ff_state s' = st' \<and> ff_pc s' = (ff_pc s)(t := FIdle)"
proof -
  obtain ap where ap: "st_appenders (ff_state s) a = Some ap" using log by (auto simp: FileLogAppender_log_def split: option.splits)
  define pc1 where "pc1 = (if a_level ap \<le> ev_level ev then FCompare ev (io_now io) else FIdle)"
  have first: "file_step L io a s (ff_goto t pc1 s)" using pc ap by (intro file_stepI [of _ _ _ t 0]) (simp add: file_run_def pc1_def)
  show ?thesis
  proof (cases "a_level ap \<le> ev_level ev")
    case False
    with log ap first show ?thesis by (auto simp: FileLogAppender_log_def pc1_def ff_goto_def intro!: exI [of _ "ff_goto t pc1 s"])
  next
    case True
    let ?s1 = "ff_goto t pc1 s"
    define pc2 where "pc2 = (if io_now io \<noteq> m_lastTime (a_kind ap) then FReopenLock ev (io_now io) else FWriteLock ev)"
    have second: "file_step L io a ?s1 (ff_goto t pc2 ?s1)"
      using True ap by (intro file_stepI [of _ _ _ t 0]) (simp add: file_run_def pc1_def pc2_def ff_goto_def)
    define st1 where "st1 = (if io_now io \<noteq> m_lastTime (a_kind ap)
        then set_lastTime a (io_now io) (fst (FileLogAppender_reopen io a (ff_state s))) else ff_state s)"
    obtain f x where f: "a_formatter ap = Some f" "LogFormatter_format (env_of io st1) f ev = Inr x" "st' = stream_write io a x st1"
      using log ap True by (auto simp: FileLogAppender_log_def st1_def Let_def bind_res_Inr_conv split: option.splits)
    have fmt: "formatter_at a (ff_state s) = Some (Some f)" using ap f(1) by (simp add: formatter_at_Some)
    have "\<exists>s2. (file_step L io a)\<^sup>*\<^sup>* (ff_goto t pc2 ?s1) s2 \<and> ff_state s2 = st1 \<and> ff_pc s2 = (ff_pc s)(t := FWriteLock ev) \<and> repr (ff_lock s2) {} None"
    proof (cases "io_now io \<noteq> m_lastTime (a_kind ap)")
      case True
      with file_alone_reopens [of "ff_goto t pc2 ?s1" t ev "io_now io" a "Some f" io] fmt lock show ?thesis
        by (simp add: pc2_def st1_def ff_goto_def)
    next
      case False
      with lock show ?thesis by (intro exI [of _ "ff_goto t pc2 ?s1"]) (simp add: pc2_def st1_def ff_goto_def)
    qed
    then obtain s2 where s2: "(file_step L io a)\<^sup>*\<^sup>* (ff_goto t pc2 ?s1) s2" "ff_state s2 = st1" "ff_pc s2 = (ff_pc s)(t := FWriteLock ev)"
      "repr (ff_lock s2) {} None" by blast
    have "formatter_at a st1 = Some (Some f)" using fmt by (simp add: st1_def reopen_halves formatter_kept)
    with file_alone_writes [of s2 t ev a f io x] s2 lock(2) f nonempty [of st1 f] obtain s3 where
      "(file_step L io a)\<^sup>*\<^sup>* s2 s3" "ff_state s3 = st'" "ff_pc s3 = (ff_pc s)(t := FIdle)" by auto
    moreover have "(file_step L io a)\<^sup>*\<^sup>* s s2"
      by (rule converse_rtranclp_into_rtranclp [OF first converse_rtranclp_into_rtranclp [OF second s2(1)]])
    ultimately show ?thesis by (auto intro: rtranclp_trans)
  qed
qed

end

subsection \<open>The invariant\<close>

fun in_file :: "file_pc \<Rightarrow> bool" where
  "in_file (FClose ev now) = True"
| "in_file (FOpen ev now) = True"
| "in_file (FReopenUnlock ev now) = True"
| "in_file (FFormat ev) = True"
| "in_file (FPut text) = True"
| "in_file FWriteUnlock = True"
| "in_file pc = False"

text \<open>What the thread inside has still to write, and whether it has closed the file.\<close>

fun unwritten :: "file_pc \<Rightarrow> string" where
  "unwritten (FPut text) = text"
| "unwritten pc = []"

fun closed :: "file_pc \<Rightarrow> bool" where
  "closed (FOpen ev now) = True"
| "closed pc = False"

lemma outside_file: "\<not> in_file pc \<Longrightarrow> unwritten pc = [] \<and> \<not> closed pc"
  by (cases pc) simp_all

text \<open>The event of a call that has begun, if it passes the level, and is not formatted yet.\<close>

fun pending :: "log_appender \<Rightarrow> file_pc \<Rightarrow> log_event list" where
  "pending ap (FTest ev now) = (if a_level ap \<le> ev_level ev then [ev] else [])"
| "pending ap (FCompare ev now) = [ev]"
| "pending ap (FReopenLock ev now) = [ev]"
| "pending ap (FClose ev now) = [ev]"
| "pending ap (FOpen ev now) = [ev]"
| "pending ap (FReopenUnlock ev now) = [ev]"
| "pending ap (FSetTime ev now) = [ev]"
| "pending ap (FWriteLock ev) = [ev]"
| "pending ap (FFormat ev) = [ev]"
| "pending ap pc = []"

definition passing :: "log_appender \<Rightarrow> (log_event \<times> 64 word) list \<Rightarrow> log_event list" where
  "passing ap calls = filter (\<lambda>ev. a_level ap \<le> ev_level ev) (map fst calls)"

text \<open>
  The appender is \<open>ap\<close> but for its stream, which is good and, unless the thread at \<open>pc\<close> has closed it, open, and its time; its
  file and what that thread has still to write make up \<open>text\<close>.
\<close>

definition file_good :: "nat \<Rightarrow> log_appender \<Rightarrow> string \<Rightarrow> log_state \<Rightarrow> string \<Rightarrow> file_pc \<Rightarrow> log_state \<Rightarrow> bool" where
  "file_good a ap f st0 text pc st \<longleftrightarrow>
     (\<exists>t. st_appenders st a = Some (ap\<lparr>a_kind := FileLogAppender f \<lparr>fs_open = (\<not> closed pc), fs_good = True\<rparr> t\<rparr>)) \<and>
     st_loggers st = st_loggers st0 \<and> sink_text st (File f) @ unwritten pc = text"

lemma file_good_same:
  "closed pc = closed pc' \<Longrightarrow> unwritten pc = unwritten pc' \<Longrightarrow> file_good a ap f st0 text pc st = file_good a ap f st0 text pc' st"
  by (simp add: file_good_def)

lemma file_good_close: "file_good a ap f st0 text (FClose ev now) st \<Longrightarrow> file_good a ap f st0 text (FOpen ev now) (close_stream a st)"
  by (auto simp: file_good_def close_stream_def fs_close_def store_simps)

lemma file_good_open:
  assumes "file_good a ap f st0 text (FOpen ev now) st" and "io_can_open io f"
  shows "file_good a ap f st0 text (FReopenUnlock ev now) (open_stream io a st)"
  using assms by (auto simp: file_good_def open_stream_def fs_open_app_def store_simps Let_def simp del: sink_text.simps)

lemma file_good_time: "file_good a ap f st0 text pc st \<Longrightarrow> file_good a ap f st0 text pc (set_lastTime a now st)"
  by (auto simp: file_good_def set_lastTime_def store_simps)

lemma file_good_put:
  assumes "file_good a ap f st0 text (FPut x) st" and "io_can_write io f"
  shows "file_good a ap f st0 text (FPut (drop n x)) (stream_write io a (take n x) st)"
  using assms by (auto simp: file_good_def stream_write_def store_simps simp del: sink_text.simps)

lemma file_good_format: "file_good a ap f st0 text (FFormat ev) st \<Longrightarrow> file_good a ap f st0 (text @ x) (FPut x) st"
  by (simp add: file_good_def)

lemma file_good_env: "file_good a ap f st0 text pc st \<Longrightarrow> env_of io st = env_of io st0"
  by (simp add: file_good_def env_of_def)

text \<open>The appender and the calls of a run, with what is asked of them.\<close>

record file_setup =
  fq_io :: io_env
  fq_a :: nat
  fq_ap :: log_appender
  fq_file :: string
  fq_fmt :: log_formatter
  fq_st :: log_state
  fq_progs :: "nat \<Rightarrow> (log_event \<times> 64 word) list"

text \<open>The file is open and can be opened again and written, finitely many threads log, and every event that passes the level can be rendered.\<close>

definition file_ready :: "file_setup \<Rightarrow> bool" where
  "file_ready q \<longleftrightarrow>
     st_appenders (fq_st q) (fq_a q) = Some (fq_ap q) \<and> a_formatter (fq_ap q) = Some (fq_fmt q) \<and>
     kind_sink (a_kind (fq_ap q)) = File (fq_file q) \<and> kind_healthy (fq_io q) (a_kind (fq_ap q)) \<and>
     finite {t. fq_progs q t \<noteq> []} \<and>
     (\<forall>t. \<forall>ev \<in> set (passing (fq_ap q) (fq_progs q t)). can_render (fq_io q) ev (fq_st q) (fq_fmt q))"

text \<open>The old text and, in the order of formatting, the text of each event.\<close>

definition whole_texts :: "file_setup \<Rightarrow> 'l file_sys \<Rightarrow> string" where
  "whole_texts q s = sink_text (fq_st q) (File (fq_file q)) @
     concat (map (\<lambda>(t, ev). rendered (fq_io q) (fq_st q) ev (fq_ap q)) (ff_order s))"

definition formatted_by :: "nat \<Rightarrow> 'l file_sys \<Rightarrow> log_event list" where
  "formatted_by t s = map snd (filter (\<lambda>c. fst c = t) (ff_order s))"

definition good :: "file_setup \<Rightarrow> 'l file_sys \<Rightarrow> file_pc \<Rightarrow> log_state \<Rightarrow> bool" where
  "good q s = file_good (fq_a q) (fq_ap q) (fq_file q) (fq_st q) (whole_texts q s)"

definition calls_kept :: "file_setup \<Rightarrow> 'l file_sys \<Rightarrow> bool" where
  "calls_kept q s \<longleftrightarrow>
     (\<forall>t. formatted_by t s @ pending (fq_ap q) (ff_pc s t) @ passing (fq_ap q) (ff_todo s t) = passing (fq_ap q) (fq_progs q t))"

definition alone :: "nat \<Rightarrow> (nat \<Rightarrow> file_pc) \<Rightarrow> bool" where
  "alone t pcs \<longleftrightarrow> (\<forall>u. u \<noteq> t \<longrightarrow> \<not> in_file (pcs u))"

text \<open>A thread that no other thread is inside with finds the file good.\<close>

definition texts_kept :: "file_setup \<Rightarrow> 'l file_sys \<Rightarrow> bool" where
  "texts_kept q s \<longleftrightarrow> (\<forall>t. alone t (ff_pc s) \<longrightarrow> good q s (ff_pc s t) (ff_state s))"

lemma ff_goto_simps [simp]:
  "ff_lock (ff_goto t pc s) = ff_lock s" "ff_state (ff_goto t pc s) = ff_state s" "ff_todo (ff_goto t pc s) = ff_todo s"
  "ff_order (ff_goto t pc s) = ff_order s" "ff_pc (ff_goto t pc s) = (ff_pc s)(t := pc)"
  by (simp_all add: ff_goto_def)

lemma passing_simps [simp]:
  "passing ap [] = []" "passing ap ((ev, now) # cs) = (if a_level ap \<le> ev_level ev then [ev] else []) @ passing ap cs"
  by (simp_all add: passing_def)

lemma alone_step: "alone t (pcs(t := pc)) = alone t pcs"
  by (simp add: alone_def)

lemma good_appender: "good q s pc st \<Longrightarrow> \<exists>k. st_appenders st (fq_a q) = Some (fq_ap q\<lparr>a_kind := k\<rparr>)"
  by (auto simp: good_def file_good_def)

lemma file_run_order: "ff_order s' = ff_order s \<Longrightarrow> good q s' = good q s"
  by (simp add: good_def whole_texts_def)

text \<open>Formatting gives the text of the event.\<close>

lemma file_format:
  assumes "file_ready q" and "calls_kept q s" and "ff_pc s t = FFormat ev" and "good q s pc st"
  shows "LogFormatter_format (env_of (fq_io q) st) (fq_fmt q) ev = Inr (rendered (fq_io q) (fq_st q) ev (fq_ap q))"
proof -
  have "formatted_by t s @ ev # passing (fq_ap q) (ff_todo s t) = passing (fq_ap q) (fq_progs q t)"
    using assms(2,3) unfolding calls_kept_def by (metis append_Cons append_Nil pending.simps(9))
  then have "ev \<in> set (passing (fq_ap q) (fq_progs q t))" by (metis in_set_conv_decomp)
  with assms(1) have "can_render (fq_io q) ev (fq_st q) (fq_fmt q)" "a_level (fq_ap q) \<le> ev_level ev"
    by (auto simp: file_ready_def passing_def)
  moreover have "env_of (fq_io q) st = env_of (fq_io q) (fq_st q)" using assms(4) by (auto simp: good_def dest: file_good_env)
  ultimately show ?thesis using assms(1) by (simp add: format_renders can_render_def rendered_def file_ready_def)
qed

text \<open>The stepping thread, when no other is inside, leaves the file good.\<close>

lemma good_run:
  assumes ready: "file_ready q" and kept: "calls_kept q s" and good: "good q s (ff_pc s t) (ff_state s)"
    and run: "file_run L (fq_io q) (fq_a q) t n s = Some s'"
  shows "good q s' (ff_pc s' t) (ff_state s')"
proof -
  have io: "io_can_open (fq_io q) (fq_file q)" "io_can_write (fq_io q) (fq_file q)" and fmt: "a_formatter (fq_ap q) = Some (fq_fmt q)"
    using ready by (cases "a_kind (fq_ap q)"; simp add: file_ready_def)+
  obtain k where ap: "st_appenders (ff_state s) (fq_a q) = Some (fq_ap q\<lparr>a_kind := k\<rparr>)" using good_appender [OF good] by blast
  note run' = run [unfolded file_run_def ap option.case]
  have same: "good q s' (ff_pc s' t) (ff_state s')"
    if "ff_order s' = ff_order s" "closed (ff_pc s' t) = closed (ff_pc s t)" "unwritten (ff_pc s' t) = unwritten (ff_pc s t)" "ff_state s' = ff_state s"
    using good that file_good_same [OF that(2,3)] by (simp add: file_run_order good_def whole_texts_def)
  show ?thesis
  proof (cases "ff_pc s t")
    case (FFormat ev)
    with run' fmt file_format [OF ready kept FFormat good] have
      "s' = ff_goto t (FPut (rendered (fq_io q) (fq_st q) ev (fq_ap q))) (s\<lparr>ff_order := ff_order s @ [(t, ev)]\<rparr>)" by simp
    with good FFormat show ?thesis by (simp add: good_def whole_texts_def file_good_format del: append_assoc add: append_assoc [symmetric])
  next
    case (FPut x)
    with run' good io show ?thesis
      by (cases "x = []") (auto simp: good_def whole_texts_def file_good_put intro: file_good_same [THEN iffD1, rotated 2])
  next
    case (FSetTime ev now)
    with good have "good q s (FWriteLock ev) (ff_state s)" by (simp add: good_def file_good_same [of "FWriteLock ev" "FSetTime ev now"])
    with run' FSetTime show ?thesis by (auto simp: good_def whole_texts_def file_good_time)
  qed (use run' good io same in \<open>auto simp: good_def whole_texts_def ff_lock_goto_def file_good_close file_good_open
      split: list.splits if_splits\<close>)
qed

lemma calls_kept_run:
  assumes ready: "file_ready q" and kept: "calls_kept q s" and good: "good q s pc (ff_state s)"
    and run: "file_run L (fq_io q) (fq_a q) t n s = Some s'"
  shows "calls_kept q s'"
proof -
  have fmt: "a_formatter (fq_ap q) = Some (fq_fmt q)" using ready by (simp add: file_ready_def)
  obtain k where ap: "st_appenders (ff_state s) (fq_a q) = Some (fq_ap q\<lparr>a_kind := k\<rparr>)" using good_appender [OF good] by blast
  note run' = run [unfolded file_run_def ap option.case]
  have "formatted_by u s' @ pending (fq_ap q) (ff_pc s' u) @ passing (fq_ap q) (ff_todo s' u) =
      formatted_by u s @ pending (fq_ap q) (ff_pc s u) @ passing (fq_ap q) (ff_todo s u)" for u
  proof (cases "ff_pc s t")
    case (FFormat ev)
    with run' fmt file_format [OF ready kept FFormat good] show ?thesis by (auto simp: formatted_by_def)
  qed (use run' in \<open>auto simp: formatted_by_def ff_lock_goto_def split: list.splits if_splits\<close>)
  with kept show ?thesis by (simp add: calls_kept_def)
qed

text \<open>The other threads' steps: what a thread does outside leaves the file good, and so does its leaving.\<close>

lemma good_other:
  assumes good: "good q s (if in_file (ff_pc s t) then ff_pc s t else pc) (ff_state s)"
    and run: "file_run L (fq_io q) (fq_a q) t n s = Some s'" and out: "\<not> in_file (ff_pc s' t)" and pc: "in_file (ff_pc s t) \<longrightarrow> \<not> in_file pc"
  shows "good q s' pc (ff_state s')"
proof -
  obtain k where ap: "st_appenders (ff_state s) (fq_a q) = Some (fq_ap q\<lparr>a_kind := k\<rparr>)" using good_appender [OF good] by blast
  note run' = run [unfolded file_run_def ap option.case]
  have same: "good q s pc (ff_state s)" if "\<not> closed (ff_pc s t)" "unwritten (ff_pc s t) = []"
    using good that outside_file [of pc] pc file_good_same [of "ff_pc s t" pc] by (auto simp: good_def split: if_splits)
  show ?thesis using run' out same file_good_time
    by (cases "ff_pc s t") (auto simp: good_def whole_texts_def ff_lock_goto_def split: list.splits if_splits option.splits sum.splits)
qed

lemma file_run_others: "file_run L io a t n s = Some s' \<Longrightarrow> u \<noteq> t \<Longrightarrow> ff_pc s' u = ff_pc s u"
  by (cases "ff_pc s t") (auto simp: file_run_def ff_lock_goto_def split: list.splits option.splits sum.splits if_splits)

lemma file_run_todo: "file_run L io a t n s = Some s' \<Longrightarrow> u \<noteq> t \<Longrightarrow> ff_todo s' u = ff_todo s u"
  by (cases "ff_pc s t") (auto simp: file_run_def ff_lock_goto_def split: list.splits option.splits sum.splits if_splits)

text \<open>How many steps a thread has left, when it writes its text at once.\<close>

fun pc_rank :: "file_pc \<Rightarrow> nat" where
  "pc_rank FIdle = 0"
| "pc_rank (FTest ev now) = 12"
| "pc_rank (FCompare ev now) = 11"
| "pc_rank (FReopenLock ev now) = 10"
| "pc_rank (FClose ev now) = 9"
| "pc_rank (FOpen ev now) = 8"
| "pc_rank (FReopenUnlock ev now) = 7"
| "pc_rank (FSetTime ev now) = 6"
| "pc_rank (FWriteLock ev) = 5"
| "pc_rank (FFormat ev) = 4"
| "pc_rank (FPut text) = (if text = [] then 2 else 3)"
| "pc_rank FWriteUnlock = 1"

definition file_rank :: "'l file_sys \<Rightarrow> nat \<Rightarrow> nat" where
  "file_rank s t = 13 * length (ff_todo s t) + pc_rank (ff_pc s t)"

lemma file_run_rank:
  "file_run L io a t n s = Some s' \<Longrightarrow> length (unwritten (ff_pc s t)) \<le> n \<Longrightarrow> file_rank s' t < file_rank s t"
  by (cases "ff_pc s t")
    (auto simp: file_run_def file_rank_def ff_lock_goto_def split: list.splits option.splits sum.splits if_splits)

text \<open>A thread that is given nothing to do does nothing.\<close>

definition quiet :: "file_setup \<Rightarrow> 'l file_sys \<Rightarrow> bool" where
  "quiet q s \<longleftrightarrow> (\<forall>t. fq_progs q t = [] \<longrightarrow> ff_pc s t = FIdle \<and> ff_todo s t = [])"

lemma quiet_run:
  assumes "quiet q s" and "file_run L io a t n s = Some s'"
  shows "quiet q s'"
proof -
  have "fq_progs q t \<noteq> []" using assms by (auto simp: quiet_def file_run_def split: option.splits)
  then show ?thesis using assms(1) file_run_others [OF assms(2)] file_run_todo [OF assms(2)] unfolding quiet_def by metis
qed

lemma file_start_inv:
  assumes "file_ready q"
  shows "calls_kept q (file_start L (fq_st q) (fq_progs q))" and "texts_kept q (file_start L (fq_st q) (fq_progs q))"
proof -
  show "calls_kept q (file_start L (fq_st q) (fq_progs q))" by (simp add: calls_kept_def file_start_def formatted_by_def)
  obtain s t where "a_kind (fq_ap q) = FileLogAppender (fq_file q) s t" "fs_open s" "fs_good s"
    using assms by (cases "a_kind (fq_ap q)") (auto simp: file_ready_def)
  then have "fq_ap q = fq_ap q\<lparr>a_kind := FileLogAppender (fq_file q) \<lparr>fs_open = True, fs_good = True\<rparr> t\<rparr>" by simp
  with assms show "texts_kept q (file_start L (fq_st q) (fq_progs q))"
    by (auto simp: texts_kept_def good_def file_good_def whole_texts_def file_start_def file_ready_def simp del: sink_text.simps)
qed

subsection \<open>Under the lock\<close>

context lock_contract
begin

definition file_inv :: "file_setup \<Rightarrow> 'l file_sys \<Rightarrow> bool" where
  "file_inv q s \<longleftrightarrow> held_by (ff_lock s) (\<lambda>_. False) in_file (ff_pc s) \<and> calls_kept q s \<and> texts_kept q s"

lemma held_alone_file: "held_by l (\<lambda>_. False) in_file pcs \<Longrightarrow> in_file (pcs t) \<Longrightarrow> alone t pcs"
  using held_by_alone [of l "\<lambda>_. False" in_file pcs t] by (auto simp: alone_def)

lemma file_inv_alone:
  assumes "file_inv q s"
  obtains u where "alone u (ff_pc s)" "good q s (ff_pc s u) (ff_state s)"
proof -
  have "\<exists>u. alone u (ff_pc s)"
    using assms held_alone_file unfolding file_inv_def by (metis alone_def)
  with assms that show ?thesis by (auto simp: file_inv_def texts_kept_def)
qed

lemma file_held_run:
  assumes "held_by (ff_lock s) (\<lambda>_. False) in_file (ff_pc s)" and "file_run L io a t n s = Some s'"
  shows "held_by (ff_lock s') (\<lambda>_. False) in_file (ff_pc s')"
  using assms(2)
  by (cases "ff_pc s t")
    (auto simp: file_run_def ff_lock_goto_def held_by_same [OF assms(1)] held_by_exclusive [OF assms(1), where c = CallLock]
      held_by_release [OF assms(1)] split: list.splits option.splits sum.splits if_splits)

lemma file_inv_run:
  assumes ready: "file_ready q" and inv: "file_inv q s" and run: "file_run L (fq_io q) (fq_a q) t n s = Some s'"
  shows "file_inv q s'"
proof -
  have held: "held_by (ff_lock s) (\<lambda>_. False) in_file (ff_pc s)" and calls: "calls_kept q s" and texts: "texts_kept q s"
    using inv by (simp_all add: file_inv_def)
  note others = file_run_others [OF run]
  obtain u where "good q s (ff_pc s u) (ff_state s)" using file_inv_alone [OF inv] by blast
  note calls' = calls_kept_run [OF ready calls this run]
  have "good q s' (ff_pc s' u) (ff_state s')" if u: "alone u (ff_pc s')" for u
  proof (cases "u = t")
    case True
    with u others have "alone t (ff_pc s)" by (auto simp: alone_def)
    with texts have "good q s (ff_pc s t) (ff_state s)" by (simp add: texts_kept_def)
    from good_run [OF ready calls this run] True show ?thesis by simp
  next
    case False
    with u have out: "\<not> in_file (ff_pc s' t)" by (auto simp: alone_def)
    have outside: "alone u (ff_pc s)" if "\<not> in_file (ff_pc s t)"
      unfolding alone_def
    proof (intro allI impI)
      fix v assume "v \<noteq> u"
      with u have "\<not> in_file (ff_pc s' v)" by (simp add: alone_def)
      with that others [of v] show "\<not> in_file (ff_pc s v)" by (cases "v = t") simp_all
    qed
    have inside: "alone t (ff_pc s) \<and> \<not> in_file (ff_pc s u)" if "in_file (ff_pc s t)"
      using held_alone_file [OF held that] False by (simp add: alone_def)
    have "good q s (if in_file (ff_pc s t) then ff_pc s t else ff_pc s u) (ff_state s)" "in_file (ff_pc s t) \<longrightarrow> \<not> in_file (ff_pc s u)"
      using texts inside outside by (simp_all add: texts_kept_def)
    from good_other [OF this(1) run out this(2)] others [OF False] show ?thesis by simp
  qed
  with calls' file_held_run [OF held run] show ?thesis by (simp add: file_inv_def texts_kept_def)
qed

lemma file_reachable:
  assumes "file_ready q" and "(file_step L (fq_io q) (fq_a q))\<^sup>*\<^sup>* (file_start L (fq_st q) (fq_progs q)) s"
  shows "file_inv q s" and "quiet q s"
proof -
  from assms(2) have "file_inv q s \<and> quiet q s"
  proof (induction rule: rtranclp_induct)
    case base
    show ?case using file_start_inv [OF assms(1), of L] by (simp add: file_inv_def file_start_def held_by_new quiet_def)
  next
    case (step s1 s2)
    then show ?case using file_inv_run [OF assms(1)] quiet_run by (fastforce simp: file_step_def)
  qed
  then show "file_inv q s" "quiet q s" by simp_all
qed

text \<open>Whoever is inside can go on, and when nobody is, whoever has something to do can.\<close>

lemma file_inv_progress:
  assumes ready: "file_ready q" and lock: "CallLock \<in> lk_calls L" and inv: "file_inv q s"
    and busy: "ff_pc s t \<noteq> FIdle \<or> ff_todo s t \<noteq> []"
  shows "\<exists>u. \<forall>n. \<exists>s'. file_run L (fq_io q) (fq_a q) u n s = Some s'"
proof -
  have fmt: "a_formatter (fq_ap q) = Some (fq_fmt q)" using ready by (simp add: file_ready_def)
  have held: "held_by (ff_lock s) (\<lambda>_. False) in_file (ff_pc s)" using inv by (simp add: file_inv_def)
  obtain v where good: "good q s (ff_pc s v) (ff_state s)" using file_inv_alone [OF inv] by blast
  obtain k where ap: "st_appenders (ff_state s) (fq_a q) = Some (fq_ap q\<lparr>a_kind := k\<rparr>)" using good_appender [OF good] by blast
  have inside: "\<exists>l. lk_call L u CallUnlock (ff_lock s) = Some l" if "in_file (ff_pc s u)" for u
    using held_can_release [OF held [unfolded held_by_def]] that by simp
  have outside: "\<exists>l. lk_call L u CallLock (ff_lock s) = Some l" if "\<forall>u. \<not> in_file (ff_pc s u)" for u
    using free [OF held_free [OF held [unfolded held_by_def]] lock] that by simp
  have can: "\<exists>s'. file_run L (fq_io q) (fq_a q) u n s = Some s'"
    if "in_file (ff_pc s u) \<or> (\<forall>u. \<not> in_file (ff_pc s u))" "ff_pc s u \<noteq> FIdle \<or> ff_todo s u \<noteq> []" for u n
    using that inside [of u] outside [of u] fmt
    by (cases "ff_pc s u") (auto simp: file_run_def ap ff_lock_goto_def neq_Nil_conv split: sum.splits)
  show ?thesis
  proof (cases "\<exists>u. in_file (ff_pc s u)")
    case True
    then obtain u where "in_file (ff_pc s u)" by blast
    moreover from this have "ff_pc s u \<noteq> FIdle" by auto
    ultimately show ?thesis using can [of u] by blast
  next
    case False
    then show ?thesis using can [of t] busy by blast
  qed
qed

lemma file_inv_finish:
  assumes ready: "file_ready q" and lock: "CallLock \<in> lk_calls L" and fin: "finite {t. fq_progs q t \<noteq> []}"
    and "file_inv q s" and "quiet q s"
  shows "\<exists>s'. (file_step L (fq_io q) (fq_a q))\<^sup>*\<^sup>* s s' \<and> (\<forall>t. ff_pc s' t = FIdle \<and> ff_todo s' t = [])"
  using assms(4,5)
proof (induction "\<Sum>t \<in> {t. fq_progs q t \<noteq> []}. file_rank s t" arbitrary: s rule: less_induct)
  case less
  show ?case
  proof (cases "\<exists>t. ff_pc s t \<noteq> FIdle \<or> ff_todo s t \<noteq> []")
    case True
    then obtain t where "\<forall>n. \<exists>s'. file_run L (fq_io q) (fq_a q) t n s = Some s'"
      using file_inv_progress [OF ready lock less.prems(1)] by blast
    then obtain s1 where run: "file_run L (fq_io q) (fq_a q) t (length (unwritten (ff_pc s t))) s = Some s1" by blast
    have t: "fq_progs q t \<noteq> []"
    proof
      assume "fq_progs q t = []"
      with less.prems(2) have "ff_pc s t = FIdle" "ff_todo s t = []" by (simp_all add: quiet_def)
      with run show False by (simp add: file_run_def split: option.splits)
    qed
    have "(\<Sum>t \<in> {t. fq_progs q t \<noteq> []}. file_rank s1 t) < (\<Sum>t \<in> {t. fq_progs q t \<noteq> []}. file_rank s t)"
    proof (rule sum_strict_mono_ex1 [OF fin])
      show "\<forall>u \<in> {t. fq_progs q t \<noteq> []}. file_rank s1 u \<le> file_rank s u"
      proof
        fix u show "file_rank s1 u \<le> file_rank s u"
          using file_run_rank [OF run order_refl] by (cases "u = t") (simp_all add: file_rank_def file_run_others [OF run] file_run_todo [OF run])
      qed
      show "\<exists>u \<in> {t. fq_progs q t \<noteq> []}. file_rank s1 u < file_rank s u" using file_run_rank [OF run order_refl] t by blast
    qed
    from less.hyps [OF this file_inv_run [OF ready less.prems(1) run] quiet_run [OF less.prems(2) run]] file_stepI [OF run]
    show ?thesis by (blast intro: converse_rtranclp_into_rtranclp)
  next
    case False
    then show ?thesis by blast
  qed
qed

text \<open>What is missing from the file is what the thread inside is about to write.\<close>

lemma file_inv_text:
  assumes "file_inv q s"
  shows "\<exists>rest. sink_text (ff_state s) (File (fq_file q)) @ rest = whole_texts q s \<and> (rest \<noteq> [] \<longrightarrow> (\<exists>t. ff_pc s t = FPut rest))"
proof -
  obtain u where "good q s (ff_pc s u) (ff_state s)" using file_inv_alone [OF assms] by blast
  then have "sink_text (ff_state s) (File (fq_file q)) @ unwritten (ff_pc s u) = whole_texts q s"
    by (simp add: good_def file_good_def del: sink_text.simps)
  moreover have "unwritten (ff_pc s u) \<noteq> [] \<longrightarrow> ff_pc s u = FPut (unwritten (ff_pc s u))" by (cases "ff_pc s u") simp_all
  ultimately show ?thesis by blast
qed

end

text \<open>
  What is to hold in every state that the threads can reach: the file has whole texts, of which only the end of the last can be missing,
  and then the thread inside is about to write it; no call is lost or doubled, and each thread's are in order; and from there the
  threads can come to the end of all their calls.
\<close>

definition file_log_ok :: "file_setup \<Rightarrow> 'l lock_class \<Rightarrow> bool" where
  "file_log_ok q L \<longleftrightarrow>
     (\<forall>s. (file_step L (fq_io q) (fq_a q))\<^sup>*\<^sup>* (file_start L (fq_st q) (fq_progs q)) s \<longrightarrow>
       (\<exists>rest. sink_text (ff_state s) (File (fq_file q)) @ rest = whole_texts q s \<and> (rest \<noteq> [] \<longrightarrow> (\<exists>t. ff_pc s t = FPut rest))) \<and>
       (\<forall>t. formatted_by t s @ pending (fq_ap q) (ff_pc s t) @ passing (fq_ap q) (ff_todo s t) = passing (fq_ap q) (fq_progs q t)) \<and>
       (\<exists>s'. (file_step L (fq_io q) (fq_a q))\<^sup>*\<^sup>* s s' \<and> (\<forall>t. ff_pc s' t = FIdle \<and> ff_todo s' t = [])))"

context lock_contract
begin

lemma file_log_fine:
  assumes "file_ready q" and "CallLock \<in> lk_calls L"
  shows "file_log_ok q L"
  unfolding file_log_ok_def
proof (intro allI impI conjI)
  fix s
  assume "(file_step L (fq_io q) (fq_a q))\<^sup>*\<^sup>* (file_start L (fq_st q) (fq_progs q)) s"
  note inv = file_reachable(1) [OF assms(1) this] and quiet = file_reachable(2) [OF assms(1) this]
  from inv show "\<exists>rest. sink_text (ff_state s) (File (fq_file q)) @ rest = whole_texts q s \<and> (rest \<noteq> [] \<longrightarrow> (\<exists>t. ff_pc s t = FPut rest))"
    by (rule file_inv_text)
  from inv show "formatted_by t s @ pending (fq_ap q) (ff_pc s t) @ passing (fq_ap q) (ff_todo s t) = passing (fq_ap q) (fq_progs q t)" for t
    by (simp add: file_inv_def calls_kept_def)
  have "finite {t. fq_progs q t \<noteq> []}" using assms(1) by (simp add: file_ready_def)
  from file_inv_finish [OF assms this inv quiet]
  show "\<exists>s'. (file_step L (fq_io q) (fq_a q))\<^sup>*\<^sup>* s s' \<and> (\<forall>t. ff_pc s' t = FIdle \<and> ff_todo s' t = [])" .
qed

end

context pthread_mutex
begin

lemma file_log_mutex: "file_ready q \<Longrightarrow> file_log_ok q (Mutex P)"
  by (rule mutex.file_log_fine) (simp_all add: Mutex_def)

end

subsection \<open>Properties\<close>

text \<open>C17. Threads that log to one file appender at once do not mix their lines, whichever of the three locks it is built with. In
  every state they can reach, while the file can be
  reopened and written: the file has its old text followed by the whole texts of the events formatted so far, of which only
  the end of the last can be missing, and then the thread inside is about to write exactly that; no event is lost or
  doubled, and each thread's are in its own order, also when the file is reopened in between; and the threads are never stuck:
  from every state they can come to the end of all their calls.\<close>

theorem file_log_concurrent:
  assumes "pthread_mutex P owner" and "file_ready q"
  shows "file_log_ok q (Mutex P) \<and> file_log_ok q (Spinlock P) \<and> file_log_ok q CASLock"
  using pthread_mutex.file_log_mutex [OF assms] caslock.file_log_fine [OF assms(2)] by (simp add: Spinlock_Mutex CASLock_def)

text \<open>Two threads with an event each: the second reopens the file, both write.\<close>

definition demo_event :: "string \<Rightarrow> log_event" where
  "demo_event x = LogEvent_put x (LogEvent_new 0 INFO ''a.cc'' 7 0 1 0 7 ''main'')"

definition demo_fmt :: log_formatter where
  "demo_fmt = \<lparr>m_pattern = ''%m'', m_items = [MessageFormatItem], m_error = False\<rparr>"

definition demo_appender :: log_appender where
  "demo_appender = \<lparr>a_kind = FileLogAppender ''f'' \<lparr>fs_open = True, fs_good = True\<rparr> 7, a_level = DEBUG,
     a_formatter = Some demo_fmt, a_has_formatter = True\<rparr>"

definition demo_setup :: file_setup where
  "demo_setup = \<lparr>fq_io = \<lparr>io_now = 7, io_can_open = (\<lambda>_. True), io_can_write = (\<lambda>_. True), io_fmt = plain_env\<rparr>, fq_a = 0,
     fq_ap = demo_appender, fq_file = ''f'', fq_fmt = demo_fmt,
     fq_st = \<lparr>st_appenders = [0 \<mapsto> demo_appender], st_loggers = Map.empty, st_next = 1, st_stdout = [], st_files = [''f'' \<mapsto> ''old ''],
       mgr_loggers = [], mgr_root = 0\<rparr>,
     fq_progs = (\<lambda>t. if t = 0 then [(demo_event ''one'', 7)] else if t = 1 then [(demo_event ''two'', 8)] else [])\<rparr>"

lemma demo_setup_ready: "file_ready demo_setup"
proof -
  have "{t. fq_progs demo_setup t \<noteq> []} \<subseteq> {0, 1}" by (auto simp: demo_setup_def split: if_splits)
  then have "finite {t. fq_progs demo_setup t \<noteq> []}" by (rule finite_subset) simp
  moreover have "\<forall>t. \<forall>ev \<in> set (passing (fq_ap demo_setup) (fq_progs demo_setup t)).
      can_render (fq_io demo_setup) ev (fq_st demo_setup) (fq_fmt demo_setup)"
    by (simp add: demo_setup_def demo_fmt_def can_render_def)
  ultimately show ?thesis unfolding file_ready_def by (simp add: demo_setup_def demo_appender_def)
qed

lemma demo_event_text: "DEBUG \<le> ev_level (demo_event x)" "LogFormatter_format env demo_fmt (demo_event x) = Inr x"
  by (simp_all add: demo_event_def demo_fmt_def format_renders LogEvent_put_def LogEvent_new_def less_eq_log_level_def)

theorem file_log_concurrent_witness:
  "\<exists>s. (file_step (Spinlock posix_mutex) (fq_io demo_setup) (fq_a demo_setup))\<^sup>*\<^sup>*
       (file_start (Spinlock posix_mutex) (fq_st demo_setup) (fq_progs demo_setup)) s \<and>
     (\<forall>t. ff_pc s t = FIdle) \<and> sink_text (ff_state s) (File ''f'') = ''old twoone''"
proof -
  obtain s where s: "run_file (Spinlock posix_mutex) (fq_io demo_setup) (fq_a demo_setup)
      [(0, 0), (0, 0), (1, 0), (1, 0), (1, 0), (1, 0), (1, 0), (0, 0), (1, 0), (1, 0), (1, 0), (1, 0), (1, 0), (1, 0), (1, 5), (1, 0), (1, 0),
       (0, 0), (0, 0), (0, 2), (0, 0), (0, 0)]
      (file_start (Spinlock posix_mutex) (fq_st demo_setup) (fq_progs demo_setup)) = Some s"
    "\<forall>t. ff_pc s t = FIdle" "ff_order s = [(1, demo_event ''two''), (0, demo_event ''one'')]"
    by (simp add: file_start_def file_run_def ff_goto_def ff_lock_goto_def demo_setup_def demo_appender_def demo_event_text
        close_stream_def open_stream_def stream_write_def fs_close_def fs_open_app_def set_lastTime_def Let_def store_simps mutex_defs
        posix_mutex_def)
  have run: "(file_step (Spinlock posix_mutex) (fq_io demo_setup) (fq_a demo_setup))\<^sup>*\<^sup>*
       (file_start (Spinlock posix_mutex) (fq_st demo_setup) (fq_progs demo_setup)) s"
    by (rule run_file_steps [OF s(1)])
  have "file_log_ok demo_setup (Spinlock posix_mutex)"
    using file_log_concurrent [OF posix_mutex.pthread_mutex_axioms demo_setup_ready] by blast
  from this [unfolded file_log_ok_def, rule_format, OF run] s(2,3)
  have "sink_text (ff_state s) (File ''f'') = ''old '' @ rendered (fq_io demo_setup) (fq_st demo_setup) (demo_event ''two'') demo_appender @
      rendered (fq_io demo_setup) (fq_st demo_setup) (demo_event ''one'') demo_appender"
    by (auto simp: demo_setup_def whole_texts_def)
  also have "\<dots> = ''old twoone''" by code_simp
  finally show ?thesis using run s(2) by auto
qed

end
