(* ===== verification/Scheduler_Conc.thy ===== *)
theory Scheduler_Conc
  imports Scheduler Locks
begin

text \<open>
  \<open>schedule\<close> called by several threads: the queue is looked at and the task is queued under the lock, in two steps, and the
  threads are woken after the lock is released. Every thread makes the calls of its program one after the other; the queue and the wakings are those of a
  sequence in which the programs are interleaved.
\<close>

subsection \<open>The threads\<close>

type_synonym 'cb call = "'cb fiber_or_cb \<times> 32 word"

datatype 'cb schedule_pc =
    SIdle
  | SLock "'cb call"
  | SLook "'cb call"
  | SPush "'cb call" bool
  | SUnlock bool
  | STickle

text \<open>\<open>sq_order\<close> records the calls in the order in which they queued their tasks, with their threads.\<close>

record ('cb, 'l) schedule_sys =
  sq_lock :: "'l"
  sq_sched :: "'cb scheduler"
  sq_todo :: "nat \<Rightarrow> 'cb call list"
  sq_pc :: "nat \<Rightarrow> 'cb schedule_pc"
  sq_order :: "(nat \<times> 'cb call) list"

definition schedule_start :: "'l lock_class \<Rightarrow> 'cb scheduler \<Rightarrow> (nat \<Rightarrow> 'cb call list) \<Rightarrow> ('cb, 'l) schedule_sys" where
  "schedule_start L sc progs = \<lparr>sq_lock = lk_new L, sq_sched = sc, sq_todo = progs, sq_pc = (\<lambda>_. SIdle), sq_order = []\<rparr>"

definition sq_goto :: "nat \<Rightarrow> 'cb schedule_pc \<Rightarrow> ('cb, 'l) schedule_sys \<Rightarrow> ('cb, 'l) schedule_sys" where
  "sq_goto t pc s = s\<lparr>sq_pc := (sq_pc s)(t := pc)\<rparr>"

text \<open>\<open>scheduleNoLock\<close> after \<open>need_tickle\<close> is known.\<close>

definition push_task :: "'cb call \<Rightarrow> 'cb scheduler \<Rightarrow> 'cb scheduler" where
  "push_task c sc =
     (case make_task (fst c) (snd c) of
        (ft, fc') \<Rightarrow> if runnable ft then sc\<lparr>sc_fibers := sc_fibers sc @ [ft]\<rparr> else sc)"

lemma scheduleNoLock_steps:
  "scheduleNoLock fc thread sc = (sc_fibers sc = [], moved_from fc, push_task (fc, thread) sc)"
  by (simp add: scheduleNoLock_def push_task_def make_task_eq Let_def)

definition schedule_run :: "'l lock_class \<Rightarrow> nat \<Rightarrow> ('cb, 'l) schedule_sys \<Rightarrow> ('cb, 'l) schedule_sys option" where
  "schedule_run L t s =
     (case sq_pc s t of
        SIdle \<Rightarrow>
          (case sq_todo s t of
             [] \<Rightarrow> None
           | c # cs \<Rightarrow> Some (sq_goto t (SLock c) (s\<lparr>sq_todo := (sq_todo s)(t := cs)\<rparr>)))
      | SLock c \<Rightarrow> map_option (\<lambda>l. sq_goto t (SLook c) (s\<lparr>sq_lock := l\<rparr>)) (lk_call L t CallLock (sq_lock s))
      | SLook c \<Rightarrow> Some (sq_goto t (SPush c (sc_fibers (sq_sched s) = [])) s)
      | SPush c need_tickle \<Rightarrow>
          Some (sq_goto t (SUnlock need_tickle)
            (s\<lparr>sq_sched := push_task c (sq_sched s), sq_order := sq_order s @ [(t, c)]\<rparr>))
      | SUnlock need_tickle \<Rightarrow>
          map_option (\<lambda>l. sq_goto t (if need_tickle then STickle else SIdle) (s\<lparr>sq_lock := l\<rparr>)) (lk_call L t CallUnlock (sq_lock s))
      | STickle \<Rightarrow> Some (sq_goto t SIdle (s\<lparr>sq_sched := tickle (sq_sched s)\<rparr>)))"

definition schedule_step :: "'l lock_class \<Rightarrow> ('cb, 'l) schedule_sys \<Rightarrow> ('cb, 'l) schedule_sys \<Rightarrow> bool" where
  "schedule_step L s s' \<longleftrightarrow> (\<exists>t. schedule_run L t s = Some s')"

subsection \<open>The invariant\<close>

fun in_section :: "'cb schedule_pc \<Rightarrow> bool" where
  "in_section (SLook c) = True"
| "in_section (SPush c b) = True"
| "in_section (SUnlock b) = True"
| "in_section pc = False"

text \<open>The threads that still have to wake the others, and the call a thread has begun and not queued.\<close>

fun owes :: "'cb schedule_pc \<Rightarrow> bool" where
  "owes (SUnlock b) = b"
| "owes STickle = True"
| "owes pc = False"

fun begun :: "'cb schedule_pc \<Rightarrow> 'cb call list" where
  "begun (SLock c) = [c]"
| "begun (SLook c) = [c]"
| "begun (SPush c b) = [c]"
| "begun pc = []"

definition owing :: "('cb, 'l) schedule_sys \<Rightarrow> nat set" where
  "owing s = {t. owes (sq_pc s t)}"

definition queued_by :: "nat \<Rightarrow> ('cb, 'l) schedule_sys \<Rightarrow> 'cb call list" where
  "queued_by t s = map snd (filter (\<lambda>c. fst c = t) (sq_order s))"

text \<open>The scheduler that the calls made so far would give, one after the other.\<close>

definition in_order :: "'cb scheduler \<Rightarrow> ('cb, 'l) schedule_sys \<Rightarrow> 'cb scheduler" where
  "in_order sc s = snd (schedules (map snd (sq_order s)) sc)"

definition in_step :: "'cb scheduler \<Rightarrow> ('cb, 'l) schedule_sys \<Rightarrow> bool" where
  "in_step sc s \<longleftrightarrow> sc_fibers (sq_sched s) = sc_fibers (in_order sc s) \<and> finite (owing s) \<and>
     sc_tickles (sq_sched s) + card (owing s) = sc_tickles (in_order sc s)"

definition in_program :: "(nat \<Rightarrow> 'cb call list) \<Rightarrow> ('cb, 'l) schedule_sys \<Rightarrow> bool" where
  "in_program progs s \<longleftrightarrow> (\<forall>t. queued_by t s @ begun (sq_pc s t) @ sq_todo s t = progs t)"

lemma sq_goto_simps [simp]:
  "sq_lock (sq_goto t pc s) = sq_lock s" "sq_sched (sq_goto t pc s) = sq_sched s" "sq_todo (sq_goto t pc s) = sq_todo s"
  "sq_order (sq_goto t pc s) = sq_order s" "sq_pc (sq_goto t pc s) = (sq_pc s)(t := pc)"
  "queued_by u (sq_goto t pc s) = queued_by u s" "in_order sc (sq_goto t pc s) = in_order sc s"
  by (simp_all add: sq_goto_def queued_by_def in_order_def)

lemma owing_goto: "owing (sq_goto t pc s) = (if owes pc then insert t (owing s) else owing s - {t})"
  by (auto simp: owing_def)

lemma schedules_snoc: "snd (schedules (cs @ [c]) sc) = snd (schedule (fst c) (snd c) (snd (schedules cs sc)))"
  by (induction cs sc rule: schedules.induct) (cases c; auto split: prod.splits)+

lemma queue_frame [simp]:
  "in_order sc (s\<lparr>sq_lock := l\<rparr>) = in_order sc s" "in_order sc (s\<lparr>sq_todo := td\<rparr>) = in_order sc s" "in_order sc (s\<lparr>sq_sched := sc'\<rparr>) = in_order sc s"
  "queued_by u (s\<lparr>sq_lock := l\<rparr>) = queued_by u s" "queued_by u (s\<lparr>sq_todo := td\<rparr>) = queued_by u s" "queued_by u (s\<lparr>sq_sched := sc'\<rparr>) = queued_by u s"
  "owing (s\<lparr>sq_lock := l\<rparr>) = owing s" "owing (s\<lparr>sq_todo := td\<rparr>) = owing s" "owing (s\<lparr>sq_sched := sc'\<rparr>) = owing s"
  "owing (s\<lparr>sq_sched := sc', sq_order := cs\<rparr>) = owing s"
  by (simp_all add: in_order_def queued_by_def owing_def)

lemma in_owing: "t \<in> owing s \<longleftrightarrow> owes (sq_pc s t)"
  by (simp add: owing_def)

lemma push_task_fields:
  "sc_fibers (push_task c sc) = sc_fibers sc @ (if runnable (task_of c) then [task_of c] else [])"
  "sc_tickles (push_task c sc) = sc_tickles sc"
  by (cases c; simp add: push_task_def make_task_eq)+

text \<open>What a thread that has looked at the queue has seen is still so.\<close>

fun sees :: "'cb scheduler \<Rightarrow> 'cb schedule_pc \<Rightarrow> bool" where
  "sees sc (SPush c b) \<longleftrightarrow> b = (sc_fibers sc = [])"
| "sees sc pc \<longleftrightarrow> True"

lemma sees_outside: "\<not> in_section pc \<Longrightarrow> sees sc pc"
  by (cases pc) simp_all

text \<open>A call queues its task as the sequential call does, and owes the waking that the sequential call has done.\<close>

lemma in_step_push:
  assumes "in_step sc s" and "sq_pc s t = SPush c b" and "sees (sq_sched s) (sq_pc s t)"
  shows "in_step sc (sq_goto t (SUnlock b) (s\<lparr>sq_sched := push_task c (sq_sched s), sq_order := sq_order s @ [(t, c)]\<rparr>))"
proof -
  let ?s' = "sq_goto t (SUnlock b) (s\<lparr>sq_sched := push_task c (sq_sched s), sq_order := sq_order s @ [(t, c)]\<rparr>)"
  have out: "t \<notin> owing s" using assms(2) by (simp add: in_owing)
  have seq: "in_order sc ?s' = snd (schedule (fst c) (snd c) (in_order sc s))"
    by (simp add: in_order_def schedules_snoc)
  show ?thesis using assms out unfolding in_step_def seq
    by (auto simp: schedule_fields owing_goto push_task_fields)
qed

lemma in_step_frame [simp]: "in_step sc (s\<lparr>sq_lock := l\<rparr>) = in_step sc s" "in_step sc (s\<lparr>sq_todo := td\<rparr>) = in_step sc s"
  by (simp_all add: in_step_def)

lemma in_step_goto: "in_step sc s \<Longrightarrow> owes pc = owes (sq_pc s t) \<Longrightarrow> in_step sc (sq_goto t pc s)"
proof -
  assume "in_step sc s" "owes pc = owes (sq_pc s t)"
  moreover from this(2) have "owing (sq_goto t pc s) = owing s" by (auto simp: owing_def)
  ultimately show ?thesis by (simp add: in_step_def)
qed

lemma in_step_run:
  assumes "in_step sc s" and "schedule_run L t s = Some s'" and "sees (sq_sched s) (sq_pc s t)"
  shows "in_step sc s'"
proof (cases "sq_pc s t")
  case (SPush c b)
  then show ?thesis using assms in_step_push [OF assms(1) SPush] by (simp add: schedule_run_def)
next
  case STickle
  then have "t \<in> owing s" "finite (owing s)" using assms(1) by (simp_all add: in_owing in_step_def)
  then have "Suc (card (owing s - {t})) = card (owing s)" by (simp only: card_Suc_Diff1)
  moreover have "s' = sq_goto t SIdle (s\<lparr>sq_sched := tickle (sq_sched s)\<rparr>)" using STickle assms(2) by (simp add: schedule_run_def)
  moreover have "sc_tickles (sq_sched s) + card (owing s) = sc_tickles (in_order sc s)" using assms(1) by (simp add: in_step_def)
  ultimately show ?thesis using assms(1) by (simp add: in_step_def owing_goto tickle_def del: card_Diff_singleton card_Diff_insert)
qed (use assms in \<open>auto simp: schedule_run_def in_step_goto split: list.splits if_splits\<close>)

lemma in_program_run:
  assumes "in_program progs s" and "schedule_run L t s = Some s'"
  shows "in_program progs s'"
proof -
  have prog: "queued_by u s @ begun (sq_pc s u) @ sq_todo s u = progs u" for u using assms(1) by (simp add: in_program_def)
  have queued: "queued_by u (s\<lparr>sq_sched := sc', sq_order := sq_order s @ [(t, c)]\<rparr>) = queued_by u s @ (if u = t then [c] else [])" for u sc' c
    by (simp add: queued_by_def)
  have "queued_by u s' @ begun (sq_pc s' u) @ sq_todo s' u = progs u" for u
    using assms(2) prog [of u] by (cases "sq_pc s t") (auto simp: schedule_run_def queued split: list.splits if_splits)
  then show ?thesis by (simp add: in_program_def)
qed

lemma schedule_start_inv: "in_step sc (schedule_start L sc progs)" "in_program progs (schedule_start L sc progs)"
  by (simp_all add: in_step_def in_program_def schedule_start_def in_order_def owing_def queued_by_def)

context lock_contract
begin

definition sees_inv :: "('cb, 'l) schedule_sys \<Rightarrow> bool" where
  "sees_inv s \<longleftrightarrow> held_by (sq_lock s) (\<lambda>_. False) in_section (sq_pc s) \<and> (\<forall>t. sees (sq_sched s) (sq_pc s t))"

lemma sees_inv_run:
  assumes "sees_inv s" and "schedule_run L t s = Some s'"
  shows "sees_inv s'"
proof -
  have held: "held_by (sq_lock s) (\<lambda>_. False) in_section (sq_pc s)" and sees: "\<And>u. sees (sq_sched s) (sq_pc s u)"
    using assms(1) by (simp_all add: sees_inv_def)
  have other: "sees sc (sq_pc s u)" if "u \<noteq> t" "in_section (sq_pc s t)" for u sc
    using held_by_alone [OF held that(2), of u] that(1) by (simp add: sees_outside)
  have tickle: "sees (tickle (sq_sched s)) pc = sees (sq_sched s) pc" for pc by (cases pc) (simp_all add: tickle_def)
  show ?thesis using assms(2) sees other
    by (cases "sq_pc s t")
      (auto simp: schedule_run_def sees_inv_def tickle held_by_same [OF held] held_by_exclusive [OF held, where c = CallLock]
        held_by_release [OF held] split: list.splits)
qed

lemma schedule_reachable:
  assumes "(schedule_step L)\<^sup>*\<^sup>* (schedule_start L sc progs) s"
  shows "in_step sc s \<and> in_program progs s"
proof -
  have "in_step sc s \<and> in_program progs s \<and> sees_inv s"
    using assms
  proof (induction rule: rtranclp_induct)
    case base
    have "sees_inv (schedule_start L sc progs)" by (simp add: sees_inv_def schedule_start_def held_by_new)
    then show ?case by (simp add: schedule_start_inv)
  next
    case (step s1 s2)
    then obtain t where run: "schedule_run L t s1 = Some s2" by (auto simp: schedule_step_def)
    have "sees (sq_sched s1) (sq_pc s1 t)" using step.IH by (simp add: sees_inv_def)
    with step.IH run show ?case by (blast intro: in_step_run in_program_run sees_inv_run)
  qed
  then show ?thesis by blast
qed

end

context pthread_mutex
begin

lemma schedule_reachable_mutex:
  "(schedule_step (Mutex P))\<^sup>*\<^sup>* (schedule_start (Mutex P) sc progs) s \<Longrightarrow> in_step sc s \<and> in_program progs s"
  by (rule mutex.schedule_reachable)

end

subsection \<open>Properties\<close>

text \<open>C18. Tasks scheduled by several threads at once are queued as if the calls were made one after the other: in every state the
  threads can reach, the queue is the one that the calls made so far give in the order in which they got the lock, in which
  each thread's own calls are in its order and none is missing or doubled; and the wakings done, with those
  the threads inside \<open>schedule\<close> still owe, are as many as that sequence makes. When all the threads are done nothing is owed.\<close>

theorem schedule_linearizable:
  assumes "pthread_mutex P owner" and "(schedule_step (Mutex P))\<^sup>*\<^sup>* (schedule_start (Mutex P) sc progs) s"
  shows "sc_fibers (sq_sched s) = sc_fibers (snd (schedules (map snd (sq_order s)) sc)) \<and>
    sc_tickles (sq_sched s) + card {t. owes (sq_pc s t)} = sc_tickles (snd (schedules (map snd (sq_order s)) sc)) \<and>
    (\<forall>t. map snd (filter (\<lambda>c. fst c = t) (sq_order s)) @ begun (sq_pc s t) @ sq_todo s t = progs t)"
  using pthread_mutex.schedule_reachable_mutex [OF assms]
  by (simp add: in_step_def in_program_def in_order_def owing_def queued_by_def)

text \<open>Running the threads in the order of a schedule, and two threads with a callback each: the first one to get the lock wakes.\<close>

fun run_threads :: "'l lock_class \<Rightarrow> nat list \<Rightarrow> ('cb, 'l) schedule_sys \<Rightarrow> ('cb, 'l) schedule_sys option" where
  "run_threads L [] s = Some s"
| "run_threads L (t # ts) s = (case schedule_run L t s of None \<Rightarrow> None | Some s' \<Rightarrow> run_threads L ts s')"

lemma run_threads_steps: "run_threads L ts s = Some s' \<Longrightarrow> (schedule_step L)\<^sup>*\<^sup>* s s'"
  by (induction L ts s rule: run_threads.induct)
    (auto split: option.splits intro: converse_rtranclp_into_rtranclp schedule_step_def [THEN iffD2])

definition demo_progs :: "nat \<Rightarrow> string call list" where
  "demo_progs t = (if t = 0 then [(ACb (Some ''a''), 0)] else if t = 1 then [(ACb (Some ''b''), 0)] else [])"

theorem schedule_linearizable_witness:
  "\<exists>s. (schedule_step (Mutex posix_mutex))\<^sup>*\<^sup>* (schedule_start (Mutex posix_mutex) (Scheduler_new 1 True []) demo_progs) s \<and>
     (\<forall>t. sq_pc s t = SIdle) \<and> map ft_cb (sc_fibers (sq_sched s)) = [Some ''b'', Some ''a''] \<and> sc_tickles (sq_sched s) = 1"
proof -
  obtain s where s: "run_threads (Mutex posix_mutex) [0, 1, 1, 1, 1, 1, 0, 0, 0, 0, 1]
      (schedule_start (Mutex posix_mutex) (Scheduler_new 1 True []) demo_progs) = Some s"
    "\<forall>t. sq_pc s t = SIdle" "sq_order s = [(1, (ACb (Some ''b''), 0)), (0, (ACb (Some ''a''), 0))]"
    by (simp add: schedule_start_def schedule_run_def sq_goto_def push_task_def make_task_eq runnable_def Scheduler_new_def demo_progs_def
        tickle_def mutex_defs posix_mutex_def)
  have run: "(schedule_step (Mutex posix_mutex))\<^sup>*\<^sup>* (schedule_start (Mutex posix_mutex) (Scheduler_new 1 True []) demo_progs) s"
    by (rule run_threads_steps [OF s(1)])
  from schedule_linearizable [OF posix_mutex.pthread_mutex_axioms run] s(2,3)
  have "sc_fibers (sq_sched s) = [task_of (ACb (Some ''b''), 0), task_of (ACb (Some ''a''), 0)]" "sc_tickles (sq_sched s) = 1"
    by (simp_all add: schedule_def scheduleNoLock_def make_task_eq runnable_def Scheduler_new_def tickle_def Let_def)
  with run s(2) show ?thesis by auto
qed

end
