(* ===== verification/Lock_Order.thy ===== *)
theory Lock_Order
  imports Logger_Wf
begin

text \<open>
  Which locks the functions of the logging and of the configuration system take, and inside which others. A function
  is its critical sections, nested as its guards are; what it reads of data that other threads
  may change meanwhile (levels, lists of appenders, values) is an argument, so that the sections are those of a call whatever the
  other threads do. The locks are ranked, every function takes them upwards, and so no
  threads that call these functions ever wait for each other.
\<close>

subsection \<open>Critical sections\<close>

datatype lock_id =
    RegistryLock
  | VarLock nat
  | ManagerLock
  | LoggerLock nat
  | AppenderLock nat

datatype lock_mode = Shared | Exclusive

datatype lock_section = Section lock_id lock_mode "lock_section list"

abbreviation locked :: "lock_id \<Rightarrow> lock_section list \<Rightarrow> lock_section list" where
  "locked x inner \<equiv> [Section x Exclusive inner]"

text \<open>The sections as the calls of the lock.\<close>

datatype lock_op = Acq lock_id lock_mode | Rel lock_id

fun ops_of :: "lock_section \<Rightarrow> lock_op list" where
  "ops_of (Section x m inner) = Acq x m # concat (map ops_of inner) @ [Rel x]"

text \<open>Sections whose locks rank above \<open>n\<close>, and inner ones above outer ones.\<close>

fun ranked :: "(lock_id \<Rightarrow> nat) \<Rightarrow> nat \<Rightarrow> lock_section \<Rightarrow> bool" where
  "ranked rank n (Section x m inner) \<longleftrightarrow> n < rank x \<and> list_all (ranked rank (rank x)) inner"

lemma ranked_mono: "ranked rank n s \<Longrightarrow> n' \<le> n \<Longrightarrow> ranked rank n' s"
  by (cases s) auto

lemma ranked_list_mono: "list_all (ranked rank n) ss \<Longrightarrow> n' \<le> n \<Longrightarrow> list_all (ranked rank n') ss"
  by (auto simp: list_all_iff intro: ranked_mono)

subsection \<open>Threads\<close>

text \<open>A thread: the locks it holds, the last one first, and the calls it still makes.\<close>

record lock_thread =
  th_held :: "(lock_id \<times> lock_mode) list"
  th_ops :: "lock_op list"

text \<open>A lock is granted to a thread when no other thread holds it, or all hold it shared and it is wanted shared.\<close>

definition grants :: "lock_thread list \<Rightarrow> nat \<Rightarrow> lock_id \<Rightarrow> lock_mode \<Rightarrow> bool" where
  "grants ts t x m \<longleftrightarrow> (\<forall>u < length ts. \<forall>m'. (x, m') \<in> set (th_held (ts ! u)) \<longrightarrow> m = Shared \<and> m' = Shared \<and> u \<noteq> t)"

inductive lock_step :: "lock_thread list \<Rightarrow> lock_thread list \<Rightarrow> bool" where
  step_acquire: "t < length ts \<Longrightarrow> th_ops (ts ! t) = Acq x m # ops \<Longrightarrow> grants ts t x m \<Longrightarrow>
    lock_step ts (ts[t := \<lparr>th_held = (x, m) # th_held (ts ! t), th_ops = ops\<rparr>])"
| step_release: "t < length ts \<Longrightarrow> th_ops (ts ! t) = Rel x # ops \<Longrightarrow>
    lock_step ts (ts[t := \<lparr>th_held = filter (\<lambda>h. fst h \<noteq> x) (th_held (ts ! t)), th_ops = ops\<rparr>])"

definition threads_start :: "lock_section list list \<Rightarrow> lock_thread list" where
  "threads_start progs = map (\<lambda>ss. \<lparr>th_held = [], th_ops = concat (map ops_of ss)\<rparr>) progs"

definition finished :: "lock_thread list \<Rightarrow> bool" where
  "finished ts \<longleftrightarrow> (\<forall>th \<in> set ts. th_ops th = [] \<and> th_held th = [])"

definition ops_left :: "lock_thread list \<Rightarrow> nat" where
  "ops_left ts = sum_list (map (length \<circ> th_ops) ts)"

subsection \<open>No deadlock\<close>

text \<open>The calls a thread still makes: upwards in rank, and releasing in the opposite order of acquiring.\<close>

fun upwards :: "(lock_id \<Rightarrow> nat) \<Rightarrow> lock_id list \<Rightarrow> lock_op list \<Rightarrow> bool" where
  "upwards rank held [] \<longleftrightarrow> held = []"
| "upwards rank held (Acq x m # ops) \<longleftrightarrow> (\<forall>h \<in> set held. rank h < rank x) \<and> upwards rank (x # held) ops"
| "upwards rank held (Rel x # ops) \<longleftrightarrow> held \<noteq> [] \<and> hd held = x \<and> x \<notin> set (tl held) \<and> upwards rank (tl held) ops"

definition upwards_all :: "(lock_id \<Rightarrow> nat) \<Rightarrow> lock_thread list \<Rightarrow> bool" where
  "upwards_all rank ts \<longleftrightarrow> (\<forall>th \<in> set ts. upwards rank (map fst (th_held th)) (th_ops th))"

lemma upwards_section:
  assumes "ranked rank n s" and "\<forall>h \<in> set held. rank h \<le> n" and "upwards rank held ops"
  shows "upwards rank held (ops_of s @ ops)"
  using assms
proof (induction s arbitrary: n held ops)
  case (Section x m inner)
  have inside: "upwards rank (x # held) (concat (map ops_of ss) @ Rel x # ops)" if "set ss \<subseteq> set inner" for ss
    using that
  proof (induction ss)
    case Nil
    have "x \<notin> set held" using Section.prems(1,2) by fastforce
    then show ?case using Section.prems(3) by simp
  next
    case (Cons s ss)
    have "\<forall>h \<in> set (x # held). rank h \<le> rank x" using Section.prems(1,2) by fastforce
    moreover have "ranked rank (rank x) s" "s \<in> set inner" using Section.prems(1) Cons.prems by (auto simp: list_all_iff)
    ultimately show ?case using Section.IH Cons by simp
  qed
  have "\<forall>h \<in> set held. rank h < rank x" using Section.prems(1,2) by fastforce
  then show ?case using inside [of inner] by simp
qed

lemma upwards_sections:
  "list_all (ranked rank n) ss \<Longrightarrow> upwards rank [] (concat (map ops_of ss))"
  by (induction ss) (auto intro: upwards_section)

lemma upwards_all_start: "\<forall>ss \<in> set progs. list_all (ranked rank 0) ss \<Longrightarrow> upwards_all rank (threads_start progs)"
  by (auto simp: upwards_all_def threads_start_def intro: upwards_sections)

lemma upwards_all_step:
  assumes "upwards_all rank ts" and "lock_step ts ts'"
  shows "upwards_all rank ts'"
  using assms(2)
proof cases
  case (step_acquire t x m ops)
  then have "upwards rank (map fst (th_held (ts ! t))) (Acq x m # ops)"
    using assms(1) by (metis nth_mem upwards_all_def)
  with step_acquire assms(1) show ?thesis
    by (auto simp: upwards_all_def dest!: set_update_subset_insert [THEN subsetD])
next
  case (step_release t x ops)
  then have up: "upwards rank (map fst (th_held (ts ! t))) (Rel x # ops)"
    using assms(1) by (metis nth_mem upwards_all_def)
  then obtain m hs where hs: "th_held (ts ! t) = (x, m) # hs" "x \<notin> fst ` set hs" by (cases "th_held (ts ! t)") auto
  then have "filter (\<lambda>h. fst h \<noteq> x) (th_held (ts ! t)) = hs" by (auto simp: filter_id_conv)
  with step_release up hs assms(1) show ?thesis
    by (auto simp: upwards_all_def dest!: set_update_subset_insert [THEN subsetD])
qed

lemma lock_step_ops_left: "lock_step ts ts' \<Longrightarrow> ops_left ts' < ops_left ts"
proof (induction rule: lock_step.induct)
  case (step_acquire t ts x m ops)
  then show ?case using elem_le_sum_list [of t "map (length \<circ> th_ops) ts"] by (simp add: ops_left_def map_update sum_list_update)
next
  case (step_release t ts x ops)
  then show ?case using elem_le_sum_list [of t "map (length \<circ> th_ops) ts"] by (simp add: ops_left_def map_update sum_list_update)
qed

lemma lock_ops_cases:
  obtains "ops = []" | x m ops' where "ops = Acq x m # ops'" | x ops' where "ops = Rel x # ops'"
proof (cases ops)
  case (Cons op ops')
  then show thesis using that(2,3) by (cases op) auto
qed (rule that(1))

text \<open>The thread that wants the lock of the greatest rank can go on.\<close>

lemma upwards_progress:
  assumes "upwards_all rank ts" and "\<not> finished ts"
  shows "\<exists>ts'. lock_step ts ts'"
proof (cases "\<exists>t < length ts. \<exists>x ops. th_ops (ts ! t) = Rel x # ops")
  case True
  then show ?thesis by (blast intro: step_release)
next
  case False
  define want where "want = {x. \<exists>t < length ts. \<exists>m ops. th_ops (ts ! t) = Acq x m # ops}"
  have up: "upwards rank (map fst (th_held (ts ! t))) (th_ops (ts ! t))" if "t < length ts" for t
    using assms(1) that by (simp add: upwards_all_def)
  have next_op: "th_held (ts ! t) = [] \<and> th_ops (ts ! t) = [] \<or> (\<exists>x m ops. th_ops (ts ! t) = Acq x m # ops)"
    if "t < length ts" for t
    using up [OF that] False that by (cases "th_ops (ts ! t)" rule: lock_ops_cases) auto
  have "finite ((\<lambda>t. case th_ops (ts ! t) of Acq x m # _ \<Rightarrow> x | _ \<Rightarrow> RegistryLock) ` {..<length ts})" by simp
  moreover have "want \<subseteq> (\<lambda>t. case th_ops (ts ! t) of Acq x m # _ \<Rightarrow> x | _ \<Rightarrow> RegistryLock) ` {..<length ts}"
    by (force simp: want_def)
  ultimately have "finite want" by (rule finite_subset [rotated])
  moreover have "want \<noteq> {}"
    using assms(2) next_op by (fastforce simp: finished_def want_def in_set_conv_nth)
  ultimately have "Max (rank ` want) \<in> rank ` want" by simp
  then obtain x where "x \<in> want" "rank x = Max (rank ` want)" by auto
  with \<open>finite want\<close> have x: "x \<in> want" "\<And>y. y \<in> want \<Longrightarrow> rank y \<le> rank x" by simp_all
  then obtain t m ops where t: "t < length ts" "th_ops (ts ! t) = Acq x m # ops" by (auto simp: want_def)
  have free: "(x, m') \<notin> set (th_held (ts ! u))" if u: "u < length ts" for u m'
  proof
    assume held: "(x, m') \<in> set (th_held (ts ! u))"
    then obtain y m'' ops' where y: "th_ops (ts ! u) = Acq y m'' # ops'" using next_op [OF u] by auto
    then have "rank x < rank y" using up [OF u] held by force
    moreover have "y \<in> want" using u y by (auto simp: want_def)
    ultimately show False using x(2) by fastforce
  qed
  then have "grants ts t x m" by (auto simp: grants_def)
  with t show ?thesis by (blast intro: step_acquire)
qed

lemma ranked_no_deadlock:
  assumes "\<forall>ss \<in> set progs. list_all (ranked rank 0) ss" and "lock_step\<^sup>*\<^sup>* (threads_start progs) ts"
  shows "finished ts \<or> (\<exists>ts'. lock_step ts ts')"
proof -
  have "upwards_all rank ts" using assms(2)
    by (induction rule: rtranclp_induct) (auto intro: upwards_all_start [OF assms(1)] upwards_all_step)
  then show ?thesis using upwards_progress by blast
qed

text \<open>Every run can be continued to its end, where every thread has made all its calls.\<close>

lemma ranked_all_finish:
  assumes "\<forall>ss \<in> set progs. list_all (ranked rank 0) ss" and "lock_step\<^sup>*\<^sup>* (threads_start progs) ts"
  shows "\<exists>ts'. lock_step\<^sup>*\<^sup>* ts ts' \<and> finished ts'"
  using assms(2)
proof (induction "ops_left ts" arbitrary: ts rule: less_induct)
  case less
  show ?case
  proof (cases "finished ts")
    case False
    then obtain ts1 where ts1: "lock_step ts ts1" using ranked_no_deadlock [OF assms(1) less.prems] by blast
    then have "\<exists>ts'. lock_step\<^sup>*\<^sup>* ts1 ts' \<and> finished ts'"
      using less lock_step_ops_left by (meson rtranclp.rtrancl_into_rtrancl)
    with ts1 show ?thesis by (meson converse_rtranclp_into_rtranclp)
  qed blast
qed

end
