(* ===== verification/Lock_Use.thy ===== *)
theory Lock_Use
  imports Lock_Order
begin

text \<open>
  The critical sections of the functions of \<^verbatim>\<open>sylar/log.cc\<close>, \<^verbatim>\<open>sylar/log.h\<close>, \<^verbatim>\<open>sylar/config.cc\<close> and \<^verbatim>\<open>sylar/config.h\<close>, and that
  threads calling them never deadlock.
\<close>

subsection \<open>Appenders\<close>

text \<open>
  How a call of an appender's \<open>log\<close> goes: whether the event passes its level, and for a file whether the
  second has changed since the last event.
\<close>

datatype appender_path =
    ToStdout (ap_address: nat) (ap_passes: bool)
  | ToFile (ap_address: nat) (ap_passes: bool) (ap_new_second: bool)

text \<open>\<open>LogAppender::setFormatter\<close>, \<open>getFormatter\<close>, \<open>hasFormatter\<close> and the two \<open>toYamlString\<close>.\<close>

definition LogAppender_setFormatter_locks :: "nat \<Rightarrow> lock_section list" where
  "LogAppender_setFormatter_locks a = locked (AppenderLock a) []"

definition LogAppender_getFormatter_locks :: "nat \<Rightarrow> lock_section list" where
  "LogAppender_getFormatter_locks a = locked (AppenderLock a) []"

definition LogAppender_hasFormatter_locks :: "nat \<Rightarrow> lock_section list" where
  "LogAppender_hasFormatter_locks a = locked (AppenderLock a) []"

definition LogAppender_toYamlString_locks :: "nat \<Rightarrow> lock_section list" where
  "LogAppender_toYamlString_locks a = locked (AppenderLock a) []"

definition FileLogAppender_reopen_locks :: "nat \<Rightarrow> lock_section list" where
  "FileLogAppender_reopen_locks a = locked (AppenderLock a) []"

fun LogAppender_log_locks :: "appender_path \<Rightarrow> lock_section list" where
  "LogAppender_log_locks (ToStdout a passes) = (if passes then locked (AppenderLock a) [] else [])"
| "LogAppender_log_locks (ToFile a passes new_second) =
     (if passes
      then (if new_second then FileLogAppender_reopen_locks a else []) @ locked (AppenderLock a) []
      else [])"

subsection \<open>Loggers\<close>

text \<open>
  How a call of \<open>Logger::log\<close> goes: the event is below the level, is given to appenders, to \<open>m_root\<close>, or to nobody.
\<close>

datatype log_path =
    Below
  | Delivered nat "appender_path list"
  | Forwarded nat log_path
  | Nowhere nat

fun Logger_log_locks :: "log_path \<Rightarrow> lock_section list" where
  "Logger_log_locks Below = []"
| "Logger_log_locks (Delivered lg aps) = locked (LoggerLock lg) (concat (map LogAppender_log_locks aps))"
| "Logger_log_locks (Forwarded lg p) = locked (LoggerLock lg) (Logger_log_locks p)"
| "Logger_log_locks (Nowhere lg) = locked (LoggerLock lg) []"

text \<open>Only the root logger is forwarded to, and it does not forward.\<close>

fun path_of_root :: "nat \<Rightarrow> log_path \<Rightarrow> bool" where
  "path_of_root root Below \<longleftrightarrow> True"
| "path_of_root root (Delivered lg aps) \<longleftrightarrow> lg = root"
| "path_of_root root (Forwarded lg p) \<longleftrightarrow> False"
| "path_of_root root (Nowhere lg) \<longleftrightarrow> lg = root"

fun path_ok :: "nat \<Rightarrow> log_path \<Rightarrow> bool" where
  "path_ok root (Forwarded lg p) \<longleftrightarrow> lg \<noteq> root \<and> path_of_root root p"
| "path_ok root p \<longleftrightarrow> True"

definition Logger_addAppender_locks :: "nat \<Rightarrow> nat \<Rightarrow> bool \<Rightarrow> lock_section list" where
  "Logger_addAppender_locks lg a no_formatter =
     locked (LoggerLock lg)
       (LogAppender_getFormatter_locks a @ (if no_formatter then LogAppender_setFormatter_locks a else []))"

definition Logger_delAppender_locks :: "nat \<Rightarrow> lock_section list" where
  "Logger_delAppender_locks lg = locked (LoggerLock lg) []"

definition Logger_clearAppenders_locks :: "nat \<Rightarrow> lock_section list" where
  "Logger_clearAppenders_locks lg = []"

text \<open>The appenders with what \<open>hasFormatter\<close> says of them.\<close>

definition Logger_setFormatter_locks :: "nat \<Rightarrow> bool \<Rightarrow> (nat \<times> bool) list \<Rightarrow> lock_section list" where
  "Logger_setFormatter_locks lg is_error appenders =
     locked (LoggerLock lg)
       (if is_error then []
        else concat (map (\<lambda>(a, has). LogAppender_hasFormatter_locks a @
               (if has then [] else LogAppender_setFormatter_locks a)) appenders))"

definition Logger_setFormatter_str_locks :: "nat \<Rightarrow> bool \<Rightarrow> (nat \<times> bool) list \<Rightarrow> lock_section list" where
  "Logger_setFormatter_str_locks lg is_error appenders =
     (if is_error then [] else Logger_setFormatter_locks lg is_error appenders)"

definition Logger_getFormatter_locks :: "nat \<Rightarrow> lock_section list" where
  "Logger_getFormatter_locks lg = locked (LoggerLock lg) []"

definition Logger_toYamlString_locks :: "nat \<Rightarrow> nat list \<Rightarrow> lock_section list" where
  "Logger_toYamlString_locks lg appenders =
     locked (LoggerLock lg) (concat (map LogAppender_toYamlString_locks appenders))"

subsection \<open>The manager and the listener\<close>

definition LoggerManager_getLogger_locks :: "lock_section list" where
  "LoggerManager_getLogger_locks = locked ManagerLock []"

definition LoggerManager_toYamlString_locks :: "(nat \<times> nat list) list \<Rightarrow> lock_section list" where
  "LoggerManager_toYamlString_locks loggers =
     locked ManagerLock (concat (map (\<lambda>(lg, as). Logger_toYamlString_locks lg as) loggers))"

text \<open>
  What the listener does for an appender of an entry: the new appender, whether it is a file, whether the entry
  has a pattern for it, and whether \<open>addAppender\<close> finds it without a formatter.
\<close>

record add_path =
  adp_appender :: nat
  adp_file :: bool
  adp_formatter :: bool
  adp_no_formatter :: bool

definition add_one_locks :: "nat \<Rightarrow> add_path \<Rightarrow> lock_section list" where
  "add_one_locks lg p =
     (if adp_file p then FileLogAppender_reopen_locks (adp_appender p) else []) @
     (if adp_formatter p then LogAppender_setFormatter_locks (adp_appender p) else []) @
     Logger_addAppender_locks lg (adp_appender p) (adp_no_formatter p)"

text \<open>For an entry: the logger, for a pattern whether it is wrong and the appenders there are, and the new appenders.\<close>

record define_path =
  dfp_logger :: nat
  dfp_formatter :: "(bool \<times> (nat \<times> bool) list) option"
  dfp_appenders :: "add_path list"

definition apply_define_locks :: "define_path \<Rightarrow> lock_section list" where
  "apply_define_locks p =
     LoggerManager_getLogger_locks @
     (case dfp_formatter p of None \<Rightarrow> [] | Some (is_error, as) \<Rightarrow> Logger_setFormatter_str_locks (dfp_logger p) is_error as) @
     Logger_clearAppenders_locks (dfp_logger p) @
     concat (map (add_one_locks (dfp_logger p)) (dfp_appenders p))"

definition remove_define_locks :: "nat \<Rightarrow> lock_section list" where
  "remove_define_locks lg = LoggerManager_getLogger_locks @ Logger_clearAppenders_locks lg"

record conf_path =
  cfp_log :: log_path
  cfp_updated :: "define_path list"
  cfp_removed :: "nat list"

definition on_logger_conf_changed_locks :: "conf_path \<Rightarrow> lock_section list" where
  "on_logger_conf_changed_locks p =
     Logger_log_locks (cfp_log p) @ concat (map apply_define_locks (cfp_updated p)) @
     concat (map remove_define_locks (cfp_removed p))"

subsection \<open>Variables\<close>

definition ConfigVar_getValue_locks :: "nat \<Rightarrow> lock_section list" where
  "ConfigVar_getValue_locks v = [Section (VarLock v) Shared []]"

text \<open>When the conversion throws, the guard is gone before the message is logged.\<close>

definition ConfigVar_toString_locks :: "nat \<Rightarrow> log_path option \<Rightarrow> lock_section list" where
  "ConfigVar_toString_locks v failed =
     [Section (VarLock v) Shared []] @ (case failed of None \<Rightarrow> [] | Some p \<Rightarrow> Logger_log_locks p)"

text \<open>The listeners that were called, and whether the assignment is reached.\<close>

definition ConfigVar_setValue_locks :: "nat \<Rightarrow> conf_path list \<Rightarrow> bool \<Rightarrow> lock_section list" where
  "ConfigVar_setValue_locks v listeners assigned =
     [Section (VarLock v) Shared (concat (map on_logger_conf_changed_locks listeners))] @
     (if assigned then [Section (VarLock v) Exclusive []] else [])"

record from_path =
  frp_set :: "(conf_path list \<times> bool) option"
  frp_failed :: "log_path option"

definition ConfigVar_fromString_locks :: "nat \<Rightarrow> from_path \<Rightarrow> lock_section list" where
  "ConfigVar_fromString_locks v p =
     (case frp_set p of None \<Rightarrow> [] | Some (listeners, assigned) \<Rightarrow> ConfigVar_setValue_locks v listeners assigned) @
     (case frp_failed p of None \<Rightarrow> [] | Some lp \<Rightarrow> Logger_log_locks lp)"

text \<open>\<open>addListener\<close>, \<open>delListener\<close>, \<open>clearListener\<close>, and \<open>getListener\<close>.\<close>

definition ConfigVar_addListener_locks :: "nat \<Rightarrow> lock_section list" where
  "ConfigVar_addListener_locks v = [Section (VarLock v) Exclusive []]"

definition ConfigVar_delListener_locks :: "nat \<Rightarrow> lock_section list" where
  "ConfigVar_delListener_locks v = [Section (VarLock v) Exclusive []]"

definition ConfigVar_clearListener_locks :: "nat \<Rightarrow> lock_section list" where
  "ConfigVar_clearListener_locks v = [Section (VarLock v) Exclusive []]"

definition ConfigVar_getListener_locks :: "nat \<Rightarrow> lock_section list" where
  "ConfigVar_getListener_locks v = [Section (VarLock v) Shared []]"

subsection \<open>The registry\<close>

text \<open>
  \<open>Lookup<T>(name)\<close>: a variable of another type is reported, with its text, inside the section. The arguments are
  there when the statement is enabled.
\<close>

definition Config_Lookup_locks :: "(nat \<times> log_path option \<times> log_path) option \<Rightarrow> lock_section list" where
  "Config_Lookup_locks mismatch =
     [Section RegistryLock Shared
        (case mismatch of
           None \<Rightarrow> []
         | Some (v, failed, p) \<Rightarrow> ConfigVar_toString_locks v failed @ Logger_log_locks p)]"

text \<open>With a default: the outcome is a message, for a name that exists or is invalid, or the registration.\<close>

definition Config_Lookup_default_locks :: "(nat \<times> log_path option \<times> log_path) option \<Rightarrow> log_path option \<Rightarrow> lock_section list" where
  "Config_Lookup_default_locks mismatch message =
     Config_Lookup_locks mismatch @
     (case message of Some p \<Rightarrow> Logger_log_locks p | None \<Rightarrow> [Section RegistryLock Exclusive []])"

definition Config_LookupBase_locks :: "lock_section list" where
  "Config_LookupBase_locks = [Section RegistryLock Shared []]"

text \<open>\<open>LoadFromYaml\<close>: the messages of \<open>ListAllMember\<close>, and for each node the lookup and, when there is a variable, its \<open>fromString\<close>.\<close>

definition Config_LoadFromYaml_locks :: "log_path list \<Rightarrow> (nat \<times> from_path) option list \<Rightarrow> lock_section list" where
  "Config_LoadFromYaml_locks messages nodes =
     concat (map Logger_log_locks messages) @
     concat (map (\<lambda>n. Config_LookupBase_locks @
       (case n of None \<Rightarrow> [] | Some (v, p) \<Rightarrow> ConfigVar_fromString_locks v p)) nodes)"

text \<open>\<open>Visit\<close>: the callbacks run inside the section.\<close>

definition Config_Visit_locks :: "lock_section list list \<Rightarrow> lock_section list" where
  "Config_Visit_locks callbacks = [Section RegistryLock Shared (concat callbacks)]"

subsection \<open>Calls\<close>

datatype log_call =
    CLog log_path
  | CAddAppender nat nat bool
  | CDelAppender nat
  | CClearAppenders nat
  | CSetFormatter nat bool "(nat \<times> bool) list"
  | CSetFormatterStr nat bool "(nat \<times> bool) list"
  | CGetFormatter nat
  | CLoggerYaml nat "nat list"
  | CGetLogger
  | CManagerYaml "(nat \<times> nat list) list"
  | CAppenderSetFormatter nat
  | CAppenderGetFormatter nat
  | CAppenderHasFormatter nat
  | CAppenderLog appender_path
  | CAppenderYaml nat
  | CReopen nat

fun log_call_locks :: "log_call \<Rightarrow> lock_section list" where
  "log_call_locks (CLog p) = Logger_log_locks p"
| "log_call_locks (CAddAppender lg a b) = Logger_addAppender_locks lg a b"
| "log_call_locks (CDelAppender lg) = Logger_delAppender_locks lg"
| "log_call_locks (CClearAppenders lg) = Logger_clearAppenders_locks lg"
| "log_call_locks (CSetFormatter lg e as) = Logger_setFormatter_locks lg e as"
| "log_call_locks (CSetFormatterStr lg e as) = Logger_setFormatter_str_locks lg e as"
| "log_call_locks (CGetFormatter lg) = Logger_getFormatter_locks lg"
| "log_call_locks (CLoggerYaml lg as) = Logger_toYamlString_locks lg as"
| "log_call_locks CGetLogger = LoggerManager_getLogger_locks"
| "log_call_locks (CManagerYaml ls) = LoggerManager_toYamlString_locks ls"
| "log_call_locks (CAppenderSetFormatter a) = LogAppender_setFormatter_locks a"
| "log_call_locks (CAppenderGetFormatter a) = LogAppender_getFormatter_locks a"
| "log_call_locks (CAppenderHasFormatter a) = LogAppender_hasFormatter_locks a"
| "log_call_locks (CAppenderLog p) = LogAppender_log_locks p"
| "log_call_locks (CAppenderYaml a) = LogAppender_toYamlString_locks a"
| "log_call_locks (CReopen a) = FileLogAppender_reopen_locks a"

datatype var_call =
    CGetValue nat
  | CToString nat "log_path option"
  | CSetValue nat "conf_path list" bool
  | CFromString nat from_path
  | CAddListener nat
  | CDelListener nat
  | CClearListener nat
  | CGetListener nat

fun var_call_locks :: "var_call \<Rightarrow> lock_section list" where
  "var_call_locks (CGetValue v) = ConfigVar_getValue_locks v"
| "var_call_locks (CToString v failed) = ConfigVar_toString_locks v failed"
| "var_call_locks (CSetValue v listeners assigned) = ConfigVar_setValue_locks v listeners assigned"
| "var_call_locks (CFromString v p) = ConfigVar_fromString_locks v p"
| "var_call_locks (CAddListener v) = ConfigVar_addListener_locks v"
| "var_call_locks (CDelListener v) = ConfigVar_delListener_locks v"
| "var_call_locks (CClearListener v) = ConfigVar_clearListener_locks v"
| "var_call_locks (CGetListener v) = ConfigVar_getListener_locks v"

text \<open>The callback of \<open>Visit\<close> is made of calls on loggers and variables.\<close>

datatype api_call =
    LogCall log_call
  | VarCall var_call
  | CLookup "(nat \<times> log_path option \<times> log_path) option"
  | CLookupDefault "(nat \<times> log_path option \<times> log_path) option" "log_path option"
  | CLookupBase
  | CLoadFromYaml "log_path list" "(nat \<times> from_path) option list"
  | CVisit "(log_call + var_call) list"

fun api_locks :: "api_call \<Rightarrow> lock_section list" where
  "api_locks (LogCall c) = log_call_locks c"
| "api_locks (VarCall c) = var_call_locks c"
| "api_locks (CLookup mismatch) = Config_Lookup_locks mismatch"
| "api_locks (CLookupDefault mismatch message) = Config_Lookup_default_locks mismatch message"
| "api_locks CLookupBase = Config_LookupBase_locks"
| "api_locks (CLoadFromYaml messages nodes) = Config_LoadFromYaml_locks messages nodes"
| "api_locks (CVisit cs) = Config_Visit_locks (map (case_sum log_call_locks var_call_locks) cs)"

text \<open>The paths of logging calls in a call are paths of loggers with this root.\<close>

definition conf_path_ok :: "nat \<Rightarrow> conf_path \<Rightarrow> bool" where
  "conf_path_ok root p \<longleftrightarrow> path_ok root (cfp_log p)"

definition from_path_ok :: "nat \<Rightarrow> from_path \<Rightarrow> bool" where
  "from_path_ok root p \<longleftrightarrow> (\<forall>ls b. frp_set p = Some (ls, b) \<longrightarrow> list_all (conf_path_ok root) ls) \<and>
     pred_option (path_ok root) (frp_failed p)"

fun log_call_ok :: "nat \<Rightarrow> log_call \<Rightarrow> bool" where
  "log_call_ok root (CLog p) \<longleftrightarrow> path_ok root p"
| "log_call_ok root c \<longleftrightarrow> True"

fun var_call_ok :: "nat \<Rightarrow> var_call \<Rightarrow> bool" where
  "var_call_ok root (CToString v failed) \<longleftrightarrow> pred_option (path_ok root) failed"
| "var_call_ok root (CSetValue v listeners b) \<longleftrightarrow> list_all (conf_path_ok root) listeners"
| "var_call_ok root (CFromString v p) \<longleftrightarrow> from_path_ok root p"
| "var_call_ok root c \<longleftrightarrow> True"

definition mismatch_ok :: "nat \<Rightarrow> (nat \<times> log_path option \<times> log_path) option \<Rightarrow> bool" where
  "mismatch_ok root = pred_option (\<lambda>(v, failed, p). pred_option (path_ok root) failed \<and> path_ok root p)"

fun api_ok :: "nat \<Rightarrow> api_call \<Rightarrow> bool" where
  "api_ok root (LogCall c) \<longleftrightarrow> log_call_ok root c"
| "api_ok root (VarCall c) \<longleftrightarrow> var_call_ok root c"
| "api_ok root (CLookup mismatch) \<longleftrightarrow> mismatch_ok root mismatch"
| "api_ok root (CLookupDefault mismatch message) \<longleftrightarrow> mismatch_ok root mismatch \<and> pred_option (path_ok root) message"
| "api_ok root CLookupBase \<longleftrightarrow> True"
| "api_ok root (CLoadFromYaml messages nodes) \<longleftrightarrow>
     list_all (path_ok root) messages \<and> list_all (pred_option (\<lambda>(v, p). from_path_ok root p)) nodes"
| "api_ok root (CVisit cs) \<longleftrightarrow> list_all (case_sum (log_call_ok root) (var_call_ok root)) cs"

subsection \<open>The order\<close>

fun lock_rank :: "nat \<Rightarrow> lock_id \<Rightarrow> nat" where
  "lock_rank root RegistryLock = 1"
| "lock_rank root (VarLock v) = 2"
| "lock_rank root ManagerLock = 3"
| "lock_rank root (LoggerLock lg) = (if lg = root then 5 else 4)"
| "lock_rank root (AppenderLock a) = 6"

text \<open>Sections whose locks rank above \<open>n\<close>, of an empty list, an append and a concatenation.\<close>

abbreviation above :: "nat \<Rightarrow> nat \<Rightarrow> lock_section list \<Rightarrow> bool" where
  "above root n \<equiv> list_all (ranked (lock_rank root) n)"

lemma above_concat: "(\<And>x. x \<in> set xs \<Longrightarrow> above root n (f x)) \<Longrightarrow> above root n (concat (map f xs))"
  by (auto simp: list_all_iff)

lemmas appender_locks = LogAppender_setFormatter_locks_def LogAppender_getFormatter_locks_def
  LogAppender_hasFormatter_locks_def LogAppender_toYamlString_locks_def FileLogAppender_reopen_locks_def

lemma appender_log_above: "n < 6 \<Longrightarrow> above root n (LogAppender_log_locks p)"
  by (cases p) (simp_all add: appender_locks)

lemma root_log_above: "path_of_root root p \<Longrightarrow> n < 5 \<Longrightarrow> above root n (Logger_log_locks p)"
  by (cases p) (auto intro!: above_concat appender_log_above)

lemma log_above: "path_ok root p \<Longrightarrow> n < 4 \<Longrightarrow> above root n (Logger_log_locks p)"
  by (cases p) (auto intro!: above_concat appender_log_above root_log_above)

lemma logger_calls_above:
  assumes "n < 4"
  shows "above root n (Logger_addAppender_locks lg a b)" "above root n (Logger_delAppender_locks lg)"
    "above root n (Logger_clearAppenders_locks lg)" "above root n (Logger_setFormatter_locks lg e as)"
    "above root n (Logger_setFormatter_str_locks lg e as)" "above root n (Logger_getFormatter_locks lg)"
    "above root n (Logger_toYamlString_locks lg xs)"
  using assms
  by (auto simp: Logger_addAppender_locks_def Logger_delAppender_locks_def Logger_clearAppenders_locks_def Logger_setFormatter_locks_def
      Logger_setFormatter_str_locks_def Logger_getFormatter_locks_def Logger_toYamlString_locks_def appender_locks intro!: above_concat)

lemma manager_calls_above:
  assumes "n < 3"
  shows "above root n LoggerManager_getLogger_locks" "above root n (LoggerManager_toYamlString_locks ls)"
  using assms by (auto simp: LoggerManager_getLogger_locks_def LoggerManager_toYamlString_locks_def intro!: above_concat logger_calls_above)

lemma log_call_above: "log_call_ok root c \<Longrightarrow> n < 3 \<Longrightarrow> above root n (log_call_locks c)"
  by (cases c) (auto intro!: log_above logger_calls_above manager_calls_above appender_log_above simp: appender_locks)

lemma conf_changed_above:
  assumes "conf_path_ok root p" and "n < 3"
  shows "above root n (on_logger_conf_changed_locks p)"
proof -
  have "above root n (add_one_locks lg q)" for lg q
    using assms(2) by (auto simp: add_one_locks_def appender_locks intro!: logger_calls_above)
  then have "above root n (apply_define_locks q)" for q
    using assms(2) by (auto simp: apply_define_locks_def intro!: above_concat logger_calls_above manager_calls_above split: option.splits)
  moreover have "above root n (remove_define_locks lg)" for lg
    using assms(2) by (auto simp: remove_define_locks_def intro!: logger_calls_above manager_calls_above)
  ultimately show ?thesis
    using assms by (auto simp: on_logger_conf_changed_locks_def conf_path_ok_def intro!: above_concat log_above)
qed

lemma toString_above: "pred_option (path_ok root) failed \<Longrightarrow> n < 2 \<Longrightarrow> above root n (ConfigVar_toString_locks v failed)"
  by (auto simp: ConfigVar_toString_locks_def intro!: log_above split: option.splits)

lemma setValue_above: "list_all (conf_path_ok root) ls \<Longrightarrow> n < 2 \<Longrightarrow> above root n (ConfigVar_setValue_locks v ls b)"
  by (auto simp: ConfigVar_setValue_locks_def list_all_iff [of "conf_path_ok root"] intro!: above_concat conf_changed_above)

lemma fromString_above: "from_path_ok root p \<Longrightarrow> n < 2 \<Longrightarrow> above root n (ConfigVar_fromString_locks v p)"
  by (auto simp: ConfigVar_fromString_locks_def from_path_ok_def intro!: log_above setValue_above split: option.splits)

lemma var_call_above: "var_call_ok root c \<Longrightarrow> n < 2 \<Longrightarrow> above root n (var_call_locks c)"
  by (cases c) (auto intro!: toString_above setValue_above fromString_above simp: ConfigVar_getValue_locks_def
      ConfigVar_addListener_locks_def ConfigVar_delListener_locks_def ConfigVar_clearListener_locks_def ConfigVar_getListener_locks_def)

lemma Lookup_above: "mismatch_ok root m \<Longrightarrow> above root 0 (Config_Lookup_locks m)"
  by (auto simp: Config_Lookup_locks_def mismatch_ok_def intro!: log_above toString_above split: option.splits)

lemma api_above: "api_ok root c \<Longrightarrow> above root 0 (api_locks c)"
proof (cases c)
  case (CLookupDefault mismatch message)
  then show "api_ok root c \<Longrightarrow> ?thesis"
    by (auto simp: Config_Lookup_default_locks_def intro!: Lookup_above log_above split: option.splits)
next
  case (CLoadFromYaml messages nodes)
  then show "api_ok root c \<Longrightarrow> ?thesis"
    by (auto simp: Config_LoadFromYaml_locks_def Config_LookupBase_locks_def list_all_iff [of "path_ok root"]
        list_all_iff [of "pred_option f" for f] intro!: above_concat log_above fromString_above split: option.splits) fastforce
next
  case (CVisit cs)
  then show "api_ok root c \<Longrightarrow> ?thesis"
    by (auto simp: Config_Visit_locks_def list_all_iff [of "case_sum f g" for f g] intro!: above_concat log_call_above var_call_above
        split: sum.splits) 
qed (auto simp: Config_LookupBase_locks_def intro!: log_call_above var_call_above Lookup_above)

subsection \<open>The paths of a state\<close>

text \<open>The path of a call of \<open>Logger::log\<close> that runs alone, in the order of the code; the fuel is that of \<open>Logger_log\<close>.\<close>

definition appender_path_of :: "io_env \<Rightarrow> log_event \<Rightarrow> log_state \<Rightarrow> nat \<Rightarrow> appender_path" where
  "appender_path_of io ev st a =
     (case st_appenders st a of
        None \<Rightarrow> ToStdout a False
      | Some ap \<Rightarrow>
          (case a_kind ap of
             StdoutLogAppender \<Rightarrow> ToStdout a (a_level ap \<le> ev_level ev)
           | FileLogAppender f s lastTime \<Rightarrow> ToFile a (a_level ap \<le> ev_level ev) (io_now io \<noteq> lastTime)))"

fun log_path_of :: "nat \<Rightarrow> io_env \<Rightarrow> nat \<Rightarrow> log_event \<Rightarrow> log_state \<Rightarrow> log_path option" where
  "log_path_of 0 io lg ev st = None"
| "log_path_of (Suc fuel) io lg ev st =
     (case st_loggers st lg of
        None \<Rightarrow> None
      | Some l \<Rightarrow>
          if l_level l \<le> ev_level ev then
            if l_appenders l \<noteq> [] then Some (Delivered lg (map (appender_path_of io ev st) (l_appenders l)))
            else (case l_root l of
                    Some r \<Rightarrow> map_option (Forwarded lg) (log_path_of fuel io r ev st)
                  | None \<Rightarrow> Some (Nowhere lg))
          else Some Below)"

lemma log_path_of_ok:
  assumes "wf_state nulls st" and "st_loggers st lg = Some l"
  shows "\<exists>p. log_path_of 2 io lg ev st = Some p \<and> path_ok (mgr_root st) p"
proof -
  obtain rl where rl: "st_loggers st (mgr_root st) = Some rl" "l_root rl = None" by (rule wf_root [OF assms(1)])
  obtain p where p: "log_path_of 1 io (mgr_root st) ev st = Some p" "path_of_root (mgr_root st) p"
    using rl by (cases "l_level rl \<le> ev_level ev"; cases "l_appenders rl = []") auto
  have "l_root l = None \<or> l_root l = Some (mgr_root st)"
    using assms by (simp add: wf_state_def wf_objects_def wf_loggers_def)
  moreover have "lg = mgr_root st \<Longrightarrow> l_root l = None" using assms(2) rl by simp
  ultimately show ?thesis using p assms(2) by (auto simp: numeral_2_eq_2)
qed

subsection \<open>Properties\<close>

text \<open>C12. Threads that use the logging and the configuration system do not deadlock: let each thread make any sequence
  of calls of loggers, appenders, the manager, configuration variables and the registry, the reconfiguration listener
  included, where loggers forward only to the root, as in every well-formed state. However the calls interleave, as long as a thread is not done some thread can take its
  next step, and every run can be completed.\<close>

theorem no_deadlock:
  assumes "\<forall>calls \<in> set threads. list_all (api_ok root) calls"
    and "lock_step\<^sup>*\<^sup>* (threads_start (map (\<lambda>calls. concat (map api_locks calls)) threads)) ts"
  shows "(finished ts \<or> (\<exists>ts'. lock_step ts ts')) \<and> (\<exists>ts'. lock_step\<^sup>*\<^sup>* ts ts' \<and> finished ts')"
proof -
  have "\<forall>ss \<in> set (map (\<lambda>calls. concat (map api_locks calls)) threads). above root 0 ss"
    using assms(1) api_above by (auto simp: list_all_iff [of "api_ok root"] intro!: above_concat)
  with assms(2) show ?thesis using ranked_no_deadlock ranked_all_finish by blast
qed

text \<open>Loading a configuration that gives logger 3 an appender, while another thread logs to logger 3, which forwards to the root 0.\<close>

definition demo_calls :: "api_call list list" where
  "demo_calls =
     [[CLoadFromYaml [] [Some (9, \<lparr>frp_set = Some ([\<lparr>cfp_log = Delivered 0 [ToStdout 1 True],
          cfp_updated = [\<lparr>dfp_logger = 3, dfp_formatter = None,
            dfp_appenders = [\<lparr>adp_appender = 5, adp_file = True, adp_formatter = False, adp_no_formatter = True\<rparr>]\<rparr>],
          cfp_removed = []\<rparr>], True), frp_failed = None\<rparr>)]],
      [LogCall (CLog (Forwarded 3 (Delivered 0 [ToStdout 1 True, ToFile 2 True True])))]]"

theorem no_deadlock_witness:
  "\<exists>ts. lock_step\<^sup>*\<^sup>* (threads_start (map (\<lambda>calls. concat (map api_locks calls)) demo_calls)) ts \<and> finished ts"
proof -
  have "\<forall>calls \<in> set demo_calls. list_all (api_ok 0) calls"
    by (simp add: demo_calls_def from_path_ok_def conf_path_ok_def)
  from no_deadlock [OF this rtranclp.rtrancl_refl] show ?thesis by blast
qed

text \<open>Taking two locks in opposite orders does deadlock: the order of the code matters.\<close>

lemma opposite_orders_deadlock:
  "\<exists>ts. lock_step\<^sup>*\<^sup>* (threads_start [locked ManagerLock (locked (LoggerLock 0) []), locked (LoggerLock 0) (locked ManagerLock [])]) ts \<and>
     \<not> finished ts \<and> \<not> (\<exists>ts'. lock_step ts ts')"
proof -
  let ?a = "ManagerLock" and ?b = "LoggerLock 0"
  let ?s0 = "threads_start [locked ?a (locked ?b []), locked ?b (locked ?a [])]"
  let ?s1 = "?s0[0 := \<lparr>th_held = [(?a, Exclusive)], th_ops = [Acq ?b Exclusive, Rel ?b, Rel ?a]\<rparr>]"
  let ?s2 = "?s1[1 := \<lparr>th_held = [(?b, Exclusive)], th_ops = [Acq ?a Exclusive, Rel ?a, Rel ?b]\<rparr>]"
  have "lock_step ?s0 ?s1"
    using step_acquire [of 0 ?s0 ?a Exclusive "[Acq ?b Exclusive, Rel ?b, Rel ?a]"]
    by (simp add: threads_start_def grants_def nth_Cons split: nat.splits)
  moreover have "lock_step ?s1 ?s2"
    using step_acquire [of 1 ?s1 ?b Exclusive "[Acq ?a Exclusive, Rel ?a, Rel ?b]"]
    by (simp add: threads_start_def grants_def nth_Cons split: nat.splits)
  ultimately have "lock_step\<^sup>*\<^sup>* ?s0 ?s2" by (meson converse_rtranclp_into_rtranclp r_into_rtranclp)
  moreover have "\<not> lock_step ?s2 ts'" for ts'
  proof
    assume "lock_step ?s2 ts'"
    then show False
    proof cases
      case (step_acquire t x m ops)
      then have "t = 0 \<or> t = 1" by (auto simp: threads_start_def)
      with step_acquire show False
        by (auto simp: threads_start_def grants_def less_Suc_eq)
    next
      case (step_release t x ops)
      then show False by (auto simp: threads_start_def less_Suc_eq)
    qed
  qed
  moreover have "\<not> finished ?s2" by (simp add: finished_def threads_start_def)
  ultimately show ?thesis by blast
qed

end
