(* ===== verification/Fiber_Config.thy ===== *)
theory Fiber_Config
  imports Config_Claims Log_Config Fiber_Claims
begin

text \<open>
  Fibers and the configuration together: \<open>g_fiber_stack_size\<close> of \<^verbatim>\<open>sylar/fiber.cc\<close> is a variable of the
  registry, and the constructor of \<open>Fiber\<close> reads it when it is given no stack size. \<open>boost::lexical_cast\<close>
  between strings and \<open>uint32_t\<close> is a parameter, and so is the name that \<open>typeid\<close> gives that type.
  The registry of a program holds variables of several types: the two of this library, \<open>logs\<close> and
  \<open>fiber.stack_size\<close>, and those of the program that uses it.
\<close>

subsection \<open>One registry for variables of several types\<close>

datatype 'u program_value = LogsVal "log_define list" | U32Val "32 word" | UserVal 'u

text \<open>
  A type as one of the types of the registry: its values are those that \<open>build\<close> makes, and \<open>match\<close>
  gives back what they are made of. A variable of a type never holds a value of another.
\<close>

definition embed_type :: "('a \<Rightarrow> 'b) \<Rightarrow> ('b \<Rightarrow> 'a option) \<Rightarrow> 'a config_type \<Rightarrow> 'b config_type" where
  "embed_type build match T =
     \<lparr>ty_name = ty_name T,
      FromStr = (\<lambda>s. case FromStr T s of (r, out) \<Rightarrow> (map_sum id build r, out)),
      ToStr = (\<lambda>v. case match v of
         Some x \<Rightarrow> ToStr T x | None \<Rightarrow> Inl (UndefinedBehaviour ''value of another type''))\<rparr>"

fun match_logs :: "'u program_value \<Rightarrow> log_define list option" where
  "match_logs (LogsVal lds) = Some lds"
| "match_logs (U32Val n) = None"
| "match_logs (UserVal u) = None"

fun match_u32 :: "'u program_value \<Rightarrow> 32 word option" where
  "match_u32 (LogsVal lds) = None"
| "match_u32 (U32Val n) = Some n"
| "match_u32 (UserVal u) = None"

locale embedded_type =
  fixes build :: "'a \<Rightarrow> 'b" and match :: "'b \<Rightarrow> 'a option"
  assumes match_build: "match (build x) = Some x"
    and build_match: "match v = Some x \<Longrightarrow> v = build x"
begin

lemma embed_ToStr: "ToStr (embed_type build match T) (build x) = ToStr T x"
  by (simp add: embed_type_def match_build)

lemma embed_FromStr: "fst (FromStr (embed_type build match T) s) = map_sum id build (fst (FromStr T s))"
  by (simp add: embed_type_def case_prod_beta)

text \<open>Loading a document into an embedded variable is loading it into the variable.\<close>

lemma loaded_value_embed:
  "loaded_value Y (embed_type build match T) name ns (build d) = build (loaded_value Y T name ns d)"
proof (induction ns arbitrary: d)
  case (Cons e ns)
  obtain key n where e: "e = (key, n)" by (cases e)
  show ?case
    using Cons.IH by (cases "fst (FromStr T (node_text Y n))") (simp_all add: e loaded_value_def embed_FromStr)
qed (simp add: loaded_value_def)

text \<open>Every value a document can give an embedded variable is one of its type.\<close>

lemma FromStr_typed: "fst (FromStr (embed_type build match T) s) = Inr v \<Longrightarrow> \<exists>x. match v = Some x"
  by (cases "fst (FromStr T s)") (auto simp: embed_FromStr match_build)

end

interpretation logs_values: embedded_type LogsVal match_logs
proof unfold_locales
  fix v :: "'u program_value" and lds assume "match_logs v = Some lds"
  then show "v = LogsVal lds" by (cases v) simp_all
qed simp

interpretation u32_values: embedded_type U32Val match_u32
proof unfold_locales
  fix v :: "'u program_value" and n assume "match_u32 v = Some n"
  then show "v = U32Val n" by (cases v) simp_all
qed simp

subsection \<open>The variable\<close>

record boost_u32 =
  u32_typeid :: string
  u32_from :: "string \<Rightarrow> 32 word res"
  u32_to :: "32 word \<Rightarrow> string res"

text \<open>The general \<open>LexicalCast\<close> template, in both directions.\<close>

definition LexicalCast_string_u32 :: "boost_u32 \<Rightarrow> string \<Rightarrow> 32 word wres" where
  "LexicalCast_string_u32 B v = (u32_from B v, [])"

definition LexicalCast_u32_string :: "boost_u32 \<Rightarrow> 32 word \<Rightarrow> string res" where
  "LexicalCast_u32_string B v = u32_to B v"

definition u32_type :: "boost_u32 \<Rightarrow> 32 word config_type" where
  "u32_type B = \<lparr>ty_name = u32_typeid B, FromStr = LexicalCast_string_u32 B, ToStr = LexicalCast_u32_string B\<rparr>"

definition stack_size_name :: string where
  "stack_size_name = ''fiber.stack_size''"

definition u32_values_type :: "boost_u32 \<Rightarrow> 'u program_value config_type" where
  "u32_values_type B = embed_type U32Val match_u32 (u32_type B)"

definition g_fiber_stack_size_init ::
    "'w diag_env \<Rightarrow> boost_u32 \<Rightarrow> ('u program_value, 'w) config \<Rightarrow> 'w \<Rightarrow>
       nat res \<times> ('u program_value, 'w) config \<times> 'w" where
  "g_fiber_stack_size_init R B c w =
     Config_Lookup_default R (u32_values_type B) stack_size_name (U32Val (1024 * 1024)) ''fiber stack size'' c w"

text \<open>The constructor, with the \<open>ConfigVar<uint32_t>\<close> it reads at its address in the registry.\<close>

definition Fiber_new_configured ::
    "fiber_env \<Rightarrow> nat \<Rightarrow> ('u program_value, 'w) config \<Rightarrow> fiber_prog option \<Rightarrow> 64 word \<Rightarrow> fiber_sys \<Rightarrow>
       (nat \<times> fiber_sys) res" where
  "Fiber_new_configured E var c cb stacksize s =
     (case cfg_vars c var of
        None \<Rightarrow> Inl dangling
      | Some v \<Rightarrow>
          (case match_u32 (ConfigVar_getValue v) of
             None \<Rightarrow> Inl (UndefinedBehaviour ''value of another type'')
           | Some n \<Rightarrow> Fiber_new (E\<lparr>g_fiber_stack_size := n\<rparr>) cb stacksize s))"

subsection \<open>Properties\<close>

lemma stack_size_valid: "all_in config_chars stack_size_name"
  by (simp add: stack_size_name_def config_chars_def)

lemma stack_size_registered:
  assumes "wf_config c" and "cfg_datas c stack_size_name = None"
  obtains c' where "g_fiber_stack_size_init R B c w = (Inr (cfg_next c), c', w)" "wf_config c'"
    "cfg_datas c' stack_size_name = Some (cfg_next c)"
    "cfg_vars c' (cfg_next c) = Some (ConfigVar_new (u32_values_type B) stack_size_name (U32Val (1024 * 1024)) ''fiber stack size'')"
proof -
  let ?v = "ConfigVar_new (u32_values_type B) stack_size_name (U32Val (1024 * 1024)) ''fiber stack size''"
  let ?c = "c\<lparr>cfg_vars := (cfg_vars c)(cfg_next c \<mapsto> ?v), cfg_next := Suc (cfg_next c),
    cfg_datas := (cfg_datas c)(stack_size_name \<mapsto> cfg_next c)\<rparr>"
  have "g_fiber_stack_size_init R B c w = (Inr (cfg_next c), ?c, w)"
    using assms(2) stack_size_valid by (simp add: g_fiber_stack_size_init_def Config_Lookup_default_def Config_Lookup_def)
  with wf_Lookup_default [OF assms(1) this [unfolded g_fiber_stack_size_init_def]] that show ?thesis by simp
qed

lemma Fiber_new_configured_spec:
  assumes "wf_sys s" and "good_env E" and "s_fiber_id s \<noteq> - 1" and "cfg_vars c p = Some var" and "cv_val var = U32Val n"
  shows "\<exists>q s' f. Fiber_new_configured E p c cb sz s = Inr (q, s') \<and> wf_sys s' \<and> fs_fibers s' q = Some f \<and>
    f_stacksize f = (if sz \<noteq> 0 then ucast sz else n)"
proof -
  have "good_env (E\<lparr>g_fiber_stack_size := n\<rparr>)" using assms(2) by (simp add: good_env_def)
  from Fiber_new_spec [OF assms(1) this assms(3), of cb sz] assms(4,5) show ?thesis
    by (fastforce simp: Fiber_new_configured_def ConfigVar_getValue_def)
qed

text \<open>C19. The configured stack size reaches the fibers. The static initialisation registers the variable in any well-formed
  registry that has no such name yet, whatever variables of other types it holds; loading any document after it returns; and if
  no exception escaped, every fiber constructed from then on without a stack size gets the last value the document gives for
  \<open>fiber.stack_size\<close> that can be parsed as \<open>uint32_t\<close>, and 1 MiB when there is none, while one with a stack size gets that, cut to
  32 bits.\<close>

theorem stack_size_from_yaml:
  fixes c :: "('u program_value, 'w) config"
  assumes "wf_config c" and "cfg_datas c stack_size_name = None" and "nested_below Y fuel root"
    and "wf_sys s" and "good_env E" and "s_fiber_id s \<noteq> - 1"
  shows "\<exists>p c1 r c2 w2 ns w1. g_fiber_stack_size_init R B c w = (Inr p, c1, w) \<and>
    ListAllMember R Y fuel [] root [] w = Some (Inr ns, w1) \<and> set ns = {(path, n). member Y [] root path n} \<and>
    Config_LoadFromYaml R Y fuel root c1 w = Some (r, c2, w2) \<and>
    (r = None \<longrightarrow> (\<forall>cb sz. \<exists>q s' f. Fiber_new_configured E p c2 cb sz s = Inr (q, s') \<and> wf_sys s' \<and> fs_fibers s' q = Some f \<and>
       f_stacksize f = (if sz \<noteq> 0 then ucast sz else loaded_value Y (u32_type B) stack_size_name ns (1024 * 1024))))"
proof -
  let ?v = "ConfigVar_new (u32_values_type B) stack_size_name (U32Val (1024 * 1024)) ''fiber stack size'' ::
    ('u program_value, 'w) config_var"
  obtain c1 where c1: "g_fiber_stack_size_init R B c w = (Inr (cfg_next c), c1, w)" "wf_config c1"
    "cfg_datas c1 stack_size_name = Some (cfg_next c)" "cfg_vars c1 (cfg_next c) = Some ?v"
    by (rule stack_size_registered [OF assms(1,2)])
  from LoadFromYaml_result [OF c1(2) assms(3) c1(3,4), of R w] obtain r c2 w2 v ns w1 where
    load: "Config_LoadFromYaml R Y fuel root c1 w = Some (r, c2, w2)" "cfg_vars c2 (cfg_next c) = Some (?v\<lparr>cv_val := v\<rparr>)"
      "ListAllMember R Y fuel [] root [] w = Some (Inr ns, w1)" "set ns = {(path, n). member Y [] root path n}"
    and v: "no_throw ?v \<and> r = None \<and> stack_size_name \<noteq> [] \<longrightarrow> v = loaded_value Y (cv_type ?v) stack_size_name ns (cv_val ?v)"
    by blast
  let ?n = "loaded_value Y (u32_type B) stack_size_name ns (1024 * 1024)"
  have "v = U32Val ?n" if "r = None"
    using v that by (simp add: no_throw_def ConfigVar_new_def stack_size_name_def u32_values_type_def
        u32_values.loaded_value_embed)
  then have "\<exists>q s' f. Fiber_new_configured E (cfg_next c) c2 cb sz s = Inr (q, s') \<and> wf_sys s' \<and> fs_fibers s' q = Some f \<and>
      f_stacksize f = (if sz \<noteq> 0 then ucast sz else ?n)" if "r = None" for cb sz
    using Fiber_new_configured_spec [OF assms(4-6) load(2), of ?n cb sz] that by (simp cong: if_cong)
  with c1(1) load(1,3,4) show ?thesis by blast
qed

definition demo_u32 :: boost_u32 where
  "demo_u32 = \<lparr>u32_typeid = ''j'', u32_from = (\<lambda>s. if s = ''4096'' then Inr 4096 else Inl (StdException ''bad lexical cast'')),
     u32_to = (\<lambda>_. Inr ''4096'')\<rparr>"

text \<open>A registry that holds \<open>logs\<close> already, and a document with values for both variables.\<close>

definition demo_logs_config :: "(unit program_value, string list) config" where
  "demo_logs_config = fst (snd (Config_Lookup_default demo_log (embed_type LogsVal match_logs (logs_type tree_yaml ''t''))
     ''logs'' (LogsVal []) ''logs config'' no_config []))"

definition demo_fiber_doc :: ytree where
  "demo_fiber_doc = YMap [(''fiber'', YMap [(''stack_size'', YScalar ''4096'')]), (''logs'', YSeq [])]"

abbreviation demo_fiber_nodes :: "(string \<times> ytree) list" where
  "demo_fiber_nodes \<equiv> [('''', demo_fiber_doc), (''fiber'', YMap [(''stack_size'', YScalar ''4096'')]),
     (''fiber.stack_size'', YScalar ''4096''), (''logs'', YSeq [])]"

lemma demo_fiber_members: "ListAllMember demo_log tree_yaml 3 [] demo_fiber_doc [] [] = Some (Inr demo_fiber_nodes, [])"
  by code_simp

lemma demo_logs_config_eq:
  "Config_Lookup_default demo_log (embed_type LogsVal match_logs (logs_type tree_yaml ''t'')) ''logs'' (LogsVal []) ''logs config''
     no_config [] = (Inr 0, demo_logs_config, [])"
  by (simp add: demo_logs_config_def Config_Lookup_default_def Config_Lookup_def no_config_def config_chars_def)

theorem stack_size_from_yaml_witness:
  "\<exists>p c1 c2 w q s' f. g_fiber_stack_size_init demo_log demo_u32 demo_logs_config [] = (Inr p, c1, []) \<and>
     Config_LoadFromYaml demo_log tree_yaml 3 demo_fiber_doc c1 [] = Some (None, c2, w) \<and>
     Fiber_new_configured demo_env p c2 None 0 no_fibers = Inr (q, s') \<and> fs_fibers s' q = Some f \<and> f_stacksize f = 4096"
proof -
  have n: "nested_below tree_yaml 3 demo_fiber_doc" by code_simp
  have wf: "wf_config demo_logs_config" by (rule wf_Lookup_default [OF wf_no_config demo_logs_config_eq])
  have none: "cfg_datas demo_logs_config stack_size_name = None"
    by (simp add: demo_logs_config_def stack_size_name_def Config_Lookup_default_def Config_Lookup_def no_config_def config_chars_def)
  have env: "good_env demo_env" by (rule good_demo_env)
  have id: "s_fiber_id no_fibers \<noteq> - 1" by (simp add: no_fibers_def)
  have ok: "fst (the (Config_LoadFromYaml demo_log tree_yaml 3 demo_fiber_doc
      (fst (snd (g_fiber_stack_size_init demo_log demo_u32 demo_logs_config []))) [])) = None"
    by code_simp
  have val: "loaded_value tree_yaml (u32_type demo_u32) stack_size_name demo_fiber_nodes (1024 * 1024) = 4096"
    by code_simp
  from stack_size_from_yaml [OF wf none n wf_no_fibers env id, of demo_log demo_u32 "[]"] obtain p c1 r c2 w2 ns w1 where
    run: "g_fiber_stack_size_init demo_log demo_u32 demo_logs_config [] = (Inr p, c1, [])"
      "Config_LoadFromYaml demo_log tree_yaml 3 demo_fiber_doc c1 [] = Some (r, c2, w2)"
    and ns: "ListAllMember demo_log tree_yaml 3 [] demo_fiber_doc [] [] = Some (Inr ns, w1)"
    and new: "r = None \<longrightarrow> (\<forall>cb sz. \<exists>q s' f. Fiber_new_configured demo_env p c2 cb sz no_fibers = Inr (q, s') \<and> wf_sys s' \<and>
      fs_fibers s' q = Some f \<and> f_stacksize f =
        (if sz \<noteq> 0 then ucast sz else loaded_value tree_yaml (u32_type demo_u32) stack_size_name ns (1024 * 1024)))"
    by blast
  from ok run have r: "r = None" by simp
  have "ns = demo_fiber_nodes"
    using ns by (simp only: demo_fiber_members option.inject prod.inject sum.inject)
  then have size: "loaded_value tree_yaml (u32_type demo_u32) stack_size_name ns (1024 * 1024) = 4096" using val by simp
  from new [unfolded size] r have "\<exists>q s' f. Fiber_new_configured demo_env p c2 None 0 no_fibers = Inr (q, s') \<and> wf_sys s' \<and>
      fs_fibers s' q = Some f \<and> f_stacksize f = (if (0 :: 64 word) \<noteq> 0 then ucast (0 :: 64 word) else 4096)"
    by blast
  then obtain q s' f where "Fiber_new_configured demo_env p c2 None 0 no_fibers = Inr (q, s')" "fs_fibers s' q = Some f" "f_stacksize f = 4096"
    by auto
  with run r show ?thesis by blast
qed

end
