(* ===== verification/Spec2Isabelle.thy ===== *)
theory Spec2Isabelle
  imports Logger_Delivery Config_Claims Log_Config_Claims Log_Yaml Fiber_Claims Sync Thread_Life Scheduler Util
    Singleton Locks Config_Conc Config_Race Config_Read Log_Conc File_Conc Scheduler_Conc Lock_Use Fiber_Config
begin

text \<open>
  A verification library for the server framework under \<^verbatim>\<open>src/sylar\<close>.

  \<^bold>\<open>The program.\<close> A logging system (\<^verbatim>\<open>log.h\<close>, \<^verbatim>\<open>log.cc\<close>): named loggers owned by one manager, each
  with appenders that format events by a compiled pattern and write them to the console or to a
  file. A configuration system (\<^verbatim>\<open>config.h\<close>, \<^verbatim>\<open>config.cc\<close>): typed variables registered by name, with
  change listeners, loaded from YAML. The two meet in the variable \<open>logs\<close>, whose listener rebuilds
  the loggers; fibers take their stack size from another variable. Below them are threads, semaphores and locks (\<^verbatim>\<open>thread.h\<close>, \<^verbatim>\<open>thread.cc\<close>), coroutines
  (\<^verbatim>\<open>fiber.h\<close>, \<^verbatim>\<open>fiber.cc\<close>), the task queue of a scheduler under construction (\<^verbatim>\<open>scheduler.h\<close>), and
  stack traces (\<^verbatim>\<open>util.cc\<close>) for the assertion macros (\<^verbatim>\<open>macro.h\<close>).

  \<^bold>\<open>Shared theories.\<close> \<open>Sylar_Prelude\<close>: errors and exceptions as values of \<open>exn\<close>, results
  \<open>exn + 'a\<close> with their binds and folds, computations that also print (\<open>wres\<close>), characters and
  decimal numbers, and the locale \<open>invariant_system\<close>, interpreted for every transition system.
  \<open>Ordered_Map\<close>: \<open>std::map\<close> and \<open>std::set\<close> as sorted lists, with locales for their laws. \<open>Yaml_Api\<close>: the
  operations of yaml-cpp the code calls as a record that is an argument of the definitions, with the
  documented laws as the locale \<open>yaml_laws\<close>; \<open>Yaml_Tree\<close> interprets it with trees and a printer and
  parser for them.

  \<^bold>\<open>Logging.\<close> \<open>Log_Level\<close> has the levels. \<open>Log_Formatter\<close> has events, format items, and \<open>LogFormatter::init\<close> as the
  state machine it is; \<open>Log_Pattern\<close> shows that compiling a printed pattern gives its
  segments back, when the error flag is set, and what formatting produces. \<open>Log_Appender\<close> and
  \<open>Logger\<close> have the appenders, loggers and the manager as operations on one store of objects, so that
  sharing by pointer is kept; \<open>Log_Sink\<close> states the effect of one appender on its sink;
  \<open>Logger_Wf\<close> has the invariant of the store and that every operation keeps it. \<open>Logger_Delivery\<close> shows
  that a call delivers to exactly the appenders it reaches, how it fails in a reachable state (a null
  pointer is dereferenced only after the program has set a null formatter, which the parameter \<open>nulls\<close> of
  the invariant and of the steps stands for), and the behaviour of the macros and of the manager. \<open>Logger::log\<close> falls
  back to the root logger, which has no root: the recursion is at most two deep, and fuel 2 is enough.

  \<^bold>\<open>Configuration.\<close> \<open>Lexical_Cast\<close> has the container templates, with the locale \<open>yaml_codec\<close> for an
  element type whose casts are inverse to each other. \<open>Config_Var\<close> has \<open>ConfigVar\<close>, over a world its
  listeners act on. \<open>Config_Registry\<close> has \<open>Config\<close>; \<open>ListAllMember\<close> takes the depth of nesting as fuel,
  and any fuel above the depth of the document gives the result. \<open>Config_Props\<close> has the invariant of the
  registry, its histories, and what is loaded; \<open>Config_Claims\<close> has the properties: a failed change leaves
  the variable alone, listeners, lookups, loading, and the round trips of the containers.

  \<^bold>\<open>Logging by configuration.\<close> \<open>Log_Define\<close> has \<open>LogDefine\<close> and its casts. \<open>Log_Config\<close> has the listener and its
  installation by \<open>LogIniter\<close>, and every \<open>toYamlString\<close>. \<open>Log_Config_Spec\<close> specifies a change of
  configuration on what can be seen of a logger and proves that the listener refines it.
  \<open>Log_Config_Claims\<close> goes from configuration text to loggers; \<open>Log_Yaml\<close> shows that the text printed for the
  loggers is a configuration describing them.

  \<^bold>\<open>Concurrency.\<close> \<open>Sync\<close> has the lock guards, with one locale for the three of them, and \<open>CASLock\<close> as a
  transition system of any number of threads. \<open>Sylar_Thread\<close> has semaphores and the constructor of
  \<open>Thread\<close> interleaved with the new thread's \<open>run\<close>; \<open>Thread_Life\<close> has the \<open>Thread\<close> objects and the running threads of a
  program over time, and shows when the pointer a thread keeps to its object is good. \<open>Fiber\<close> has the coroutines of one thread: a
  callback is a resumable program, and a context switch runs it up to its next yield.
  \<open>Fiber_Props\<close> has the invariant; \<open>Fiber_Claims\<close> has the histories of calls of the main fiber, which calls fail an assertion or are
  undefined and which return, that fibers run to completion, and what happens to suspended ones that lose their owners.
  \<open>Fiber_Config\<close> follows the configured stack size from the document to the fibers, in a registry that also holds variables
  of other types. \<open>Scheduler\<close> has the task queue, \<open>Util\<close> fiber
  ids and stack traces. \<open>Singleton\<close> has the two templates and the macros that reach the manager through one.

  \<^bold>\<open>Several threads.\<close> \<open>Locks\<close> has the lock classes over the pthread functions, what they promise to their guards as
  the locale \<open>lock_contract\<close>, which each class is shown to satisfy, and the threads that use a lock through guards:
  they exclude each other, and a free lock lets one in. The rest rests on that contract, through the relation \<open>held_by\<close> between the state
  of a lock and the program counters of the threads. \<open>Config_Conc\<close> runs \<open>setValue\<close> and
  the changes of listeners statement by statement: the variable stands still while a thread notifies, one
  thread alone computes \<open>ConfigVar_setValue\<close>, and two together can leave the listeners with a value the variable does not
  have. \<open>Config_Race\<close> has the shared counter of \<open>addListener\<close> and the two sections of \<open>Lookup\<close>, with the runs that lose a
  listener or a variable. \<open>Config_Read\<close> copies and assigns the value field by field: \<open>toString\<close> reads whole values, the users of the reference
  that \<open>getValue\<close> returns may not. \<open>Log_Conc\<close> runs the loops of \<open>Logger\<close> over its appenders against changes of the list, with
  their iterators: the changes under the lock are safe, and \<open>clearAppenders\<close> and \<open>getAppenders\<close>, which take none, are not.
  \<open>File_Conc\<close> has the threads that log to one file, reopening it every second and writing in pieces: lines are never mixed, lost or
  doubled, the threads can always finish, and one thread alone computes \<open>FileLogAppender_log\<close>. \<open>Scheduler_Conc\<close> shows that concurrent calls of \<open>schedule\<close> have the effect of the same calls in a row. \<open>Lock_Order\<close> shows
  that threads whose critical sections nest upwards in a rank never deadlock and always can finish; \<open>Lock_Use\<close> has the
  critical sections of every function of the two systems that locks, with the rank registry, variable, manager, named
  logger, root logger, appender.

  \<^bold>\<open>Parameters.\<close> yaml-cpp, \<open>boost::lexical_cast\<close>, \<open>boost::filesystem\<close>, \<open>strftime\<close>, the clock, the file system,
  POSIX threads and semaphores, \<open>malloc\<close>, the context functions, and the symbols of stack frames.

  \<^bold>\<open>Not modelled.\<close> The range overload of \<open>schedule\<close>, which cannot be instantiated. With several threads,
  a statement is a step: reads and writes of one member are indivisible but for the value in \<open>Config_Read\<close> and the text in \<open>File_Conc\<close>, so of the
  races on levels and on \<open>m_lastTime\<close>, which are read and written without a lock, only the orders are seen. Listeners and callbacks of
  \<open>Visit\<close> that call back into what is locked around them are left out, and so are several threads inside \<open>Visit\<close> and
  \<open>LoadFromYaml\<close> but for their order of locks, and changes of an appender's formatter while it logs. The sequential theories have one call at a time. Fibers are those of
  one thread, in the build that returns through \<open>uc_link\<close>; a callback prints, yields, returns or throws, and makes no other
  calls on fibers. A file appender opens its file to append; the other open modes of \<open>reopen\<close> are left out. The text of the stack trace in an assertion message
  is left out. The test programs are not part of the library.
\<close>

end
